(* ===== verification/Prelude.thy ===== *)
theory Prelude
  imports Main "HOL-Library.Char_ord" "HOL-Library.List_Lexorder"
begin

text \<open>
  The shared vocabulary of the hoststack development.

  A C++ function that can end in a way the source does not handle (a null dereference, an access
  outside a buffer, an uncaught exception, a call of \<open>exit\<close>, a wait that never ends) is a function into
  \<open>outcome + 'a\<close>: \<open>Inl\<close> names how the process left the normal path, \<open>Inr\<close> carries the
  value. \<open>rbind\<close> sequences such computations. C strings are HOL strings without the NUL
  character; a \<open>char *\<close> that may be \<open>NULL\<close> is a \<open>string option\<close>.
\<close>

section \<open>Outcomes\<close>

datatype outcome =
    NullDeref
  | OutOfBounds
  | UseAfterFree
  | EmptyOptional
  | JsonThrow
  | StdThrow
  | AssertFail
  | UninitRead
  | Hangs
  | Aborts
  | Exit int

type_synonym 'a res = "outcome + 'a"

definition rbind :: "'a res \<Rightarrow> ('a \<Rightarrow> 'b res) \<Rightarrow> 'b res" where
  "rbind m f = (case m of Inl e \<Rightarrow> Inl e | Inr x \<Rightarrow> f x)"

definition of_opt :: "outcome \<Rightarrow> 'a option \<Rightarrow> 'a res" where
  "of_opt e m = (case m of None \<Rightarrow> Inl e | Some x \<Rightarrow> Inr x)"

named_theorems res_simps \<open>rewrite rules for sequenced outcomes\<close>

lemma rbind_Inr [simp, res_simps]: "rbind (Inr x) f = f x"
  by (simp add: rbind_def)

lemma rbind_Inl [simp, res_simps]: "rbind (Inl e) f = Inl e"
  by (simp add: rbind_def)

lemma rbind_eq_Inr [res_simps]: "rbind m f = Inr y \<longleftrightarrow> (\<exists>x. m = Inr x \<and> f x = Inr y)"
  by (cases m) auto

lemma of_opt_Some [simp, res_simps]: "of_opt e (Some x) = Inr x"
  by (simp add: of_opt_def)

lemma of_opt_None [simp, res_simps]: "of_opt e None = Inl e"
  by (simp add: of_opt_def)

lemma of_opt_eq_Inr [res_simps]: "of_opt e m = Inr x \<longleftrightarrow> m = Some x"
  by (cases m) auto

lemma rbind_cong [fundef_cong]:
  "m = m' \<Longrightarrow> (\<And>x. m' = Inr x \<Longrightarrow> f x = f' x) \<Longrightarrow> rbind m f = rbind m' f'"
  by (cases m') auto

section \<open>C strings\<close>

abbreviation NUL :: char where
  "NUL \<equiv> CHR 0x00"

text \<open>The string a \<open>char\<close> buffer holds: everything before the first NUL.\<close>

definition c_str :: "string \<Rightarrow> string" where
  "c_str buf = takeWhile (\<lambda>c. c \<noteq> NUL) buf"

definition is_cstr :: "string \<Rightarrow> bool" where
  "is_cstr s \<longleftrightarrow> NUL \<notin> set s"

text \<open>\<open>strspn\<close>: the length of the longest prefix made of characters of \<open>seps\<close>.\<close>

definition strspn :: "string \<Rightarrow> string \<Rightarrow> nat" where
  "strspn s seps = length (takeWhile (\<lambda>c. c \<in> set seps) s)"

text \<open>\<open>strchr(seps, c) != NULL\<close>: the terminating NUL counts as part of the string.\<close>

definition strchr_found :: "string \<Rightarrow> char \<Rightarrow> bool" where
  "strchr_found seps c \<longleftrightarrow> c \<in> set seps \<or> c = NUL"

text \<open>
  \<open>strtok\<close>: one call skips leading delimiters and returns the next token with the position just
  after the delimiter that ends it (\<open>None\<close> when only delimiters are left).
\<close>

definition strtok_next :: "string \<Rightarrow> string \<Rightarrow> (string \<times> string) option" where
  "strtok_next delim s =
     (let t = dropWhile (\<lambda>c. c \<in> set delim) s in
      if t = [] then None
      else Some (takeWhile (\<lambda>c. c \<notin> set delim) t,
                 tl (dropWhile (\<lambda>c. c \<notin> set delim) t)))"

function strtok_all :: "string \<Rightarrow> string \<Rightarrow> string list" where
  "strtok_all delim s =
     (case strtok_next delim s of None \<Rightarrow> [] | Some (tok, rest) \<Rightarrow> tok # strtok_all delim rest)"
  by pat_completeness auto

lemma strtok_next_shorter:
  assumes "strtok_next delim s = Some (tok, rest)"
  shows "length rest < length s"
proof -
  let ?t = "dropWhile (\<lambda>c. c \<in> set delim) s"
  from assms have "?t \<noteq> []" and "rest = tl (dropWhile (\<lambda>c. c \<notin> set delim) ?t)"
    by (auto simp: strtok_next_def Let_def split: if_splits)
  moreover have "length (dropWhile (\<lambda>c. c \<notin> set delim) ?t) \<le> length ?t"
    by (rule length_dropWhile_le)
  moreover have "length ?t \<le> length s"
    by (rule length_dropWhile_le)
  moreover have "0 < length ?t" using \<open>?t \<noteq> []\<close> by (subst length_greater_0_conv)
  ultimately show ?thesis by (simp only: length_tl)
qed

termination strtok_all
  by (relation "measure (\<lambda>(d, s). length s)") (auto dest: strtok_next_shorter)

declare strtok_all.simps [simp del]

lemma c_str_is_cstr [simp]: "is_cstr (c_str buf)"
  by (auto simp: is_cstr_def c_str_def dest: set_takeWhileD)

lemma c_str_id [simp]: "is_cstr s \<Longrightarrow> c_str s = s"
  by (auto simp: is_cstr_def c_str_def takeWhile_eq_all_conv)

lemma c_str_append_NUL: "is_cstr s \<Longrightarrow> c_str (s @ NUL # t) = s"
  by (induction s) (auto simp: is_cstr_def c_str_def)

lemma is_cstr_append [simp]: "is_cstr (s @ t) \<longleftrightarrow> is_cstr s \<and> is_cstr t"
  by (auto simp: is_cstr_def)

lemma drop_strspn: "drop (strspn s seps) s = dropWhile (\<lambda>c. c \<in> set seps) s"
  by (simp add: strspn_def dropWhile_eq_drop)

lemma strspn_eq_0: "strspn s seps = 0 \<Longrightarrow> dropWhile (\<lambda>c. c \<in> set seps) s = s"
  by (metis drop0 drop_strspn)

lemma strtok_next_token:
  assumes "strtok_next delim s = Some (tok, rest)"
  shows "tok \<noteq> []" and "set tok \<inter> set delim = {}"
proof -
  let ?t = "dropWhile (\<lambda>c. c \<in> set delim) s"
  from assms have ne: "?t \<noteq> []" and tok: "tok = takeWhile (\<lambda>c. c \<notin> set delim) ?t"
    by (auto simp: strtok_next_def Let_def split: if_splits)
  from hd_dropWhile [OF ne] have "hd ?t \<notin> set delim" .
  with ne tok show "tok \<noteq> []" by (metis hd_Cons_tl list.distinct(1) takeWhile.simps(2))
  from tok show "set tok \<inter> set delim = {}" by (auto dest: set_takeWhileD)
qed

text \<open>Every token is non-empty and free of delimiters.\<close>

lemma strtok_all_tokens:
  "tok \<in> set (strtok_all delim s) \<Longrightarrow> tok \<noteq> [] \<and> set tok \<inter> set delim = {}"
proof (induction delim s rule: strtok_all.induct)
  case (1 delim s)
  show ?case
  proof (cases "strtok_next delim s")
    case None
    with "1.prems" show ?thesis by (simp add: strtok_all.simps [of delim s])
  next
    case (Some p)
    then obtain t r where tr: "strtok_next delim s = Some (t, r)" by (cases p) auto
    with "1.prems" have "tok = t \<or> tok \<in> set (strtok_all delim r)"
      by (simp add: strtok_all.simps [of delim s])
    then show ?thesis
      using "1.IH" [OF tr refl] strtok_next_token [OF tr] by blast
  qed
qed

section \<open>Arithmetic of the C types\<close>

text \<open>
  Conversion to a 32-bit \<open>int\<close> keeps the value modulo \<open>2 ^ 32\<close> (two's complement), as every
  compiler the build supports does for the cast \<open>(int)t\<close> of a 64-bit \<open>time_t\<close>.
\<close>

definition to_int32 :: "int \<Rightarrow> int" where
  "to_int32 x = (x + 2 ^ 31) mod 2 ^ 32 - 2 ^ 31"

definition is_int32 :: "int \<Rightarrow> bool" where
  "is_int32 x \<longleftrightarrow> - (2 ^ 31) \<le> x \<and> x < 2 ^ 31"

lemma to_int32_range [simp]: "is_int32 (to_int32 x)"
  by (simp add: is_int32_def to_int32_def)

lemma to_int32_id [simp]: "is_int32 x \<Longrightarrow> to_int32 x = x"
  by (simp add: is_int32_def to_int32_def)

lemma to_int32_idem_iff: "to_int32 x = x \<longleftrightarrow> is_int32 x"
  by (metis to_int32_id to_int32_range)

section \<open>Decimal numbers (the conversion \<open>%d\<close>)\<close>

definition digit_char :: "nat \<Rightarrow> char" where
  "digit_char d = char_of (48 + d)"

definition digit_val :: "char \<Rightarrow> nat" where
  "digit_val c = of_char c - 48"

definition is_digit :: "char \<Rightarrow> bool" where
  "is_digit c \<longleftrightarrow> 48 \<le> (of_char c :: nat) \<and> (of_char c :: nat) \<le> 57"

fun show_nat :: "nat \<Rightarrow> string" where
  "show_nat n = (if n < 10 then [digit_char n] else show_nat (n div 10) @ [digit_char (n mod 10)])"

declare show_nat.simps [simp del]

definition show_int :: "int \<Rightarrow> string" where
  "show_int i = (if i < 0 then CHR ''-'' # show_nat (nat (- i)) else show_nat (nat i))"

definition read_nat :: "string \<Rightarrow> nat" where
  "read_nat s = foldl (\<lambda>a c. 10 * a + digit_val c) 0 s"

lemma digit_char [simp]:
  "d < 10 \<Longrightarrow> is_digit (digit_char d)" "d < 10 \<Longrightarrow> digit_val (digit_char d) = d"
  by (simp_all add: is_digit_def digit_char_def digit_val_def)

lemma show_nat_digits: "c \<in> set (show_nat n) \<Longrightarrow> is_digit c"
proof (induction n rule: show_nat.induct)
  case (1 n)
  then show ?case by (subst (asm) show_nat.simps) (auto split: if_splits)
qed

lemma show_nat_nonempty [simp]: "show_nat n \<noteq> []"
  by (subst show_nat.simps) simp

lemma read_nat_append: "read_nat (s @ [c]) = 10 * read_nat s + digit_val c"
  by (simp add: read_nat_def)

lemma read_show_nat: "read_nat (show_nat n) = n"
proof (induction n rule: show_nat.induct)
  case (1 n)
  show ?case
  proof (cases "n < 10")
    case True
    then show ?thesis by (simp add: show_nat.simps [of n] read_nat_def)
  next
    case False
    with 1 show ?thesis by (simp add: show_nat.simps [of n] read_nat_append)
  qed
qed

section \<open>Ordered sets of strings\<close>

text \<open>\<open>std::set<std::string>\<close> as the sorted, duplicate-free list of its elements.\<close>

definition set_insert :: "string \<Rightarrow> string list \<Rightarrow> string list" where
  "set_insert v vs = (if v \<in> set vs then vs else insort v vs)"

definition is_set :: "string list \<Rightarrow> bool" where
  "is_set vs \<longleftrightarrow> sorted vs \<and> distinct vs"

lemma is_set_insert [simp]: "is_set vs \<Longrightarrow> is_set (set_insert v vs)"
  by (auto simp: is_set_def set_insert_def sorted_insort distinct_insort)

lemma set_set_insert [simp]: "set (set_insert v vs) = insert v (set vs)"
  by (auto simp: set_insert_def set_insort_key)

lemma is_set_empty [simp]: "is_set []"
  by (simp add: is_set_def)

lemma is_set_inj: "is_set vs \<Longrightarrow> is_set ws \<Longrightarrow> set vs = set ws \<Longrightarrow> vs = ws"
  by (simp add: is_set_def sorted_distinct_set_unique)

lemma foldl_set_insert: "is_set acc \<Longrightarrow>
  is_set (foldl (\<lambda>a v. set_insert v a) acc vs) \<and>
  set (foldl (\<lambda>a v. set_insert v a) acc vs) = set acc \<union> set vs"
  by (induction vs arbitrary: acc) auto

text \<open>Reinserting the elements of a set rebuilds it.\<close>

lemma foldl_set_insert_id: "is_set vs \<Longrightarrow> foldl (\<lambda>a v. set_insert v a) [] vs = vs"
  using foldl_set_insert [of "[]" vs] by (intro is_set_inj) auto

end
