(* ===== verification/CStrings.thy ===== *)
theory CStrings
  imports Prelude
begin

text \<open>
  The string helpers of \<open>src/common/usg_common.cpp\<close>: \<open>ltrim\<close>, \<open>rtrim\<close>, \<open>trim\<close>,
  \<open>str_join\<close>, \<open>array_join\<close>, \<open>path_join\<close>, \<open>str_split\<close> and \<open>strstr_r\<close>.

  The joining functions manage their own heap buffer: the model keeps the buffer's allocated
  size, and every \<open>strcpy\<close>/\<open>strcat\<close> that would not fit is \<open>OutOfBounds\<close>. The argument
  \<open>alloc\<close> says whether the allocator grants a request of that many bytes. Sizes are natural
  numbers: the strings of one process are far shorter than \<open>2 ^ 63\<close> bytes, so the code's
  \<open>size_t\<close> arithmetic does not wrap.
\<close>

section \<open>Definitions\<close>

subsection \<open>Trimming\<close>

text \<open>\<open>"\\t\\n\\v\\f\\r "\<close>, which is also the macro \<open>BLANK\<close> of \<open>comm_typedef.h\<close>.\<close>

definition BLANK :: string where
  "BLANK = [CHR 0x09, CHR 0x0A, CHR 0x0B, CHR 0x0C, CHR 0x0D, CHR '' '']"

definition seps_or_blank :: "string option \<Rightarrow> string" where
  "seps_or_blank seps = (case seps of None \<Rightarrow> BLANK | Some s \<Rightarrow> s)"

definition ltrim :: "string option \<Rightarrow> string option \<Rightarrow> string option" where
  "ltrim str seps =
     (case str of
        None \<Rightarrow> None
      | Some s \<Rightarrow>
          (let totrim = strspn s (seps_or_blank seps) in
           if totrim > 0
           then (if totrim = length s then Some [] else Some (drop totrim s))
           else Some s))"

text \<open>The loop of \<open>rtrim\<close>, which overwrites trailing separators with NUL in place.\<close>

fun rtrim_loop :: "string \<Rightarrow> string \<Rightarrow> nat \<Rightarrow> string" where
  "rtrim_loop seps buf 0 = buf"
| "rtrim_loop seps buf (Suc i) =
     (if strchr_found seps (buf ! i) then rtrim_loop seps (buf[i := NUL]) i else buf)"

definition rtrim :: "string option \<Rightarrow> string option \<Rightarrow> string option" where
  "rtrim str seps =
     (case str of
        None \<Rightarrow> None
      | Some s \<Rightarrow> Some (c_str (rtrim_loop (seps_or_blank seps) s (length s))))"

definition trim :: "string option \<Rightarrow> string option \<Rightarrow> string option" where
  "trim str seps = (case str of None \<Rightarrow> None | Some s \<Rightarrow> ltrim (rtrim (Some s) seps) seps)"

subsection \<open>Joining\<close>

text \<open>A heap buffer: the string it holds and the number of bytes allocated for it.\<close>

record cbuf =
  cstr :: string
  cap :: nat

definition strcat :: "cbuf \<Rightarrow> string \<Rightarrow> cbuf res" where
  "strcat b s =
     (if length (cstr b) + length s + 1 \<le> cap b then Inr (b\<lparr>cstr := cstr b @ s\<rparr>)
      else Inl OutOfBounds)"

text \<open>\<open>if (len >= size) { size = len * 2; buf = realloc(buf, size); }\<close>, with \<open>size\<close> the
  capacity: a failed \<open>realloc\<close> yields \<open>NULL\<close>, which the next \<open>strcat\<close> dereferences.\<close>

definition grow :: "(nat \<Rightarrow> bool) \<Rightarrow> nat \<Rightarrow> cbuf \<Rightarrow> cbuf res" where
  "grow alloc len b =
     (if len \<ge> cap b
      then (if alloc (len * 2) then Inr (b\<lparr>cap := len * 2\<rparr>) else Inl NullDeref)
      else Inr b)"

text \<open>\<open>malloc(size)\<close> with \<open>size = 1024\<close>, or twice the length of a longer first string.\<close>

definition first_size :: "string \<Rightarrow> nat" where
  "first_size s = (if length s \<ge> 1024 then length s * 2 else 1024)"

fun str_join_loop :: "(nat \<Rightarrow> bool) \<Rightarrow> string \<Rightarrow> cbuf \<Rightarrow> nat \<Rightarrow> string list \<Rightarrow> cbuf res" where
  "str_join_loop alloc seperator b len [] = Inr b"
| "str_join_loop alloc seperator b len (str # rest) =
     rbind (grow alloc (len + length seperator) b) (\<lambda>b1.
     rbind (strcat b1 seperator) (\<lambda>b2.
     rbind (grow alloc (len + length seperator + length str) b2) (\<lambda>b3.
     rbind (strcat b3 str) (\<lambda>b4.
     str_join_loop alloc seperator b4 (len + length seperator + length str) rest))))"

definition str_join :: "(nat \<Rightarrow> bool) \<Rightarrow> string \<Rightarrow> string option \<Rightarrow> string list \<Rightarrow> string option res" where
  "str_join alloc seperator first rest =
     (case first of
        None \<Rightarrow> Inr None
      | Some f \<Rightarrow>
          if \<not> alloc (first_size f) then Inr None
          else rbind (strcat \<lparr>cstr = [], cap = first_size f\<rparr> f) (\<lambda>b.
               rbind (str_join_loop alloc seperator b (length f) rest) (\<lambda>b'.
               Inr (Some (cstr b')))))"

fun array_join_loop :: "string \<Rightarrow> cbuf \<Rightarrow> string list \<Rightarrow> cbuf res" where
  "array_join_loop seperator b [] = Inr b"
| "array_join_loop seperator b (s # rest) =
     rbind (strcat b seperator) (\<lambda>b1.
     rbind (strcat b1 s) (\<lambda>b2.
     array_join_loop seperator b2 rest))"

text \<open>\<open>errno\<close> is what a failed \<open>malloc\<close> leaves there: \<open>err_exit\<close> ends the process with it.\<close>

definition array_join :: "(nat \<Rightarrow> bool) \<Rightarrow> int \<Rightarrow> string list \<Rightarrow> string \<Rightarrow> string option res" where
  "array_join alloc errno arr seperator =
     (let size = sum_list (map length arr); arr_len = length arr in
      if arr_len = 0 \<or> size = 0 then Inr None
      else (let n = size + length seperator * (arr_len - 1) + 1 in
        if \<not> alloc n then Inl (Exit errno)
        else rbind (strcat \<lparr>cstr = [], cap = n\<rparr> (hd arr)) (\<lambda>b.
             rbind (array_join_loop seperator b (tl arr)) (\<lambda>b'. Inr (Some (cstr b'))))))"

definition PATH_SEPERATOR :: string where
  "PATH_SEPERATOR = ''/''"

text \<open>
  One turn of the loop of \<open>path_join\<close>. With \<open>len = 0\<close> the comparison
  \<open>strcmp(buf + len - 1, "/")\<close> reads the byte before the buffer.
\<close>

definition path_join_step :: "(nat \<Rightarrow> bool) \<Rightarrow> cbuf \<Rightarrow> string \<Rightarrow> cbuf res" where
  "path_join_step alloc b str =
     (if cstr b = [] then Inl OutOfBounds
      else
        (let b0 = (if last (cstr b) = CHR ''/'' then b\<lparr>cstr := butlast (cstr b)\<rparr> else b);
             str' = drop (strspn str PATH_SEPERATOR) str;
             len = length (cstr b0) in
         rbind (grow alloc (len + 1) b0) (\<lambda>b1.
         rbind (strcat b1 PATH_SEPERATOR) (\<lambda>b2.
         rbind (grow alloc (len + 1 + length str') b2) (\<lambda>b3.
         strcat b3 str')))))"

fun path_join_loop :: "(nat \<Rightarrow> bool) \<Rightarrow> cbuf \<Rightarrow> string list \<Rightarrow> cbuf res" where
  "path_join_loop alloc b [] = Inr b"
| "path_join_loop alloc b (s # rest) =
     rbind (path_join_step alloc b s) (\<lambda>b'. path_join_loop alloc b' rest)"

definition path_join :: "(nat \<Rightarrow> bool) \<Rightarrow> string option \<Rightarrow> string list \<Rightarrow> string option res" where
  "path_join alloc path rest =
     (case path of
        None \<Rightarrow> Inr None
      | Some p \<Rightarrow>
          if \<not> alloc (first_size p) then Inr None
          else rbind (strcat \<lparr>cstr = [], cap = first_size p\<rparr> p) (\<lambda>b.
               rbind (path_join_loop alloc b rest) (\<lambda>b'. Inr (Some (cstr b')))))"

subsection \<open>Splitting\<close>

text \<open>
  The loop of \<open>str_split\<close> over the remaining input: \<open>arr\<close> holds the tokens stored so far and
  \<open>len\<close> is the number of slots allocated. A failed \<open>realloc\<close> jumps to \<open>LABEL_ERROR\<close>,
  modelled as \<open>None\<close>. The final \<open>NULL\<close> takes one more slot.
\<close>

function str_split_loop ::
  "(nat \<Rightarrow> bool) \<Rightarrow> string \<Rightarrow> string \<Rightarrow> nat \<Rightarrow> string list \<Rightarrow> (nat \<times> string list) option res" where
  "str_split_loop alloc delim s len arr =
     (case strtok_next delim s of
        None \<Rightarrow> Inr (Some (len, arr))
      | Some (token, rest) \<Rightarrow>
          (let i = length arr; len' = (if i \<ge> len then len * 2 else len) in
           if i \<ge> len \<and> \<not> alloc (len' * 8) then Inr None
           else if i < len' then str_split_loop alloc delim rest len' (arr @ [token])
           else Inl OutOfBounds))"
  by pat_completeness auto

termination str_split_loop
  by (relation "measure (\<lambda>(a, d, s, l, arr). length s)") (auto dest: strtok_next_shorter)

text \<open>The result is the return value and what \<open>*arr_addr\<close> is set to (\<open>None\<close>: left alone).\<close>

definition str_split :: "(nat \<Rightarrow> bool) \<Rightarrow> string option \<Rightarrow> string \<Rightarrow> (nat \<times> string list option) res" where
  "str_split alloc str delim =
     (case str of
        None \<Rightarrow> Inr (0, None)
      | Some s \<Rightarrow>
          if \<not> alloc (64 * 8) then Inr (0, None)
          else rbind (str_split_loop alloc delim s 64 []) (\<lambda>r.
            case r of
              None \<Rightarrow> Inr (0, None)
            | Some (len, arr) \<Rightarrow>
                (let i = length arr; len' = (if i \<ge> len then len + 1 else len) in
                 if i \<ge> len \<and> \<not> alloc (len' * 8) then Inr (0, None)
                 else if i < len' then Inr (i, Some arr)
                 else Inl OutOfBounds)))"

subsection \<open>Searching backwards\<close>

fun strstr_r_loop :: "string \<Rightarrow> string \<Rightarrow> nat \<Rightarrow> nat option" where
  "strstr_r_loop str needle e =
     (if take (length needle) (drop e str) = needle then Some e
      else (case e of 0 \<Rightarrow> None | Suc e' \<Rightarrow> strstr_r_loop str needle e'))"

text \<open>
  \<open>strlen(needle)\<close> runs before the test for \<open>NULL\<close>; the result is the offset of the match.
\<close>

definition strstr_r :: "string option \<Rightarrow> string option \<Rightarrow> nat option res" where
  "strstr_r str needle =
     (case needle of
        None \<Rightarrow> Inl NullDeref
      | Some nd \<Rightarrow>
          (case str of
             None \<Rightarrow> Inr None
           | Some s \<Rightarrow>
               if length nd \<le> length s then Inr (strstr_r_loop s nd (length s - length nd))
               else Inr None))"

section \<open>Trimming is stripping at both ends\<close>

abbreviation strip_left :: "string \<Rightarrow> string \<Rightarrow> string" where
  "strip_left seps s \<equiv> dropWhile (\<lambda>c. c \<in> set seps) s"

abbreviation strip_right :: "string \<Rightarrow> string \<Rightarrow> string" where
  "strip_right seps s \<equiv> rev (dropWhile (\<lambda>c. c \<in> set seps) (rev s))"

lemma ltrim_eq: "ltrim (Some s) seps = Some (strip_left (seps_or_blank seps) s)"
proof (cases "strspn s (seps_or_blank seps) = 0")
  case True
  then show ?thesis by (simp add: ltrim_def strspn_eq_0)
next
  case False
  then show ?thesis
    by (auto simp: ltrim_def Let_def drop_strspn simp flip: drop_strspn)
qed

text \<open>The invariant of the loop: everything from position \<open>i\<close> on has been overwritten.\<close>

lemma rtrim_loop_c_str:
  assumes "i \<le> length buf" and "is_cstr (take i buf)" and "\<forall>c \<in> set (drop i buf). c = NUL"
  shows "c_str (rtrim_loop seps buf i) = strip_right seps (take i buf)"
  using assms
proof (induction i arbitrary: buf)
  case 0
  then show ?case by (cases buf) (auto simp: c_str_def)
next
  case (Suc i)
  from Suc.prems have len: "i < length buf" by simp
  then have take_Suc: "take (Suc i) buf = take i buf @ [buf ! i]"
    by (simp add: take_Suc_conv_app_nth)
  with Suc.prems(2) have cs: "is_cstr (take i buf)" and nz: "buf ! i \<noteq> NUL"
    by (auto simp: is_cstr_def)
  show ?case
  proof (cases "buf ! i \<in> set seps")
    case True
    have "\<forall>c \<in> set (drop i (buf[i := NUL])). c = NUL"
      using Suc.prems(3) len by (simp add: Cons_nth_drop_Suc [symmetric])
    with Suc.IH [of "buf[i := NUL]"] len cs True show ?thesis
      by (simp add: take_Suc strchr_found_def)
  next
    case False
    with nz have "rtrim_loop seps buf (Suc i) = buf" by (simp add: strchr_found_def)
    moreover have "c_str buf = take (Suc i) buf"
    proof -
      have "buf = take (Suc i) buf @ drop (Suc i) buf" by simp
      also have "c_str \<dots> = take (Suc i) buf"
        using Suc.prems(2,3) by (cases "drop (Suc i) buf") (auto simp: c_str_append_NUL)
      finally show ?thesis .
    qed
    ultimately show ?thesis using False by (simp add: take_Suc)
  qed
qed

lemma rtrim_eq:
  "is_cstr s \<Longrightarrow> rtrim (Some s) seps = Some (strip_right (seps_or_blank seps) s)"
  using rtrim_loop_c_str [of "length s" s] by (simp add: rtrim_def)

text \<open>The in-place \<open>trim\<close> of \<open>usg_common.cpp\<close> returns exactly the string with
  every leading and trailing separator removed and nothing else changed.\<close>

theorem trim_strips_both_ends:
  assumes "is_cstr s"
  shows "trim (Some s) seps =
    Some (strip_left (seps_or_blank seps) (strip_right (seps_or_blank seps) s))"
  by (simp add: trim_def rtrim_eq [OF assms] ltrim_eq)

theorem trim_strips_both_ends_witness:
  "is_cstr ''  log level '' \<and> trim (Some ''  log level '') None = Some ''log level''"
proof -
  have h: "is_cstr ''  log level ''" by (simp add: is_cstr_def)
  show ?thesis
    using h trim_strips_both_ends [OF h, of None] by (simp add: seps_or_blank_def BLANK_def)
qed

section \<open>Joining never leaves the buffer\<close>

definition join :: "string \<Rightarrow> string list \<Rightarrow> string" where
  "join sep xs = (case xs of [] \<Rightarrow> [] | x # rest \<Rightarrow> x @ concat (map (\<lambda>y. sep @ y) rest))"

text \<open>The buffer invariant of the growing joins: room for the string and its NUL.\<close>

definition fits :: "cbuf \<Rightarrow> bool" where
  "fits b \<longleftrightarrow> length (cstr b) < cap b"

definition oom :: "(nat \<Rightarrow> bool) \<Rightarrow> bool" where
  "oom alloc \<longleftrightarrow> (\<exists>k. \<not> alloc k)"

text \<open>A joining computation that yields the string \<open>x\<close> in a large enough buffer, or stops on
  the \<open>NULL\<close> of a failed \<open>realloc\<close>.\<close>

definition holds_or_oom :: "(nat \<Rightarrow> bool) \<Rightarrow> cbuf res \<Rightarrow> string \<Rightarrow> bool" where
  "holds_or_oom alloc r x \<longleftrightarrow>
     (r = Inl NullDeref \<and> oom alloc) \<or> (\<exists>b. r = Inr b \<and> cstr b = x \<and> fits b)"

lemma strcat_fits:
  "length (cstr b) + length s < cap b \<Longrightarrow> strcat b s = Inr (b\<lparr>cstr := cstr b @ s\<rparr>)"
  by (simp add: strcat_def)

lemma strcpy_ok: "length s < n \<Longrightarrow> strcat \<lparr>cstr = [], cap = n\<rparr> s = Inr \<lparr>cstr = s, cap = n\<rparr>"
  by (simp add: strcat_def)

lemma first_size_gt: "length s < first_size s"
  by (auto simp: first_size_def)

lemma fits_first: "fits \<lparr>cstr = s, cap = first_size s\<rparr>"
  by (simp add: fits_def first_size_gt)

lemma grow_strcat:
  assumes "fits b" and "n = length (cstr b) + length s"
  shows "holds_or_oom alloc (rbind (grow alloc n b) (\<lambda>b'. strcat b' s)) (cstr b @ s)"
proof (cases "n \<ge> cap b")
  case True
  with assms show ?thesis
    by (cases "alloc (n * 2)") (auto simp: holds_or_oom_def grow_def strcat_def fits_def oom_def)
next
  case False
  with assms show ?thesis
    by (auto simp: holds_or_oom_def grow_def strcat_def fits_def)
qed

lemma holds_or_oom_bind:
  assumes "holds_or_oom alloc r x"
    and "\<And>b. cstr b = x \<Longrightarrow> fits b \<Longrightarrow> holds_or_oom alloc (f b) y"
  shows "holds_or_oom alloc (rbind r f) y"
proof (cases r)
  case (Inl e)
  with assms(1) show ?thesis by (simp add: holds_or_oom_def)
next
  case (Inr b)
  with assms(1) have "cstr b = x" and "fits b" by (simp_all add: holds_or_oom_def)
  from assms(2) [OF this] Inr show ?thesis by simp
qed

lemma holds_or_oom_result:
  assumes "holds_or_oom alloc r x"
  shows "rbind r (\<lambda>b. Inr (Some (cstr b))) = Inr (Some x) \<or>
    oom alloc \<and> rbind r (\<lambda>b. Inr (Some (cstr b))) = Inl NullDeref"
  using assms by (auto simp: holds_or_oom_def)

lemma rbind_assoc: "rbind (rbind m f) g = rbind m (\<lambda>x. rbind (f x) g)"
  by (cases m) auto

lemma str_join_loop_ok:
  assumes "fits b" and "len = length (cstr b)"
  shows "holds_or_oom alloc (str_join_loop alloc sep b len rest)
    (cstr b @ concat (map (\<lambda>y. sep @ y) rest))"
  using assms
proof (induction rest arbitrary: b len)
  case Nil
  then show ?case by (auto simp: holds_or_oom_def)
next
  case (Cons s rest)
  have "str_join_loop alloc sep b len (s # rest) =
    rbind (rbind (grow alloc (len + length sep) b) (\<lambda>b'. strcat b' sep)) (\<lambda>b2.
    rbind (rbind (grow alloc (len + length sep + length s) b2) (\<lambda>b'. strcat b' s)) (\<lambda>b4.
    str_join_loop alloc sep b4 (len + length sep + length s) rest))"
    by (simp add: rbind_assoc)
  also have "holds_or_oom alloc \<dots> (cstr b @ concat (map (\<lambda>y. sep @ y) (s # rest)))"
  proof (rule holds_or_oom_bind [OF grow_strcat [OF Cons.prems(1)]])
    show "len + length sep = length (cstr b) + length sep" using Cons.prems(2) by simp
    fix b2 :: cbuf
    assume b2: "cstr b2 = cstr b @ sep" "fits b2"
    show "holds_or_oom alloc (rbind (rbind (grow alloc (len + length sep + length s) b2)
        (\<lambda>b'. strcat b' s)) (\<lambda>b4. str_join_loop alloc sep b4 (len + length sep + length s) rest))
      (cstr b @ concat (map (\<lambda>y. sep @ y) (s # rest)))"
    proof (rule holds_or_oom_bind [OF grow_strcat [OF b2(2)]])
      show "len + length sep + length s = length (cstr b2) + length s"
        using Cons.prems(2) b2 by simp
      fix b4 :: cbuf
      assume "cstr b4 = cstr b2 @ s" "fits b4"
      with Cons.IH [of b4 "len + length sep + length s"] Cons.prems(2) b2
      show "holds_or_oom alloc (str_join_loop alloc sep b4 (len + length sep + length s) rest)
        (cstr b @ concat (map (\<lambda>y. sep @ y) (s # rest)))" by simp
    qed
  qed
  finally show ?case .
qed

text \<open>C40 (bounds): \<open>str_join\<close> never writes outside the buffer it grows: whatever the strings, it
  returns their concatenation with the separator in between, or it stops because the allocator
  refused a request.\<close>

theorem str_join_correct:
  "str_join alloc sep (Some f) rest = Inr (Some (join sep (f # rest))) \<or>
   oom alloc \<and> str_join alloc sep (Some f) rest \<in> {Inr None, Inl NullDeref}"
proof (cases "alloc (first_size f)")
  case True
  from str_join_loop_ok [OF fits_first, of "length f" f alloc sep rest]
  have "holds_or_oom alloc
    (str_join_loop alloc sep \<lparr>cstr = f, cap = first_size f\<rparr> (length f) rest) (join sep (f # rest))"
    by (simp add: join_def)
  from holds_or_oom_result [OF this] True show ?thesis
    by (auto simp: str_join_def strcpy_ok [OF first_size_gt])
next
  case False
  then show ?thesis by (auto simp: str_join_def oom_def)
qed

text \<open>The buffer of \<open>array_join\<close> is allocated once, with exactly the room the loop needs.\<close>

lemma array_join_loop_ok:
  assumes "length (cstr b) + sum_list (map length rest) + length sep * length rest < cap b"
  shows "array_join_loop sep b rest = Inr (b\<lparr>cstr := cstr b @ concat (map (\<lambda>y. sep @ y) rest)\<rparr>)"
  using assms
proof (induction rest arbitrary: b)
  case Nil
  then show ?case by simp
next
  case (Cons s rest)
  let ?b = "b\<lparr>cstr := cstr b @ sep @ s\<rparr>"
  have "array_join_loop sep b (s # rest) = array_join_loop sep ?b rest"
    using Cons.prems by (simp add: strcat_fits)
  also have "\<dots> = Inr (?b\<lparr>cstr := cstr ?b @ concat (map (\<lambda>y. sep @ y) rest)\<rparr>)"
    using Cons.prems by (intro Cons.IH) simp
  finally show ?case by simp
qed

lemma length_join:
  "arr \<noteq> [] \<Longrightarrow>
   length (join sep arr) = sum_list (map length arr) + length sep * (length arr - 1)"
proof (cases arr)
  case (Cons a rest)
  have "length (concat (map (\<lambda>y. sep @ y) rest)) = sum_list (map length rest) + length sep * length rest"
    by (induction rest) auto
  with Cons show ?thesis by (simp add: join_def)
qed simp

lemma array_join_ok:
  assumes "concat arr \<noteq> []"
  shows "array_join alloc errno arr sep =
    (if alloc (length (join sep arr) + 1) then Inr (Some (join sep arr)) else Inl (Exit errno))"
proof -
  from assms obtain a rest where arr: "arr = a # rest" by (cases arr) auto
  let ?n = "length (join sep arr) + 1"
  from assms have pos: "sum_list (map length arr) \<noteq> 0"
    by (simp only: length_concat [symmetric] length_0_conv not_False_eq_True)
  have n: "sum_list (map length arr) + length sep * (length arr - 1) + 1 = ?n"
    using arr by (simp add: length_join)
  have "length a < ?n" using arr by (simp add: join_def)
  note cpy = strcpy_ok [OF this]
  have "length a + sum_list (map length rest) + length sep * length rest < ?n"
    using n arr by simp
  then have "array_join_loop sep \<lparr>cstr = a, cap = ?n\<rparr> rest = Inr \<lparr>cstr = join sep arr, cap = ?n\<rparr>"
    using arr by (subst array_join_loop_ok) (auto simp: join_def)
  with cpy pos show ?thesis
    unfolding array_join_def Let_def n by (simp add: arr)
qed

section \<open>Paths\<close>

text \<open>What one step of \<open>path_join\<close> is meant to do: one separator between the two parts.\<close>

definition path_cat :: "string \<Rightarrow> string \<Rightarrow> string" where
  "path_cat p s =
     (if last p = CHR ''/'' then butlast p else p) @ ''/'' @ dropWhile (\<lambda>c. c = CHR ''/'') s"

lemma path_cat_nonempty [simp]: "path_cat p s \<noteq> []"
  by (simp add: path_cat_def)

lemma path_join_step_ok:
  assumes "fits b" and "cstr b \<noteq> []"
  shows "holds_or_oom alloc (path_join_step alloc b s) (path_cat (cstr b) s)"
proof -
  define b0 where "b0 = (if last (cstr b) = CHR ''/'' then b\<lparr>cstr := butlast (cstr b)\<rparr> else b)"
  define str' where "str' = drop (strspn s PATH_SEPERATOR) s"
  have fits0: "fits b0" using assms(1) by (auto simp: b0_def fits_def)
  have cat: "path_cat (cstr b) s = (cstr b0 @ PATH_SEPERATOR) @ str'"
    by (simp add: path_cat_def b0_def str'_def drop_strspn PATH_SEPERATOR_def)
  have "path_join_step alloc b s =
    rbind (rbind (grow alloc (length (cstr b0) + 1) b0) (\<lambda>b'. strcat b' PATH_SEPERATOR)) (\<lambda>b2.
    rbind (grow alloc (length (cstr b0) + 1 + length str') b2) (\<lambda>b'. strcat b' str'))"
    using assms(2) unfolding path_join_step_def b0_def [symmetric] str'_def [symmetric] Let_def
    by (simp add: rbind_assoc)
  also have "holds_or_oom alloc \<dots> (path_cat (cstr b) s)"
    unfolding cat
  proof (rule holds_or_oom_bind [OF grow_strcat [OF fits0]])
    show "length (cstr b0) + 1 = length (cstr b0) + length PATH_SEPERATOR"
      by (simp add: PATH_SEPERATOR_def)
    fix b2 :: cbuf
    assume b2: "cstr b2 = cstr b0 @ PATH_SEPERATOR" "fits b2"
    then show "holds_or_oom alloc (rbind (grow alloc (length (cstr b0) + 1 + length str') b2)
        (\<lambda>b'. strcat b' str')) ((cstr b0 @ PATH_SEPERATOR) @ str')"
      using grow_strcat [OF b2(2), of "length (cstr b0) + 1 + length str'" str' alloc]
      by (simp add: PATH_SEPERATOR_def)
  qed
  finally show ?thesis .
qed

lemma path_join_loop_ok:
  assumes "fits b" and "cstr b \<noteq> []"
  shows "holds_or_oom alloc (path_join_loop alloc b rest) (foldl path_cat (cstr b) rest)"
  using assms
proof (induction rest arbitrary: b)
  case Nil
  then show ?case by (auto simp: holds_or_oom_def)
next
  case (Cons s rest)
  show ?case
    unfolding path_join_loop.simps foldl.simps
  proof (rule holds_or_oom_bind [OF path_join_step_ok [OF Cons.prems]])
    fix b' :: cbuf
    assume "cstr b' = path_cat (cstr b) s" "fits b'"
    with Cons.IH [of b'] show
      "holds_or_oom alloc (path_join_loop alloc b' rest) (foldl path_cat (path_cat (cstr b) s) rest)"
      by simp
  qed
qed

lemma path_join_result:
  assumes "p \<noteq> []"
  shows "path_join alloc (Some p) rest = Inr (Some (foldl path_cat p rest)) \<or>
    oom alloc \<and> path_join alloc (Some p) rest \<in> {Inr None, Inl NullDeref}"
proof (cases "alloc (first_size p)")
  case True
  from path_join_loop_ok [OF fits_first, of p alloc rest] assms
  have "holds_or_oom alloc (path_join_loop alloc \<lparr>cstr = p, cap = first_size p\<rparr> rest)
    (foldl path_cat p rest)" by simp
  from holds_or_oom_result [OF this] True show ?thesis
    by (auto simp: path_join_def strcpy_ok [OF first_size_gt])
next
  case False
  then show ?thesis by (auto simp: path_join_def oom_def)
qed

text \<open>for a non-empty first path \<open>path_join\<close> stays inside its buffer and glues the
  parts with exactly one separator each, unless the allocator refuses a request.\<close>

theorem path_join_correct:
  assumes "p \<noteq> []"
  shows "path_join alloc (Some p) rest = Inr (Some (foldl path_cat p rest)) \<or>
    oom alloc \<and> path_join alloc (Some p) rest \<in> {Inr None, Inl NullDeref}"
  by (rule path_join_result [OF assms])

text \<open>With an empty first path and something to append, the test for a trailing
  separator reads the byte before the buffer.\<close>

theorem path_join_empty_reads_before_buffer:
  "alloc 1024 \<Longrightarrow> path_join alloc (Some []) (s # rest) = Inl OutOfBounds"
  by (simp add: path_join_def strcat_def first_size_def path_join_step_def)

theorem path_join_empty_reads_before_buffer_witness:
  "(\<lambda>_. True) (1024::nat) \<and> path_join (\<lambda>_. True) (Some []) [''app''] = Inl OutOfBounds"
  using path_join_empty_reads_before_buffer [of "\<lambda>_. True" "''app''" "[]"] by simp

section \<open>Splitting\<close>

lemma str_split_loop_ok:
  assumes "0 < len" and "length arr \<le> len" and "\<forall>k. alloc k"
  shows "\<exists>len'. str_split_loop alloc delim s len arr = Inr (Some (len', arr @ strtok_all delim s))
    \<and> length (arr @ strtok_all delim s) \<le> len'"
  using assms
proof (induction alloc delim s len arr rule: str_split_loop.induct)
  case (1 alloc delim s len arr)
  show ?case
  proof (cases "strtok_next delim s")
    case None
    with "1.prems" show ?thesis
      by (simp add: str_split_loop.simps [of alloc delim s] strtok_all.simps [of delim s])
  next
    case (Some p)
    then obtain tok rest where tr: "strtok_next delim s = Some (tok, rest)" by (cases p) auto
    define len' where "len' = (if length arr \<ge> len then len * 2 else len)"
    have room: "length arr < len'" "0 < len'" using "1.prems"(1,2) by (auto simp: len'_def)
    have "str_split_loop alloc delim s len arr = str_split_loop alloc delim rest len' (arr @ [tok])"
      using tr room "1.prems"(3)
      by (subst str_split_loop.simps) (auto simp: Let_def len'_def)
    moreover have "strtok_all delim s = tok # strtok_all delim rest"
      using tr by (simp add: strtok_all.simps [of delim s])
    moreover have "\<exists>l. str_split_loop alloc delim rest len' (arr @ [tok])
        = Inr (Some (l, (arr @ [tok]) @ strtok_all delim rest))
      \<and> length ((arr @ [tok]) @ strtok_all delim rest) \<le> l"
    proof (rule "1.IH" [OF tr refl refl len'_def])
      show "\<not> (length arr \<ge> len \<and> \<not> alloc (len' * 8))" using "1.prems"(3) by simp
    qed (use room "1.prems"(3) in auto)
    ultimately show ?thesis by simp
  qed
qed

lemma str_split_ok:
  assumes "\<forall>k. alloc k"
  shows "str_split alloc (Some s) delim = Inr (length (strtok_all delim s), Some (strtok_all delim s))"
proof -
  from str_split_loop_ok [of 64 "[]" alloc delim s] assms
  obtain len' where "str_split_loop alloc delim s 64 [] = Inr (Some (len', strtok_all delim s))"
    and "length (strtok_all delim s) \<le> len'" by auto
  with assms show ?thesis by (auto simp: str_split_def Let_def)
qed

text \<open>
  \<open>hoststack run\<close> stores the command line as \<open>array_join(argv, " ")\<close> and \<open>hoststack start\<close>
  rebuilds the argument vector with \<open>str_split(command, BLANK)\<close>.
\<close>

definition plain_arg :: "string \<Rightarrow> bool" where
  "plain_arg a \<longleftrightarrow> a \<noteq> [] \<and> set a \<inter> set BLANK = {}"

lemma takeWhile_dropWhile_plain:
  assumes "set x \<inter> set delim = {}"
  shows "takeWhile (\<lambda>c. c \<notin> set delim) (x @ ys) = x @ takeWhile (\<lambda>c. c \<notin> set delim) ys"
    and "dropWhile (\<lambda>c. c \<notin> set delim) (x @ ys) = dropWhile (\<lambda>c. c \<notin> set delim) ys"
  using assms by (induction x) auto

lemma strtok_next_word:
  assumes "x \<noteq> []" and "set x \<inter> set delim = {}" and "ys = [] \<or> (\<exists>c \<in> set delim. ys = c # rest)"
  shows "strtok_next delim (x @ ys) = Some (x, tl ys)"
proof -
  have "hd x \<notin> set delim" using assms(1,2) by (cases x) auto
  then have drop: "dropWhile (\<lambda>c. c \<in> set delim) (x @ ys) = x @ ys"
    using assms(1) by (cases x) auto
  from assms(3) have "takeWhile (\<lambda>c. c \<notin> set delim) ys = []"
    and "dropWhile (\<lambda>c. c \<notin> set delim) ys = ys" by auto
  with drop assms(1) takeWhile_dropWhile_plain [OF assms(2), of ys] show ?thesis
    by (simp add: strtok_next_def Let_def)
qed

lemma strtok_all_join:
  assumes "\<forall>a \<in> set argv. plain_arg a"
  shows "strtok_all BLANK (join '' '' argv) = argv"
  using assms
proof (induction argv)
  case Nil
  then show ?case by (simp add: join_def strtok_all.simps strtok_next_def)
next
  case (Cons a argv)
  from Cons.prems have a: "a \<noteq> []" "set a \<inter> set BLANK = {}" by (auto simp: plain_arg_def)
  define ys where "ys = (if argv = [] then [] else '' '' @ join '' '' argv)"
  have j: "join '' '' (a # argv) = a @ ys"
    by (cases argv) (auto simp: join_def ys_def)
  have "strtok_next BLANK (a @ ys) = Some (a, tl ys)"
    by (rule strtok_next_word [OF a, where rest = "join '' '' argv"]) (simp add: ys_def BLANK_def)
  moreover have "strtok_all BLANK (tl ys) = argv"
    using Cons by (cases "argv = []") (auto simp: ys_def join_def)
  ultimately show ?case by (simp add: j strtok_all.simps [of BLANK "a @ ys"])
qed

text \<open>C14 (roundtrip): the argument vector a stopped container is started with again is the one it
  was first run with exactly when no argument is empty or contains a blank character.\<close>

theorem command_line_roundtrip:
  assumes "\<forall>k. alloc k" and "array_join alloc errno argv '' '' = Inr (Some cmd)"
  shows "str_split alloc (Some cmd) BLANK = Inr (length argv, Some argv)
    \<longleftrightarrow> (\<forall>a \<in> set argv. plain_arg a)"
proof -
  have "concat argv \<noteq> []"
  proof
    assume "concat argv = []"
    then have "sum_list (map length argv) = 0" by (simp only: length_concat [symmetric] list.size)
    with assms(2) show False by (simp add: array_join_def)
  qed
  from array_join_ok [OF this, of alloc errno "'' ''"] assms have cmd: "cmd = join '' '' argv"
    by simp
  show ?thesis
    unfolding str_split_ok [OF assms(1)] cmd
  proof
    assume "Inr (length (strtok_all BLANK (join '' '' argv)), Some (strtok_all BLANK (join '' '' argv)))
      = Inr (length argv, Some argv)"
    then have toks: "strtok_all BLANK (join '' '' argv) = argv" by simp
    show "\<forall>a \<in> set argv. plain_arg a"
      using strtok_all_tokens [of _ BLANK "join '' '' argv"] unfolding toks plain_arg_def by blast
  next
    assume "\<forall>a \<in> set argv. plain_arg a"
    then show "Inr (length (strtok_all BLANK (join '' '' argv)), Some (strtok_all BLANK (join '' '' argv)))
      = Inr (length argv, Some argv)"
      by (simp add: strtok_all_join)
  qed
qed

theorem command_line_roundtrip_witness:
  "array_join (\<lambda>_. True) 0 [''/bin/bash'', ''-l''] '' '' = Inr (Some ''/bin/bash -l'') \<and>
   str_split (\<lambda>_. True) (Some ''/bin/bash -l'') BLANK = Inr (2, Some [''/bin/bash'', ''-l'']) \<and>
   array_join (\<lambda>_. True) 0 [''sh'', ''echo hi''] '' '' = Inr (Some ''sh echo hi'') \<and>
   str_split (\<lambda>_. True) (Some ''sh echo hi'') BLANK \<noteq> Inr (2, Some [''sh'', ''echo hi''])"
proof -
  have 1: "array_join (\<lambda>_. True) 0 [''/bin/bash'', ''-l''] '' '' = Inr (Some ''/bin/bash -l'')"
    by (simp add: array_join_def Let_def strcat_def)
  have 2: "array_join (\<lambda>_. True) 0 [''sh'', ''echo hi''] '' '' = Inr (Some ''sh echo hi'')"
    by (simp add: array_join_def Let_def strcat_def)
  show ?thesis
    using 1 2 command_line_roundtrip [OF _ 1] command_line_roundtrip [OF _ 2]
    by (simp add: plain_arg_def BLANK_def numeral_2_eq_2)
qed

section \<open>The last occurrence\<close>

definition occurs_at :: "string \<Rightarrow> string \<Rightarrow> nat \<Rightarrow> bool" where
  "occurs_at s needle i \<longleftrightarrow> i + length needle \<le> length s \<and> take (length needle) (drop i s) = needle"

declare strstr_r_loop.simps [simp del]

lemma strstr_r_loop_spec:
  "(case strstr_r_loop s needle e of
      Some i \<Rightarrow> i \<le> e \<and> take (length needle) (drop i s) = needle \<and>
        (\<forall>j. i < j \<and> j \<le> e \<longrightarrow> take (length needle) (drop j s) \<noteq> needle)
    | None \<Rightarrow> \<forall>j \<le> e. take (length needle) (drop j s) \<noteq> needle)"
proof (induction e)
  case 0
  then show ?case by (auto simp: strstr_r_loop.simps [of s needle 0])
next
  case (Suc e)
  then show ?case
    by (auto simp: strstr_r_loop.simps [of s needle "Suc e"] le_Suc_eq split: option.splits)
qed

text \<open>\<open>strstr_r\<close> returns the last occurrence of the needle, and \<open>NULL\<close> exactly
  when there is none.\<close>

theorem strstr_r_last_occurrence:
  "\<exists>r. strstr_r (Some s) (Some needle) = Inr r \<and>
     (case r of
        Some i \<Rightarrow> occurs_at s needle i \<and> (\<forall>j. occurs_at s needle j \<longrightarrow> j \<le> i)
      | None \<Rightarrow> \<forall>j. \<not> occurs_at s needle j)"
proof (cases "length needle \<le> length s")
  case True
  have bound: "occurs_at s needle j \<longleftrightarrow>
      j \<le> length s - length needle \<and> take (length needle) (drop j s) = needle" for j
    using True by (auto simp: occurs_at_def)
  show ?thesis
    using True strstr_r_loop_spec [where s = s and needle = needle and e = "length s - length needle"]
    by (auto simp: strstr_r_def bound not_le split: option.splits)
next
  case False
  then show ?thesis by (simp add: strstr_r_def occurs_at_def)
qed

theorem strstr_r_last_occurrence_witness:
  "occurs_at ''/data/hoststack'' ''/'' 5 \<and>
   (\<exists>r. strstr_r (Some ''/data/hoststack'') (Some ''/'') = Inr r \<and>
     (case r of Some i \<Rightarrow> occurs_at ''/data/hoststack'' ''/'' i \<and>
         (\<forall>j. occurs_at ''/data/hoststack'' ''/'' j \<longrightarrow> j \<le> i)
      | None \<Rightarrow> \<forall>j. \<not> occurs_at ''/data/hoststack'' ''/'' j))"
  using strstr_r_last_occurrence [of "''/data/hoststack''" "''/''"] by (simp add: occurs_at_def)

end
