(* ===== verification/ContainerInfo.thy ===== *)
theory ContainerInfo
  imports Prelude
begin

text \<open>
  \<open>src/util/container_info.h\<close> and \<open>container_info.cpp\<close>: the description of one container and
  the line that \<open>hoststack ps\<close> prints for it.
\<close>

text \<open>
  The enumeration, with a constructor for the integers a cast \<open>(container_status_t)n\<close> can
  bring in from the data file besides 0 and 1: \<open>getStatusName\<close> has a branch for them.
\<close>

datatype container_status_t =
    CONTAINER_RUNNING
  | CONTAINER_STOPED
  | OTHER_STATUS int

definition status_of_int :: "int \<Rightarrow> container_status_t" where
  "status_of_int n =
     (if n = 0 then CONTAINER_RUNNING else if n = 1 then CONTAINER_STOPED else OTHER_STATUS n)"

fun int_of_status :: "container_status_t \<Rightarrow> int" where
  "int_of_status CONTAINER_RUNNING = 0"
| "int_of_status CONTAINER_STOPED = 1"
| "int_of_status (OTHER_STATUS n) = n"

record container_info =
  pid :: int
  cid :: string
  cname :: string
  command :: string
  create_time :: int
  start_time :: int
  stop_time :: int
  status :: container_status_t
  abnormal_stoped :: int
  volume_list :: "string list"

text \<open>\<open>ContainerInfo info = {}\<close>: every field zero or empty.\<close>

definition empty_info :: container_info where
  "empty_info = \<lparr>pid = 0, cid = [], cname = [], command = [], create_time = 0, start_time = 0,
     stop_time = 0, status = CONTAINER_RUNNING, abnormal_stoped = 0, volume_list = []\<rparr>"

definition getStatusName :: "container_info \<Rightarrow> string" where
  "getStatusName c =
     (case status c of
        CONTAINER_RUNNING \<Rightarrow> ''running''
      | CONTAINER_STOPED \<Rightarrow> ''stoped''
      | OTHER_STATUS _ \<Rightarrow> ''---'')"

definition getName :: "container_info \<Rightarrow> string" where
  "getName c = (if cname c = [] then cid c else cname c)"

text \<open>The conversion \<open>%-ns\<close>: left justified in a field of at least \<open>n\<close> characters.\<close>

definition pad :: "nat \<Rightarrow> string \<Rightarrow> string" where
  "pad n s = s @ replicate (n - length s) (CHR '' '')"

text \<open>\<open>fmt\<close> is \<open>formatTime\<close>: \<open>strftime\<close> on the local time, which depends on the time zone.\<close>

definition show_info :: "(int \<Rightarrow> string) \<Rightarrow> container_info \<Rightarrow> string" where
  "show_info fmt c =
     pad 40 (cid c) @ '' '' @ pad 20 (if cname c = [] then cid c else cname c) @ '' '' @
     pad 10 (show_int (pid c)) @ '' '' @ pad 10 (getStatusName c) @ '' '' @
     pad 30 (command c) @ '' '' @ pad 20 (fmt (create_time c)) @ [CHR 0x0A]"

definition showTitle :: string where
  "showTitle =
     pad 40 ''ID'' @ '' '' @ pad 20 ''NAME'' @ '' '' @ pad 10 ''PID'' @ '' '' @
     pad 10 ''STATUS'' @ '' '' @ pad 30 ''COMMAND'' @ '' '' @ pad 20 ''CREATED TIME'' @ '' '' @ [CHR 0x0A]"

lemma status_of_int_of_status [simp]:
  "status_of_int (int_of_status s) = s \<longleftrightarrow> s \<noteq> OTHER_STATUS 0 \<and> s \<noteq> OTHER_STATUS 1"
  by (cases s) (auto simp: status_of_int_def)

lemma status_of_int_running [simp]: "status_of_int n = CONTAINER_RUNNING \<longleftrightarrow> n = 0"
  by (simp add: status_of_int_def)

lemma status_of_int_known [simp]:
  "status_of_int 0 = CONTAINER_RUNNING" "status_of_int 1 = CONTAINER_STOPED"
  by (simp_all add: status_of_int_def)

end
