(* ===== verification/JsonLib.thy ===== *)
theory JsonLib
  imports Prelude "HOL-Library.AList"
begin

text \<open>
  The part of the JSON library (jsoncpp) that \<open>ContainerDao\<close> calls. The repository ships its
  headers and a binary archive only, so the library is a parameter of the model: a record of the
  operations, with what its header documents as the laws of the locale \<open>json_library\<close>.
  A reference to a sub-value obtained by the non-constant \<open>operator[]\<close> is a get/put pair, and
  \<open>None\<close> is the exception the library throws on a value of the wrong kind.
  The second half of the theory is a small implementation (JSON text with a comma after every
  element) that satisfies the laws.
\<close>

section \<open>The interface\<close>

text \<open>The member names the program uses: lower-case letters and underscores.\<close>

definition field_name :: "string \<Rightarrow> bool" where
  "field_name s \<longleftrightarrow>
     (\<forall>c \<in> set s. c = CHR ''_'' \<or> (97 \<le> (of_char c :: nat) \<and> (of_char c :: nat) \<le> 122))"

record 'j jsoncpp =
  jnull :: 'j
  jparse :: "string \<Rightarrow> bool \<times> 'j"
  jstyled :: "'j \<Rightarrow> string"
  jsize :: "'j \<Rightarrow> nat"
  jelem :: "'j \<Rightarrow> nat \<Rightarrow> 'j option"
  jelem_put :: "'j \<Rightarrow> nat \<Rightarrow> 'j \<Rightarrow> 'j"
  jmemb :: "'j \<Rightarrow> string \<Rightarrow> 'j option"
  jmemb_put :: "'j \<Rightarrow> string \<Rightarrow> 'j \<Rightarrow> 'j"
  jappend :: "'j \<Rightarrow> 'j \<Rightarrow> 'j option"
  jstr :: "string \<Rightarrow> 'j"
  jint :: "int \<Rightarrow> 'j"
  jasString :: "'j \<Rightarrow> string option"
  jasInt :: "'j \<Rightarrow> int option"

text \<open>
  \<open>jdoc\<close> are the values that survive being written and read again, \<open>jtext\<close> the strings that do
  (the header: \<^verbatim>\<open>stringValue\<close> is a UTF-8 string value). Indexing is for arrays, naming for objects,
  and null turns into either on first use.
\<close>

locale json_library =
  fixes J :: "'j jsoncpp"
    and jdoc :: "'j \<Rightarrow> bool"
    and jtext :: "string \<Rightarrow> bool"
  assumes parse_styled: "jdoc v \<Longrightarrow> jparse J (jstyled J v) = (True, v)"
    and parse_doc: "jparse J t = (True, v) \<Longrightarrow> jdoc v"
    and text_field: "field_name s \<Longrightarrow> jtext s"
    and doc_null: "jdoc (jnull J)"
    and doc_str: "jtext s \<Longrightarrow> jdoc (jstr J s)"
    and doc_int: "jdoc (jint J n)"
    and doc_elem: "jdoc v \<Longrightarrow> i < jsize J v \<Longrightarrow> jelem J v i = Some e \<Longrightarrow> jdoc e"
    and doc_elem_put:
      "jdoc v \<Longrightarrow> i < jsize J v \<Longrightarrow> jelem J v i = Some e \<Longrightarrow> jdoc e' \<Longrightarrow> jdoc (jelem_put J v i e')"
    and doc_append: "jdoc v \<Longrightarrow> jdoc e \<Longrightarrow> jappend J v e = Some w \<Longrightarrow> jdoc w"
    and doc_memb: "jdoc v \<Longrightarrow> jmemb J v k = Some e \<Longrightarrow> jdoc e"
    and doc_memb_put: "jdoc v \<Longrightarrow> jtext k \<Longrightarrow> jmemb J v k = Some e \<Longrightarrow> jdoc e' \<Longrightarrow> jdoc (jmemb_put J v k e')"
    and size_null: "jsize J (jnull J) = 0"
    and append_null: "\<exists>w. jappend J (jnull J) e = Some w"
    and append_array: "i < jsize J v \<Longrightarrow> jelem J v i = Some x \<Longrightarrow> \<exists>w. jappend J v e = Some w"
    and append_size: "jappend J v e = Some w \<Longrightarrow> jsize J w = Suc (jsize J v)"
    and append_last: "jappend J v e = Some w \<Longrightarrow> jelem J w (jsize J v) = Some e"
    and append_before: "jappend J v e = Some w \<Longrightarrow> i < jsize J v \<Longrightarrow> jelem J w i = jelem J v i"
    and elem_put_size: "i < jsize J v \<Longrightarrow> jelem J v i = Some x \<Longrightarrow> jsize J (jelem_put J v i e) = jsize J v"
    and elem_put_same: "i < jsize J v \<Longrightarrow> jelem J v i = Some x \<Longrightarrow> jelem J (jelem_put J v i e) i = Some e"
    and elem_put_other:
      "i < jsize J v \<Longrightarrow> jelem J v i = Some x \<Longrightarrow> j < jsize J v \<Longrightarrow> j \<noteq> i \<Longrightarrow>
       jelem J (jelem_put J v i e) j = jelem J v j"
    and memb_null: "jmemb J (jnull J) k = Some (jnull J)"
    and memb_all: "jmemb J v k = Some x \<Longrightarrow> \<exists>y. jmemb J v k' = Some y"
    and memb_put_same: "jmemb J v k = Some x \<Longrightarrow> jmemb J (jmemb_put J v k e) k = Some e"
    and memb_put_other: "jmemb J v k = Some x \<Longrightarrow> k' \<noteq> k \<Longrightarrow> jmemb J (jmemb_put J v k e) k' = jmemb J v k'"
    and asString_str: "jasString J (jstr J s) = Some s"
    and asInt_int: "is_int32 n \<Longrightarrow> jasInt J (jint J n) = Some n"

section \<open>A JSON implementation\<close>

datatype jv = JNull | JInt int | JStr string | JArr "jv list" | JObj "(string \<times> jv) list"

subsection \<open>Writer and reader\<close>

abbreviation QUOTE :: char where
  "QUOTE \<equiv> CHR 0x22"

fun show_jv :: "jv \<Rightarrow> string" and show_elems :: "jv list \<Rightarrow> string"
  and show_membs :: "(string \<times> jv) list \<Rightarrow> string" where
  "show_jv JNull = ''null''"
| "show_jv (JInt i) = show_int i"
| "show_jv (JStr s) = QUOTE # s @ [QUOTE]"
| "show_jv (JArr vs) = CHR ''['' # show_elems vs"
| "show_jv (JObj ms) = CHR ''{'' # show_membs ms"
| "show_elems [] = '']''"
| "show_elems (v # vs) = show_jv v @ CHR '','' # show_elems vs"
| "show_membs [] = ''}''"
| "show_membs ((k, v) # ms) = QUOTE # k @ QUOTE # CHR '':'' # show_jv v @ CHR '','' # show_membs ms"

definition read_str :: "string \<Rightarrow> (string \<times> string) option" where
  "read_str cs =
     (case dropWhile (\<lambda>c. c \<noteq> QUOTE) cs of
        [] \<Rightarrow> None
      | _ # rest \<Rightarrow> Some (takeWhile (\<lambda>c. c \<noteq> QUOTE) cs, rest))"

definition read_int :: "string \<Rightarrow> (int \<times> string) option" where
  "read_int cs =
     (let (neg, ds) = (case cs of c # cs' \<Rightarrow> if c = CHR ''-'' then (True, cs') else (False, cs) | [] \<Rightarrow> (False, cs));
          n = int (read_nat (takeWhile is_digit ds)) in
      if takeWhile is_digit ds = [] then None
      else Some (if neg then - n else n, dropWhile is_digit ds))"

text \<open>Every call spends one unit of fuel; the length of the text is enough.\<close>

fun read_jv :: "nat \<Rightarrow> string \<Rightarrow> (jv \<times> string) option"
  and read_elems :: "nat \<Rightarrow> string \<Rightarrow> (jv list \<times> string) option"
  and read_membs :: "nat \<Rightarrow> string \<Rightarrow> ((string \<times> jv) list \<times> string) option" where
  "read_jv 0 cs = None"
| "read_jv (Suc f) [] = None"
| "read_jv (Suc f) (c # cs) =
     (if c = CHR ''n'' then
        (if take 3 cs = ''ull'' then Some (JNull, drop 3 cs) else None)
      else if c = QUOTE then map_option (\<lambda>(s, r). (JStr s, r)) (read_str cs)
      else if c = CHR ''['' then map_option (\<lambda>(vs, r). (JArr vs, r)) (read_elems f cs)
      else if c = CHR ''{'' then map_option (\<lambda>(ms, r). (JObj ms, r)) (read_membs f cs)
      else map_option (\<lambda>(i, r). (JInt i, r)) (read_int (c # cs)))"
| "read_elems 0 cs = None"
| "read_elems (Suc f) [] = None"
| "read_elems (Suc f) (c # cs) =
     (if c = CHR '']'' then Some ([], cs)
      else (case read_jv f (c # cs) of
              Some (v, d # r) \<Rightarrow>
                if d = CHR '','' then map_option (\<lambda>(vs, r'). (v # vs, r')) (read_elems f r) else None
            | _ \<Rightarrow> None))"
| "read_membs 0 cs = None"
| "read_membs (Suc f) [] = None"
| "read_membs (Suc f) (c # cs) =
     (if c = CHR ''}'' then Some ([], cs)
      else if c \<noteq> QUOTE then None
      else (case read_str cs of
              Some (k, e # r) \<Rightarrow>
                if e \<noteq> CHR '':'' then None
                else (case read_jv f r of
                        Some (v, d # r') \<Rightarrow>
                          if d = CHR '','' then map_option (\<lambda>(ms, r''). ((k, v) # ms, r'')) (read_membs f r')
                          else None
                      | _ \<Rightarrow> None)
            | _ \<Rightarrow> None))"

definition parse_jv :: "string \<Rightarrow> bool \<times> jv" where
  "parse_jv t = (case read_jv (Suc (length t)) t of Some (v, []) \<Rightarrow> (True, v) | _ \<Rightarrow> (False, JNull))"

subsection \<open>Access\<close>

fun size_jv :: "jv \<Rightarrow> nat" where
  "size_jv (JArr vs) = length vs"
| "size_jv (JObj ms) = length ms"
| "size_jv _ = 0"

fun elem_jv :: "jv \<Rightarrow> nat \<Rightarrow> jv option" where
  "elem_jv (JArr vs) i = Some (if i < length vs then vs ! i else JNull)"
| "elem_jv JNull i = Some JNull"
| "elem_jv _ i = None"

fun elem_put_jv :: "jv \<Rightarrow> nat \<Rightarrow> jv \<Rightarrow> jv" where
  "elem_put_jv (JArr vs) i e = JArr ((vs @ replicate (Suc i - length vs) JNull)[i := e])"
| "elem_put_jv _ i e = JArr ((replicate (Suc i) JNull)[i := e])"

fun memb_jv :: "jv \<Rightarrow> string \<Rightarrow> jv option" where
  "memb_jv (JObj ms) k = Some (case map_of ms k of None \<Rightarrow> JNull | Some v \<Rightarrow> v)"
| "memb_jv JNull k = Some JNull"
| "memb_jv _ k = None"

fun memb_put_jv :: "jv \<Rightarrow> string \<Rightarrow> jv \<Rightarrow> jv" where
  "memb_put_jv (JObj ms) k v = JObj (AList.update k v ms)"
| "memb_put_jv _ k v = JObj [(k, v)]"

fun append_jv :: "jv \<Rightarrow> jv \<Rightarrow> jv option" where
  "append_jv (JArr vs) e = Some (JArr (vs @ [e]))"
| "append_jv JNull e = Some (JArr [e])"
| "append_jv _ e = None"

fun as_string_jv :: "jv \<Rightarrow> string option" where
  "as_string_jv (JStr s) = Some s"
| "as_string_jv (JInt i) = Some (show_int i)"
| "as_string_jv JNull = Some []"
| "as_string_jv _ = None"

fun as_int_jv :: "jv \<Rightarrow> int option" where
  "as_int_jv (JInt i) = (if is_int32 i then Some i else None)"
| "as_int_jv JNull = Some 0"
| "as_int_jv _ = None"

definition json_impl :: "jv jsoncpp" where
  "json_impl = \<lparr>jnull = JNull, jparse = parse_jv, jstyled = show_jv, jsize = size_jv,
     jelem = elem_jv, jelem_put = elem_put_jv, jmemb = memb_jv, jmemb_put = memb_put_jv,
     jappend = append_jv, jstr = JStr, jint = JInt, jasString = as_string_jv, jasInt = as_int_jv\<rparr>"

definition text_jv :: "string \<Rightarrow> bool" where
  "text_jv s \<longleftrightarrow> QUOTE \<notin> set s"

fun doc_jv :: "jv \<Rightarrow> bool" where
  "doc_jv JNull = True"
| "doc_jv (JInt i) = True"
| "doc_jv (JStr s) = text_jv s"
| "doc_jv (JArr vs) = (\<forall>v \<in> set vs. doc_jv v)"
| "doc_jv (JObj ms) = (\<forall>(k, v) \<in> set ms. text_jv k \<and> doc_jv v)"

section \<open>The implementation satisfies the laws\<close>

lemma update_subset: "set (AList.update k v ms) \<subseteq> insert (k, v) (set ms)"
  by (induction ms) auto

definition ends_number :: "string \<Rightarrow> bool" where
  "ends_number r \<longleftrightarrow> (r = [] \<or> \<not> is_digit (hd r))"

lemma span_digits:
  assumes "\<And>c. c \<in> set ds \<Longrightarrow> is_digit c" and "ends_number r"
  shows "takeWhile is_digit (ds @ r) = ds" and "dropWhile is_digit (ds @ r) = r"
  using assms by (induction ds) (auto simp: ends_number_def, (cases r; auto)+)

lemma span_show_nat:
  assumes "ends_number r"
  shows "takeWhile is_digit (show_nat n @ r) = show_nat n" and "dropWhile is_digit (show_nat n @ r) = r"
  using span_digits [of "show_nat n" r] show_nat_digits [of _ n] assms by blast+

lemma read_show_int:
  assumes "ends_number r"
  shows "read_int (show_int i @ r) = Some (i, r)"
proof (cases "i < 0")
  case True
  from True show ?thesis
    by (simp add: read_int_def show_int_def span_show_nat [OF assms] read_show_nat)
next
  case False
  let ?ds = "show_nat (nat i)"
  note span = span_show_nat [OF assms, of "nat i"]
  obtain d ds where ds: "?ds = d # ds" by (cases ?ds) auto
  then have "is_digit d" using show_nat_digits [of d "nat i"] by simp
  then have "d \<noteq> CHR ''-''" by (auto simp: is_digit_def)
  moreover have "takeWhile is_digit (d # ds @ r) = d # ds" "dropWhile is_digit (d # ds @ r) = r"
    using span unfolding ds by (simp_all only: append_Cons)
  moreover have "read_nat (d # ds) = nat i" using read_show_nat [of "nat i"] by (simp only: ds)
  ultimately show ?thesis
    using False by (simp only: read_int_def show_int_def ds) (simp add: Let_def)
qed

lemma show_int_head:
  "\<exists>c cs. show_int i = c # cs \<and> c \<noteq> CHR ''n'' \<and> c \<noteq> QUOTE \<and> c \<noteq> CHR ''['' \<and> c \<noteq> CHR ''{''
    \<and> c \<noteq> CHR '']''"
proof (cases "i < 0")
  case True
  then show ?thesis by (simp add: show_int_def)
next
  case False
  obtain d ds where ds: "show_nat (nat i) = d # ds" by (cases "show_nat (nat i)") auto
  then have "is_digit d" using show_nat_digits [of d "nat i"] by simp
  with False ds show ?thesis by (auto simp: show_int_def is_digit_def)
qed

lemma read_show_str:
  "text_jv s \<Longrightarrow> read_str (s @ QUOTE # r) = Some (s, r)"
proof -
  assume s: "text_jv s"
  have "dropWhile (\<lambda>c. c \<noteq> QUOTE) (s @ QUOTE # r) = QUOTE # r"
    and "takeWhile (\<lambda>c. c \<noteq> QUOTE) (s @ QUOTE # r) = s"
    using s by (induction s) (auto simp: text_jv_def)
  then show ?thesis by (simp add: read_str_def)
qed

lemma show_jv_head: "\<exists>c cs. show_jv v = c # cs \<and> c \<noteq> CHR '']''"
proof (cases v)
  case (JInt i)
  then show ?thesis using show_int_head [of i] by auto
qed auto

lemma show_jv_nonempty [simp]: "show_jv v \<noteq> []"
  using show_jv_head [of v] by auto

text \<open>Reading back what was written, with enough fuel and anything after it.\<close>

lemma read_show_jv:
  shows "doc_jv v \<Longrightarrow> ends_number r \<Longrightarrow> length (show_jv v) < f \<Longrightarrow>
      read_jv f (show_jv v @ r) = Some (v, r)"
    and "(\<forall>v \<in> set vs. doc_jv v) \<Longrightarrow> length (show_elems vs) < f \<Longrightarrow>
      read_elems f (show_elems vs @ r) = Some (vs, r)"
    and "(\<forall>(k, v) \<in> set ms. text_jv k \<and> doc_jv v) \<Longrightarrow> length (show_membs ms) < f \<Longrightarrow>
      read_membs f (show_membs ms @ r) = Some (ms, r)"
proof (induction v and vs and ms arbitrary: r f and r f and r f rule: show_jv_show_elems_show_membs.induct)
  case 1
  then show ?case by (cases f) simp_all
next
  case (2 i)
  obtain c cs where c: "show_int i = c # cs" "c \<noteq> CHR ''n''" "c \<noteq> QUOTE" "c \<noteq> CHR ''[''" "c \<noteq> CHR ''{''"
    using show_int_head by blast
  with 2 read_show_int [of r i] show ?case by (cases f) simp_all
next
  case (3 s)
  then show ?case by (cases f) (simp_all add: read_show_str)
next
  case (4 vs)
  then show ?case by (cases f) simp_all
next
  case (5 ms)
  then show ?case by (cases f) simp_all
next
  case 6
  then show ?case by (cases f) simp_all
next
  case (7 v vs)
  obtain f' where f: "f = Suc f'" using 7 by (cases f) auto
  obtain c cs where c: "show_jv v = c # cs" "c \<noteq> CHR '']''" using show_jv_head by blast
  have "read_jv f' (show_jv v @ CHR '','' # show_elems vs @ r) = Some (v, CHR '','' # show_elems vs @ r)"
    using 7 f by (intro 7) (auto simp: ends_number_def is_digit_def)
  moreover have "read_elems f' (show_elems vs @ r) = Some (vs, r)"
    using 7 f by (intro 7) auto
  ultimately show ?case using c f by simp
next
  case 8
  then show ?case by (cases f) simp_all
next
  case (9 k v ms)
  obtain f' where f: "f = Suc f'" using 9 by (cases f) auto
  have "read_jv f' (show_jv v @ CHR '','' # show_membs ms @ r) = Some (v, CHR '','' # show_membs ms @ r)"
    using 9 f by (intro 9) (auto simp: ends_number_def is_digit_def)
  moreover have "read_membs f' (show_membs ms @ r) = Some (ms, r)"
    using 9 f by (intro 9) auto
  ultimately show ?case
    using f 9 read_show_str [of k "CHR '':'' # show_jv v @ CHR '','' # show_membs ms @ r"] by simp
qed

lemma read_str_text: "read_str cs = Some (s, r) \<Longrightarrow> text_jv s"
  by (auto simp: read_str_def text_jv_def split: list.splits dest: set_takeWhileD)

lemma read_doc:
  shows "read_jv f cs = Some (v, r) \<Longrightarrow> doc_jv v"
    and "read_elems f cs = Some (vs, r) \<Longrightarrow> \<forall>v \<in> set vs. doc_jv v"
    and "read_membs f cs = Some (ms, r) \<Longrightarrow> \<forall>(k, v) \<in> set ms. text_jv k \<and> doc_jv v"
proof (induction f cs and f cs and f cs arbitrary: v r and vs r and ms r
    rule: read_jv_read_elems_read_membs.induct)
  case (3 f c cs)
  then show ?case by (auto split: if_splits dest: read_str_text)
next
  case (6 f c cs)
  then show ?case by (fastforce split: if_splits option.splits list.splits prod.splits)
next
  case (9 f c cs)
  then show ?case
    by (fastforce split: if_splits option.splits list.splits prod.splits dest: read_str_text)
qed auto

text \<open>The implementation is an instance of the interface.\<close>

interpretation jimpl: json_library json_impl doc_jv text_jv
proof (unfold_locales, unfold json_impl_def jsoncpp.simps)
  fix v :: jv
  assume "doc_jv v"
  then have "read_jv (Suc (length (show_jv v))) (show_jv v @ []) = Some (v, [])"
    by (intro read_show_jv(1)) (auto simp: ends_number_def)
  then show "parse_jv (show_jv v) = (True, v)" by (simp add: parse_jv_def)
next
  fix t v
  assume "parse_jv t = (True, v)"
  then show "doc_jv v"
    by (auto simp: parse_jv_def split: option.splits list.splits prod.splits dest: read_doc(1))
next
  fix s
  assume "field_name s"
  then have "QUOTE \<in> set s \<longrightarrow> QUOTE = CHR ''_'' \<or> 97 \<le> (of_char QUOTE :: nat)"
    unfolding field_name_def by blast
  then show "text_jv s" by (simp add: text_jv_def)
next
  fix v e w :: jv and i :: nat
  assume "doc_jv v" "i < size_jv v" "elem_jv v i = Some e" "doc_jv w"
  then show "doc_jv (elem_put_jv v i w)"
    by (cases v) (auto dest!: set_update_subset_insert [THEN subsetD] split: if_splits)
next
  fix v e w :: jv and k :: string
  assume "doc_jv v" "text_jv k" "memb_jv v k = Some e" "doc_jv w"
  then show "doc_jv (memb_put_jv v k w)"
    by (cases v) (auto dest!: update_subset [THEN subsetD])
next
  fix v e :: jv and k :: string
  assume "doc_jv v" "memb_jv v k = Some e"
  then show "doc_jv e"
    by (cases v) (auto split: option.splits dest!: map_of_SomeD)
qed (auto simp: nth_append update_conv' elim: elem_jv.elims memb_jv.elims append_jv.elims
    split: option.splits if_splits)

end
