(* ===== verification/ContainerDao.thy ===== *)
theory ContainerDao
  imports ContainerInfo JsonLib
begin

text \<open>
  \<open>src/util/container_dao.cpp\<close>: the table of containers kept in \<open>/data/hoststack/data.json\<close>.
  The state is the content of that file (\<open>None\<close>: the file does not exist). Every operation
  reads and rewrites the whole file, as the code does; \<open>J\<close> is the JSON library. A non-constant
  access \<open>root[i][key]\<close> creates the member when it is missing, so the document is threaded
  through the loops.
\<close>

section \<open>The operations\<close>

type_synonym data_file = "string option"

text \<open>What the operations ask the host: does \<open>/proc/<pid>\<close> exist, the current time, and whether
  the data file can be opened for writing (a failed \<open>ofstream\<close> is silently ignored).\<close>

record dao_env =
  proc_alive :: "int \<Rightarrow> bool"
  now :: int
  writable :: bool

definition write_data :: "dao_env \<Rightarrow> string \<Rightarrow> data_file \<Rightarrow> data_file" where
  "write_data env text f = (if writable env then Some text else f)"

definition as_string :: "'j jsoncpp \<Rightarrow> 'j \<Rightarrow> string res" where
  "as_string J v = of_opt JsonThrow (jasString J v)"

definition as_int :: "'j jsoncpp \<Rightarrow> 'j \<Rightarrow> int res" where
  "as_int J v = of_opt JsonThrow (jasInt J v)"

text \<open>Constant member access \<open>jsonData[k]\<close>.\<close>

definition memb :: "'j jsoncpp \<Rightarrow> 'j \<Rightarrow> string \<Rightarrow> 'j res" where
  "memb J e k = of_opt JsonThrow (jmemb J e k)"

text \<open>Non-constant access \<open>root[i][k]\<close>: the member's value and the document afterwards.\<close>

definition ref_memb :: "'j jsoncpp \<Rightarrow> 'j \<Rightarrow> nat \<Rightarrow> string \<Rightarrow> ('j \<times> 'j) res" where
  "ref_memb J root i k =
     rbind (of_opt JsonThrow (jelem J root i)) (\<lambda>e.
     rbind (memb J e k) (\<lambda>m. Inr (m, jelem_put J root i (jmemb_put J e k m))))"

text \<open>The assignment \<open>root[i][k] = v\<close>.\<close>

definition set_memb :: "'j jsoncpp \<Rightarrow> 'j \<Rightarrow> nat \<Rightarrow> string \<Rightarrow> 'j \<Rightarrow> 'j res" where
  "set_memb J root i k v =
     rbind (of_opt JsonThrow (jelem J root i)) (\<lambda>e.
     rbind (memb J e k) (\<lambda>_. Inr (jelem_put J root i (jmemb_put J e k v))))"

subsection \<open>Conversion\<close>

fun pack_volume :: "'j jsoncpp \<Rightarrow> 'j \<Rightarrow> nat list \<Rightarrow> string list \<Rightarrow> string list res" where
  "pack_volume J volume [] acc = Inr acc"
| "pack_volume J volume (i # ixs) acc =
     rbind (of_opt JsonThrow (jelem J volume i)) (\<lambda>v.
     rbind (as_string J v) (\<lambda>s. pack_volume J volume ixs (set_insert s acc)))"

definition pack_container_info :: "'j jsoncpp \<Rightarrow> 'j \<Rightarrow> container_info res" where
  "pack_container_info J jsonData =
     rbind (rbind (memb J jsonData ''id'') (as_string J)) (\<lambda>id'.
     rbind (rbind (memb J jsonData ''name'') (as_string J)) (\<lambda>name'.
     rbind (rbind (memb J jsonData ''pid'') (as_int J)) (\<lambda>pid'.
     rbind (rbind (memb J jsonData ''command'') (as_string J)) (\<lambda>command'.
     rbind (memb J jsonData ''volume'') (\<lambda>volume.
     rbind (pack_volume J volume [0..<jsize J volume] []) (\<lambda>vols.
     rbind (rbind (memb J jsonData ''create_time'') (as_int J)) (\<lambda>create'.
     rbind (rbind (memb J jsonData ''status'') (as_int J)) (\<lambda>status'.
     rbind (rbind (memb J jsonData ''abnormal_stoped'') (as_int J)) (\<lambda>abnormal'.
     Inr (empty_info\<lparr>cid := id', cname := name', pid := pid', command := command',
       volume_list := vols, create_time := create', status := status_of_int status',
       abnormal_stoped := abnormal'\<rparr>))))))))))"

text \<open>A sequence of assignments \<open>jsonData[k] = v\<close>.\<close>

fun assign_all :: "'j jsoncpp \<Rightarrow> 'j \<Rightarrow> (string \<times> 'j) list \<Rightarrow> 'j res" where
  "assign_all J e [] = Inr e"
| "assign_all J e ((k, v) # kvs) =
     rbind (memb J e k) (\<lambda>_. assign_all J (jmemb_put J e k v) kvs)"

fun append_strings :: "'j jsoncpp \<Rightarrow> 'j \<Rightarrow> string list \<Rightarrow> 'j res" where
  "append_strings J v [] = Inr v"
| "append_strings J v (s # ss) =
     rbind (of_opt JsonThrow (jappend J v (jstr J s))) (\<lambda>v'. append_strings J v' ss)"

definition de_pack_container_info :: "'j jsoncpp \<Rightarrow> 'j \<Rightarrow> container_info \<Rightarrow> 'j res" where
  "de_pack_container_info J jsonData info =
     rbind (assign_all J jsonData
       [(''id'', jstr J (cid info)), (''name'', jstr J (cname info)), (''pid'', jint J (pid info)),
        (''command'', jstr J (command info)),
        (''create_time'', jint J (to_int32 (create_time info))),
        (''start_time'', jint J (to_int32 (start_time info))),
        (''stop_time'', jint J (to_int32 (stop_time info))),
        (''status'', jint J (int_of_status (status info))),
        (''abnormal_stoped'', jint J (abnormal_stoped info))]) (\<lambda>e.
     rbind (append_strings J (jnull J) (volume_list info)) (\<lambda>volume.
     assign_all J e [(''volume'', volume)]))"

subsection \<open>Reading\<close>

text \<open>The loop of \<open>get_container_by\<close> over the remaining indices.\<close>

fun find_by :: "'j jsoncpp \<Rightarrow> string \<Rightarrow> string \<Rightarrow> 'j \<Rightarrow> nat list \<Rightarrow> container_info option res" where
  "find_by J key v root [] = Inr None"
| "find_by J key v root (i # ixs) =
     rbind (ref_memb J root i key) (\<lambda>(m, root1).
     rbind (as_string J m) (\<lambda>s.
     if s = v
     then rbind (of_opt JsonThrow (jelem J root1 i)) (\<lambda>e.
          rbind (pack_container_info J e) (\<lambda>c. Inr (Some c)))
     else find_by J key v root1 ixs))"

definition get_container_by :: "'j jsoncpp \<Rightarrow> string \<Rightarrow> string \<Rightarrow> data_file \<Rightarrow> container_info option res" where
  "get_container_by J key v f =
     (case f of
        None \<Rightarrow> Inr None
      | Some text \<Rightarrow>
          (let (ok, root) = jparse J text in
           if \<not> ok then Inr None
           else if jsize J root = 0 then Inr None
           else find_by J key v root [0..<jsize J root]))"

definition get_container_by_id :: "'j jsoncpp \<Rightarrow> string \<Rightarrow> data_file \<Rightarrow> container_info option res" where
  "get_container_by_id J v f = get_container_by J ''id'' v f"

definition get_container_by_name :: "'j jsoncpp \<Rightarrow> string \<Rightarrow> data_file \<Rightarrow> container_info option res" where
  "get_container_by_name J v f = get_container_by J ''name'' v f"

text \<open>
  \<open>get_container_by_id_or_name\<close> also corrects a container recorded as running whose process has
  gone, and writes the file back.
\<close>

definition sync_row :: "'j jsoncpp \<Rightarrow> dao_env \<Rightarrow> 'j \<Rightarrow> nat \<Rightarrow> data_file \<Rightarrow> ('j \<times> data_file) res" where
  "sync_row J env root i f =
     rbind (ref_memb J root i ''status'') (\<lambda>(m, root1).
     rbind (as_int J m) (\<lambda>st.
     if st = int_of_status CONTAINER_RUNNING
     then rbind (ref_memb J root1 i ''pid'') (\<lambda>(p, root2).
          rbind (as_int J p) (\<lambda>pid'.
          if \<not> proc_alive env pid'
          then rbind (set_memb J root2 i ''status'' (jint J (int_of_status CONTAINER_STOPED))) (\<lambda>root3.
               rbind (set_memb J root3 i ''stop_time'' (jint J (to_int32 (now env)))) (\<lambda>root4.
               rbind (set_memb J root4 i ''pid'' (jint J 0)) (\<lambda>root5.
               Inr (root5, write_data env (jstyled J root5) f))))
          else Inr (root2, f)))
     else Inr (root1, f)))"

fun find_id_or_name ::
  "'j jsoncpp \<Rightarrow> dao_env \<Rightarrow> string \<Rightarrow> 'j \<Rightarrow> nat list \<Rightarrow> data_file \<Rightarrow>
   (container_info option \<times> data_file) res" where
  "find_id_or_name J env v root [] f = Inr (None, f)"
| "find_id_or_name J env v root (i # ixs) f =
     rbind (ref_memb J root i ''name'') (\<lambda>(m, root1).
     rbind (as_string J m) (\<lambda>nm.
     rbind (if nm = v then Inr (True, root1)
            else rbind (ref_memb J root1 i ''id'') (\<lambda>(m', root2).
                 rbind (as_string J m') (\<lambda>i'. Inr (i' = v, root2)))) (\<lambda>(hit, root3).
     if hit
     then rbind (sync_row J env root3 i f) (\<lambda>(root4, f').
          rbind (of_opt JsonThrow (jelem J root4 i)) (\<lambda>e.
          rbind (pack_container_info J e) (\<lambda>c. Inr (Some c, f'))))
     else find_id_or_name J env v root3 ixs f)))"

definition get_container_by_id_or_name ::
  "'j jsoncpp \<Rightarrow> dao_env \<Rightarrow> string \<Rightarrow> data_file \<Rightarrow> (container_info option \<times> data_file) res" where
  "get_container_by_id_or_name J env v f =
     (case f of
        None \<Rightarrow> Inr (None, f)
      | Some text \<Rightarrow>
          (let (ok, root) = jparse J text in
           if \<not> ok then Inr (None, f)
           else if jsize J root = 0 then Inr (None, f)
           else find_id_or_name J env v root [0..<jsize J root] f))"

fun pack_rows :: "'j jsoncpp \<Rightarrow> 'j \<Rightarrow> nat list \<Rightarrow> container_info list res" where
  "pack_rows J root [] = Inr []"
| "pack_rows J root (i # ixs) =
     rbind (of_opt JsonThrow (jelem J root i)) (\<lambda>e.
     rbind (pack_container_info J e) (\<lambda>c.
     rbind (pack_rows J root ixs) (\<lambda>cs. Inr (c # cs))))"

text \<open>\<open>list\<close> returns \<open>NULL\<close> for a missing, unreadable or empty table.\<close>

definition dao_list :: "'j jsoncpp \<Rightarrow> data_file \<Rightarrow> container_info list option res" where
  "dao_list J f =
     (case f of
        None \<Rightarrow> Inr None
      | Some text \<Rightarrow>
          (let (ok, root) = jparse J text in
           if \<not> ok then Inr None
           else if jsize J root = 0 then Inr None
           else rbind (pack_rows J root [0..<jsize J root]) (\<lambda>cs. Inr (Some cs))))"

subsection \<open>Writing\<close>

text \<open>The result of the parse is not looked at: an unreadable file leaves whatever the reader
  has put into \<open>root\<close>.\<close>

definition dao_insert :: "'j jsoncpp \<Rightarrow> dao_env \<Rightarrow> container_info \<Rightarrow> data_file \<Rightarrow> data_file res" where
  "dao_insert J env info f =
     (let root = (case f of None \<Rightarrow> jnull J | Some text \<Rightarrow> snd (jparse J text)) in
      rbind (de_pack_container_info J (jnull J) info) (\<lambda>infojson.
      rbind (of_opt JsonThrow (jappend J root infojson)) (\<lambda>root'.
      Inr (write_data env (jstyled J root') f))))"

text \<open>The loop of \<open>delete_by_id\<close>: \<open>info->id\<close> on an empty \<open>optional\<close> is undefined.\<close>

fun delete_loop ::
  "'j jsoncpp \<Rightarrow> container_info option \<Rightarrow> 'j \<Rightarrow> 'j \<Rightarrow> nat list \<Rightarrow> 'j res" where
  "delete_loop J info oldRoot newRoot [] = Inr newRoot"
| "delete_loop J info oldRoot newRoot (i # ixs) =
     rbind (ref_memb J oldRoot i ''id'') (\<lambda>(m, oldRoot1).
     rbind (as_string J m) (\<lambda>s.
     rbind (of_opt EmptyOptional info) (\<lambda>c.
     if s \<noteq> cid c
     then rbind (of_opt JsonThrow (jelem J oldRoot1 i)) (\<lambda>e.
          rbind (of_opt JsonThrow (jappend J newRoot e)) (\<lambda>newRoot1.
          delete_loop J info oldRoot1 newRoot1 ixs))
     else delete_loop J info oldRoot1 newRoot ixs)))"

definition delete_by_id :: "'j jsoncpp \<Rightarrow> dao_env \<Rightarrow> string \<Rightarrow> data_file \<Rightarrow> data_file res" where
  "delete_by_id J env containerName f =
     rbind (get_container_by_id_or_name J env containerName f) (\<lambda>(info, f1).
     case f1 of
       None \<Rightarrow> Inr f1
     | Some text \<Rightarrow>
         (let (ok, oldRoot) = jparse J text in
          if \<not> ok then Inr f1
          else if jsize J oldRoot = 0 then Inr f1
          else rbind (delete_loop J info oldRoot (jnull J) [0..<jsize J oldRoot]) (\<lambda>newRoot.
               Inr (write_data env (jstyled J newRoot) f1))))"

fun update_loop :: "'j jsoncpp \<Rightarrow> container_info \<Rightarrow> 'j \<Rightarrow> nat list \<Rightarrow> 'j res" where
  "update_loop J info root [] = Inr root"
| "update_loop J info root (i # ixs) =
     rbind (ref_memb J root i ''id'') (\<lambda>(m, root1).
     rbind (as_string J m) (\<lambda>s.
     if s = cid info
     then rbind (of_opt JsonThrow (jelem J root1 i)) (\<lambda>e.
          rbind (de_pack_container_info J e info) (\<lambda>e'. Inr (jelem_put J root1 i e')))
     else update_loop J info root1 ixs))"

text \<open>
  \<open>update\<close> calls \<open>insert\<close> when the file is missing, unreadable or empty, and goes on after each
  call: the document it read before is then written over the inserted one. Reading from a stream
  that could not be opened is reading the empty text.
\<close>

definition dao_update :: "'j jsoncpp \<Rightarrow> dao_env \<Rightarrow> container_info \<Rightarrow> data_file \<Rightarrow> data_file res" where
  "dao_update J env info f =
     rbind (case f of None \<Rightarrow> dao_insert J env info f | Some _ \<Rightarrow> Inr f) (\<lambda>f1.
     (let (ok, root) = jparse J (case f of None \<Rightarrow> [] | Some text \<Rightarrow> text) in
      rbind (if ok then Inr f1 else dao_insert J env info f1) (\<lambda>f2.
      rbind (if jsize J root = 0 then dao_insert J env info f2 else Inr f2) (\<lambda>f3.
      rbind (update_loop J info root [0..<jsize J root]) (\<lambda>root'.
      Inr (write_data env (jstyled J root') f3))))))"

definition change_status_to_stop :: "'j jsoncpp \<Rightarrow> dao_env \<Rightarrow> string \<Rightarrow> data_file \<Rightarrow> data_file res" where
  "change_status_to_stop J env v f =
     rbind (get_container_by_id_or_name J env v f) (\<lambda>(info, f1).
     rbind (of_opt EmptyOptional info) (\<lambda>c.
     dao_update J env (c\<lparr>status := CONTAINER_STOPED, abnormal_stoped := 0,
       stop_time := now env, pid := 0\<rparr>) f1))"

section \<open>The table the file stands for\<close>

text \<open>What a record keeps of a container: the two times the reader does not read are zero, and the
  creation time is what fits a 32-bit \<open>int\<close>.\<close>

definition norm_info :: "container_info \<Rightarrow> container_info" where
  "norm_info c = c\<lparr>create_time := to_int32 (create_time c), start_time := 0, stop_time := 0\<rparr>"

text \<open>A description whose strings survive in the file and whose integers fit.\<close>

definition storable :: "(string \<Rightarrow> bool) \<Rightarrow> container_info \<Rightarrow> bool" where
  "storable jtext c \<longleftrightarrow>
     jtext (cid c) \<and> jtext (cname c) \<and> jtext (command c) \<and> (\<forall>v \<in> set (volume_list c). jtext v) \<and>
     is_int32 (pid c) \<and> is_int32 (abnormal_stoped c) \<and> is_int32 (int_of_status (status c)) \<and>
     status c \<noteq> OTHER_STATUS 0 \<and> status c \<noteq> OTHER_STATUS 1 \<and> is_set (volume_list c)"

definition rows :: "'j jsoncpp \<Rightarrow> 'j \<Rightarrow> container_info list \<Rightarrow> bool" where
  "rows J root cs \<longleftrightarrow>
     jsize J root = length cs \<and>
     (\<forall>i < length cs. \<exists>e. jelem J root i = Some e \<and> pack_container_info J e = Inr (cs ! i)) \<and>
     (\<forall>e. \<exists>w. jappend J root e = Some w)"

definition dao_table :: "'j jsoncpp \<Rightarrow> data_file \<Rightarrow> container_info list \<Rightarrow> bool" where
  "dao_table J f cs \<longleftrightarrow>
     (case f of
        None \<Rightarrow> cs = []
      | Some t \<Rightarrow> (\<exists>root. jparse J t = (True, root) \<and> rows J root cs))"

lemma pack_cong:
  "(\<And>k. jmemb J e' k = jmemb J e k) \<Longrightarrow> pack_container_info J e' = pack_container_info J e"
  by (simp add: pack_container_info_def memb_def)

lemma pack_fields:
  assumes "pack_container_info J e = Inr c"
  shows "\<exists>m. jmemb J e ''id'' = Some m \<and> jasString J m = Some (cid c)"
    and "\<exists>m. jmemb J e ''name'' = Some m \<and> jasString J m = Some (cname c)"
    and "\<exists>m. jmemb J e ''pid'' = Some m \<and> jasInt J m = Some (pid c)"
    and "\<exists>m n. jmemb J e ''status'' = Some m \<and> jasInt J m = Some n \<and> status c = status_of_int n"
  using assms
  by (auto simp: pack_container_info_def memb_def as_string_def as_int_def rbind_eq_Inr of_opt_eq_Inr)

lemma pack_volume_strings:
  assumes "\<forall>i \<in> set ixs. jelem J v i = Some (jstr J (f i))"
    and "\<And>s. jasString J (jstr J s) = Some s"
  shows "pack_volume J v ixs acc = Inr (foldl (\<lambda>a x. set_insert x a) acc (map f ixs))"
  using assms by (induction ixs arbitrary: acc) (auto simp: as_string_def)

lemma field_names [simp]:
  "field_name ''id''" "field_name ''name''" "field_name ''pid''" "field_name ''command''"
  "field_name ''create_time''" "field_name ''start_time''" "field_name ''stop_time''"
  "field_name ''status''" "field_name ''abnormal_stoped''" "field_name ''volume''"
  by (simp_all add: field_name_def)

text \<open>The first element that satisfies \<open>P\<close> replaced by what \<open>g\<close> makes of it.\<close>

fun upd_first :: "('a \<Rightarrow> bool) \<Rightarrow> ('a \<Rightarrow> 'a) \<Rightarrow> 'a list \<Rightarrow> 'a list" where
  "upd_first P g [] = []"
| "upd_first P g (x # xs) = (if P x then g x # xs else x # upd_first P g xs)"

lemma upd_first_none: "find P xs = None \<Longrightarrow> upd_first P g xs = xs"
  by (induction xs) (auto split: if_splits)

lemma upd_first_index:
  "find (\<lambda>i. P (xs ! i)) [0..<length xs] = Some i \<Longrightarrow>
   upd_first P g xs = xs[i := g (xs ! i)] \<and> i < length xs \<and> find P xs = Some (xs ! i)"
proof (induction xs arbitrary: i)
  case Nil
  then show ?case by simp
next
  case (Cons x xs)
  have shift: "[0..<length (x # xs)] = 0 # map Suc [0..<length xs]"
    by (simp add: map_Suc_upt upt_conv_Cons del: upt_Suc)
  show ?case
  proof (cases "P x")
    case True
    with Cons.prems show ?thesis unfolding shift by simp
  next
    case False
    have "find (\<lambda>i. P ((x # xs) ! i)) (map Suc ixs) = map_option Suc (find (\<lambda>i. P (xs ! i)) ixs)" for ixs
      by (induction ixs) auto
    with Cons.prems False obtain j where "i = Suc j" "find (\<lambda>i. P (xs ! i)) [0..<length xs] = Some j"
      unfolding shift by auto
    with Cons.IH [of j] False show ?thesis by simp
  qed
qed

lemma find_index_none: "find (\<lambda>i. P (xs ! i)) [0..<length xs] = None \<longleftrightarrow> find P xs = None"
  by (auto simp: find_None_iff in_set_conv_nth)

text \<open>What a lookup makes of a container recorded as running whose process has gone.\<close>

definition sync_info :: "dao_env \<Rightarrow> container_info \<Rightarrow> container_info" where
  "sync_info env c =
     (if status c = CONTAINER_RUNNING \<and> \<not> proc_alive env (pid c)
      then c\<lparr>status := CONTAINER_STOPED, pid := 0\<rparr> else c)"

abbreviation matches :: "string \<Rightarrow> container_info \<Rightarrow> bool" where
  "matches v c \<equiv> cname c = v \<or> cid c = v"

context json_library
begin

lemma assign_all_ok:
  assumes "jmemb J e k0 = Some m0"
  shows "\<exists>e'. assign_all J e kvs = Inr e' \<and>
    (\<forall>k. jmemb J e' k = (case map_of (rev kvs) k of Some v \<Rightarrow> Some v | None \<Rightarrow> jmemb J e k)) \<and>
    (jdoc e \<and> (\<forall>(k, v) \<in> set kvs. field_name k \<and> jdoc v) \<longrightarrow> jdoc e')"
  using assms
proof (induction kvs arbitrary: e m0)
  case Nil
  then show ?case by simp
next
  case (Cons kv kvs)
  obtain k v where kv: "kv = (k, v)" by (cases kv)
  obtain m where m: "jmemb J e k = Some m" using memb_all [OF Cons.prems] by blast
  let ?e = "jmemb_put J e k v"
  have "jmemb J ?e k = Some v" by (rule memb_put_same [OF m])
  then obtain m' where "jmemb J ?e k0 = Some m'" using memb_all by blast
  from Cons.IH [OF this] obtain e' where e': "assign_all J ?e kvs = Inr e'"
    "\<forall>k. jmemb J e' k = (case map_of (rev kvs) k of Some v \<Rightarrow> Some v | None \<Rightarrow> jmemb J ?e k)"
    "jdoc ?e \<and> (\<forall>(k, v) \<in> set kvs. field_name k \<and> jdoc v) \<longrightarrow> jdoc e'" by blast
  have "jdoc e \<and> field_name k \<and> jdoc v \<Longrightarrow> jdoc ?e"
    using doc_memb_put [OF _ text_field m] by blast
  moreover have "jmemb J ?e k' = (if k' = k then Some v else jmemb J e k')" for k'
    using memb_put_same [OF m] memb_put_other [OF m] by auto
  ultimately show ?case
    using e' m kv by (auto simp: memb_def map_add_def split: option.splits)
qed

lemma append_strings_ok:
  assumes "\<forall>e. \<exists>w. jappend J v e = Some w"
  shows "\<exists>v'. append_strings J v ss = Inr v' \<and> jsize J v' = jsize J v + length ss \<and>
    (\<forall>i < jsize J v. jelem J v' i = jelem J v i) \<and>
    (\<forall>i < length ss. jelem J v' (jsize J v + i) = Some (jstr J (ss ! i))) \<and>
    (jdoc v \<and> (\<forall>s \<in> set ss. jtext s) \<longrightarrow> jdoc v')"
  using assms
proof (induction ss arbitrary: v)
  case Nil
  then show ?case by simp
next
  case (Cons s ss)
  obtain w where w: "jappend J v (jstr J s) = Some w" using Cons.prems by blast
  note size = append_size [OF w] and last = append_last [OF w]
  have "\<forall>e. \<exists>w'. jappend J w e = Some w'"
    using append_array [OF _ last] size by simp
  from Cons.IH [OF this] obtain v' where v': "append_strings J w ss = Inr v'"
    "jsize J v' = jsize J w + length ss" "\<forall>i < jsize J w. jelem J v' i = jelem J w i"
    "\<forall>i < length ss. jelem J v' (jsize J w + i) = Some (jstr J (ss ! i))"
    "jdoc w \<and> (\<forall>s \<in> set ss. jtext s) \<longrightarrow> jdoc v'" by blast
  have "\<forall>i < length (s # ss). jelem J v' (jsize J v + i) = Some (jstr J ((s # ss) ! i))"
  proof (intro allI impI)
    fix i assume "i < length (s # ss)"
    then show "jelem J v' (jsize J v + i) = Some (jstr J ((s # ss) ! i))"
      using v'(3,4) size last by (cases i) auto
  qed
  moreover have "jdoc v \<and> jtext s \<Longrightarrow> jdoc w"
    using doc_append [OF _ doc_str w] by blast
  moreover have "\<forall>i < jsize J v. jelem J v' i = jelem J v i"
    using v'(3) size append_before [OF w] by simp
  ultimately show ?case using w v'(1,2,5) size by auto
qed

text \<open>Writing a description into a record and reading it back.\<close>

lemma de_pack_pack:
  assumes "storable jtext c" and "jmemb J e k0 = Some m0"
  shows "\<exists>e'. de_pack_container_info J e c = Inr e' \<and> pack_container_info J e' = Inr (norm_info c) \<and>
    (jdoc e \<longrightarrow> jdoc e')"
proof -
  let ?kvs = "[(''id'', jstr J (cid c)), (''name'', jstr J (cname c)), (''pid'', jint J (pid c)),
        (''command'', jstr J (command c)),
        (''create_time'', jint J (to_int32 (create_time c))),
        (''start_time'', jint J (to_int32 (start_time c))),
        (''stop_time'', jint J (to_int32 (stop_time c))),
        (''status'', jint J (int_of_status (status c))),
        (''abnormal_stoped'', jint J (abnormal_stoped c))]"
  from assign_all_ok [OF assms(2), of ?kvs] obtain e1 where e1: "assign_all J e ?kvs = Inr e1"
    "\<forall>k. jmemb J e1 k = (case map_of (rev ?kvs) k of Some v \<Rightarrow> Some v | None \<Rightarrow> jmemb J e k)"
    "jdoc e \<and> (\<forall>(k, v) \<in> set ?kvs. field_name k \<and> jdoc v) \<longrightarrow> jdoc e1" by blast
  obtain vol where vol: "append_strings J (jnull J) (volume_list c) = Inr vol"
    "jsize J vol = length (volume_list c)"
    "\<forall>i < length (volume_list c). jelem J vol i = Some (jstr J (volume_list c ! i))"
    "(\<forall>s \<in> set (volume_list c). jtext s) \<longrightarrow> jdoc vol"
    using append_strings_ok [of "jnull J" "volume_list c"] append_null
    by (auto simp: size_null doc_null)
  have "jmemb J e1 ''id'' = Some (jstr J (cid c))" using e1(2) by simp
  from assign_all_ok [OF this, of "[(''volume'', vol)]"] obtain e2 where
    e2: "assign_all J e1 [(''volume'', vol)] = Inr e2"
    "\<forall>k. jmemb J e2 k = (case map_of [(''volume'', vol)] k of Some v \<Rightarrow> Some v | None \<Rightarrow> jmemb J e1 k)"
    "jdoc e1 \<and> field_name ''volume'' \<and> jdoc vol \<longrightarrow> jdoc e2" by auto
  have pv: "pack_volume J vol [0..<length (volume_list c)] [] = Inr (volume_list c)"
    using pack_volume_strings [of "[0..<length (volume_list c)]" J vol "(!) (volume_list c)"]
      vol(3) asString_str assms(1) by (simp add: map_nth foldl_set_insert_id storable_def)
  have "pack_container_info J e2 = Inr (norm_info c)"
    using e1(2) e2(2) vol(2) pv assms(1)
    by (simp add: pack_container_info_def memb_def as_string_def as_int_def asString_str asInt_int
        norm_info_def empty_info_def storable_def)
  moreover have "jdoc e \<longrightarrow> jdoc e2"
    using e1(3) e2(3) vol(4) assms(1) by (auto simp: storable_def doc_str doc_int)
  ultimately show ?thesis
    using e1(1) e2(1) vol(1) by (auto simp: de_pack_container_info_def)
qed

end

context json_library
begin

lemma rows_put:
  assumes "rows J root cs" and "i < length cs" and "pack_container_info J e' = Inr c'"
  shows "rows J (jelem_put J root i e') (cs[i := c'])"
proof -
  from assms(1,2) obtain e where e: "jelem J root i = Some e" and sz: "jsize J root = length cs"
    by (auto simp: rows_def)
  have i: "i < jsize J root" using assms(2) sz by simp
  note same = elem_put_same [OF i e, of e'] and other = elem_put_other [OF i e, of _ e']
    and size = elem_put_size [OF i e, of e']
  have "\<exists>x. jelem J (jelem_put J root i e') j = Some x \<and> pack_container_info J x = Inr (cs[i := c'] ! j)"
    if "j < length cs" for j
    using that assms(1,3) same other [of j] sz by (cases "j = i") (auto simp: rows_def)
  moreover have "\<exists>w. jappend J (jelem_put J root i e') x = Some w" for x
    using append_array [OF _ same] size i by simp
  ultimately show ?thesis using size sz by (simp add: rows_def)
qed

lemma rows_append:
  assumes "rows J root cs" and "jappend J root e = Some w" and "pack_container_info J e = Inr c"
  shows "rows J w (cs @ [c])"
proof -
  from assms(1) have sz: "jsize J root = length cs" by (simp add: rows_def)
  note size = append_size [OF assms(2)] and last = append_last [OF assms(2)]
    and before = append_before [OF assms(2)]
  have "\<exists>x. jelem J w j = Some x \<and> pack_container_info J x = Inr ((cs @ [c]) ! j)"
    if "j < length (cs @ [c])" for j
    using that assms(1,3) last before [of j] sz
    by (cases "j = length cs") (auto simp: rows_def nth_append less_Suc_eq)
  moreover have "\<exists>w'. jappend J w x = Some w'" for x
    using append_array [OF _ last] size by simp
  ultimately show ?thesis using size sz by (simp add: rows_def)
qed

lemma rows_null: "rows J (jnull J) []"
  by (simp add: rows_def size_null append_null)

text \<open>Looking at a member through a reference changes no record.\<close>

lemma ref_memb_rows:
  assumes "rows J root cs" and "i < length cs" and "jdoc root" and "field_name k"
    and "\<And>e. pack_container_info J e = Inr (cs ! i) \<Longrightarrow> \<exists>m. jmemb J e k = Some m \<and> Q m"
  shows "\<exists>m root'. ref_memb J root i k = Inr (m, root') \<and> Q m \<and> rows J root' cs \<and> jdoc root'"
proof -
  from assms(1,2) obtain e where e: "jelem J root i = Some e"
    and p: "pack_container_info J e = Inr (cs ! i)" and sz: "jsize J root = length cs"
    by (auto simp: rows_def)
  from assms(5) [OF p] obtain m where m: "jmemb J e k = Some m" "Q m" by blast
  let ?e = "jmemb_put J e k m"
  have "jmemb J ?e k' = jmemb J e k'" for k'
    using memb_put_same [OF m(1), of m] memb_put_other [OF m(1), of k' m] m(1) by (cases "k' = k") auto
  then have "pack_container_info J ?e = pack_container_info J e" by (rule pack_cong)
  with p have "pack_container_info J ?e = Inr (cs ! i)" by simp
  with rows_put [OF assms(1,2)] have "rows J (jelem_put J root i ?e) cs"
    by (metis list_update_id)
  moreover have "jdoc (jelem_put J root i ?e)"
    using doc_elem_put [OF assms(3) _ e] doc_elem [OF assms(3) _ e] assms(2) sz
      doc_memb_put [OF _ text_field [OF assms(4)] m(1)] doc_memb [OF _ m(1)] by simp
  ultimately show ?thesis using e m by (auto simp: ref_memb_def memb_def)
qed

lemma set_memb_rows:
  assumes "rows J root cs" and "i < length cs" and "jdoc root" and "field_name k" and "jdoc v"
    and "\<And>e. pack_container_info J e = Inr (cs ! i) \<Longrightarrow> pack_container_info J (jmemb_put J e k v) = Inr c'"
  shows "\<exists>root'. set_memb J root i k v = Inr root' \<and> rows J root' (cs[i := c']) \<and> jdoc root'"
proof -
  from assms(1,2) obtain e where e: "jelem J root i = Some e"
    and p: "pack_container_info J e = Inr (cs ! i)" and sz: "jsize J root = length cs"
    by (auto simp: rows_def)
  from pack_fields(1) [OF p] obtain m0 where "jmemb J e ''id'' = Some m0" by blast
  then obtain m where m: "jmemb J e k = Some m" using memb_all by blast
  from rows_put [OF assms(1,2) assms(6) [OF p]]
  have "rows J (jelem_put J root i (jmemb_put J e k v)) (cs[i := c'])" .
  moreover have "jdoc (jelem_put J root i (jmemb_put J e k v))"
    using doc_elem_put [OF assms(3) _ e] doc_elem [OF assms(3) _ e] assms(2,5) sz
      doc_memb_put [OF _ text_field [OF assms(4)] m] by simp
  ultimately show ?thesis using e m by (auto simp: set_memb_def memb_def)
qed

lemma pack_put:
  assumes "pack_container_info J e = Inr c" and "is_int32 n"
  shows "pack_container_info J (jmemb_put J e ''status'' (jint J n)) = Inr (c\<lparr>status := status_of_int n\<rparr>)"
    and "pack_container_info J (jmemb_put J e ''pid'' (jint J n)) = Inr (c\<lparr>pid := n\<rparr>)"
    and "pack_container_info J (jmemb_put J e ''stop_time'' (jint J n)) = Inr c"
proof -
  from pack_fields(1) [OF assms(1)] obtain m0 where m0: "jmemb J e ''id'' = Some m0" by blast
  have put: "jmemb J (jmemb_put J e k v) k' = (if k' = k then Some v else jmemb J e k')" for k k' v
    using memb_all [OF m0, of k] memb_put_same [of e k _ v] memb_put_other [of e k _ k' v] by auto
  show "pack_container_info J (jmemb_put J e ''status'' (jint J n)) = Inr (c\<lparr>status := status_of_int n\<rparr>)"
    using assms by (auto simp: pack_container_info_def memb_def as_int_def put asInt_int rbind_eq_Inr of_opt_eq_Inr)
  show "pack_container_info J (jmemb_put J e ''pid'' (jint J n)) = Inr (c\<lparr>pid := n\<rparr>)"
    using assms by (auto simp: pack_container_info_def memb_def as_int_def put asInt_int rbind_eq_Inr of_opt_eq_Inr)
  show "pack_container_info J (jmemb_put J e ''stop_time'' (jint J n)) = Inr c"
    using assms by (auto simp: pack_container_info_def memb_def put rbind_eq_Inr of_opt_eq_Inr)
qed

lemma find_by_rows:
  assumes "rows J root cs" and "jdoc root" and "\<forall>i \<in> set ixs. i < length cs" and "field_name key"
    and sel: "\<And>e c. pack_container_info J e = Inr c \<Longrightarrow> \<exists>m. jmemb J e key = Some m \<and> jasString J m = Some (sel c)"
  shows "find_by J key v root ixs = Inr (find (\<lambda>c. sel c = v) (map ((!) cs) ixs))"
  using assms(1-3)
proof (induction ixs arbitrary: root)
  case Nil
  then show ?case by simp
next
  case (Cons i ixs)
  from Cons.prems(3) have i: "i < length cs" by simp
  from ref_memb_rows [OF Cons.prems(1) i Cons.prems(2) assms(4), of "\<lambda>m. jasString J m = Some (sel (cs ! i))"] sel
  obtain m root' where m: "ref_memb J root i key = Inr (m, root')" "jasString J m = Some (sel (cs ! i))"
    and r: "rows J root' cs" "jdoc root'" by blast
  from r(1) i obtain e where "jelem J root' i = Some e" "pack_container_info J e = Inr (cs ! i)"
    by (auto simp: rows_def)
  with m r Cons.IH [of root'] Cons.prems(3) show ?case by (simp add: as_string_def)
qed

lemma pack_rows_rows:
  assumes "rows J root cs" and "\<forall>i \<in> set ixs. i < length cs"
  shows "pack_rows J root ixs = Inr (map ((!) cs) ixs)"
  using assms(2)
proof (induction ixs)
  case Nil
  then show ?case by simp
next
  case (Cons i ixs)
  with assms(1) obtain e where "jelem J root i = Some e" "pack_container_info J e = Inr (cs ! i)"
    by (auto simp: rows_def)
  with Cons show ?case by simp
qed

lemma sync_row_rows:
  assumes "rows J root cs" and "jdoc root" and "i < length cs"
  shows "\<exists>root' f'. sync_row J env root i f = Inr (root', f') \<and> jdoc root' \<and>
    rows J root' (cs[i := sync_info env (cs ! i)]) \<and>
    (f' = f \<and> (sync_info env (cs ! i) = cs ! i \<or> \<not> writable env) \<or> f' = Some (jstyled J root'))"
proof -
  let ?c = "cs ! i"
  from ref_memb_rows [OF assms(1,3,2), of "''status''" "\<lambda>m. \<exists>n. jasInt J m = Some n \<and> status ?c = status_of_int n"]
    pack_fields(4)
  obtain m root1 n where r1: "ref_memb J root i ''status'' = Inr (m, root1)" "jasInt J m = Some n"
    "status ?c = status_of_int n" "rows J root1 cs" "jdoc root1" by fastforce
  show ?thesis
  proof (cases "status ?c = CONTAINER_RUNNING")
    case False
    with r1 show ?thesis by (auto simp: sync_row_def as_int_def sync_info_def)
  next
    case True
    with r1(3) have n: "n = 0" by (metis status_of_int_running)
    from ref_memb_rows [OF r1(4) assms(3) r1(5), of "''pid''" "\<lambda>m. jasInt J m = Some (pid ?c)"] pack_fields(3)
    obtain p root2 where r2: "ref_memb J root1 i ''pid'' = Inr (p, root2)" "jasInt J p = Some (pid ?c)"
      "rows J root2 cs" "jdoc root2" by fastforce
    show ?thesis
    proof (cases "proc_alive env (pid ?c)")
      case alive: True
      with r1 r2 n show ?thesis by (auto simp: sync_row_def as_int_def sync_info_def)
    next
      case dead: False
      let ?c1 = "?c\<lparr>status := CONTAINER_STOPED\<rparr>" and ?c2 = "?c\<lparr>status := CONTAINER_STOPED, pid := 0\<rparr>"
      have int: "is_int32 0" "is_int32 1" by (simp_all add: is_int32_def)
      from set_memb_rows [OF r2(3) assms(3) r2(4), of "''status''" "jint J 1" ?c1] pack_put(1) [OF _ int(2)]
      obtain root3 where r3: "set_memb J root2 i ''status'' (jint J 1) = Inr root3"
        "rows J root3 (cs[i := ?c1])" "jdoc root3" by (auto simp: doc_int)
      from set_memb_rows [OF r3(2) _ r3(3), of i "''stop_time''" "jint J (to_int32 (now env))" ?c1]
        pack_put(3) assms(3)
      obtain root4 where r4: "set_memb J root3 i ''stop_time'' (jint J (to_int32 (now env))) = Inr root4"
        "rows J root4 (cs[i := ?c1])" "jdoc root4" by (auto simp: doc_int)
      from set_memb_rows [OF r4(2) _ r4(3), of i "''pid''" "jint J 0" ?c2] pack_put(2) [OF _ int(1)] assms(3)
      obtain root5 where r5: "set_memb J root4 i ''pid'' (jint J 0) = Inr root5"
        "rows J root5 (cs[i := ?c2])" "jdoc root5" by (auto simp: doc_int)
      from True dead have "sync_info env ?c = ?c2" by (simp add: sync_info_def)
      with r1 r2 r3 r4 r5 n dead show ?thesis
        by (auto simp: sync_row_def as_int_def write_data_def)
    qed
  qed
qed

end

context json_library
begin

lemma find_id_or_name_rows:
  assumes "rows J root cs" and "jdoc root" and "\<forall>i \<in> set ixs. i < length cs"
  shows "case find (\<lambda>i. matches v (cs ! i)) ixs of
      None \<Rightarrow> find_id_or_name J env v root ixs f = Inr (None, f)
    | Some i \<Rightarrow> \<exists>f' root'. find_id_or_name J env v root ixs f = Inr (Some (sync_info env (cs ! i)), f') \<and>
        jdoc root' \<and> rows J root' (cs[i := sync_info env (cs ! i)]) \<and>
        (f' = f \<and> (sync_info env (cs ! i) = cs ! i \<or> \<not> writable env) \<or> f' = Some (jstyled J root'))"
  using assms
proof (induction ixs arbitrary: root)
  case Nil
  then show ?case by simp
next
  case (Cons i ixs)
  from Cons.prems(3) have i: "i < length cs" by simp
  from ref_memb_rows [OF Cons.prems(1) i Cons.prems(2), of "''name''" "\<lambda>m. jasString J m = Some (cname (cs ! i))"]
    pack_fields(2)
  obtain m root1 where r1: "ref_memb J root i ''name'' = Inr (m, root1)" "jasString J m = Some (cname (cs ! i))"
    "rows J root1 cs" "jdoc root1" by fastforce
  from ref_memb_rows [OF r1(3) i r1(4), of "''id''" "\<lambda>m. jasString J m = Some (cid (cs ! i))"] pack_fields(1)
  obtain m' root2 where r2: "ref_memb J root1 i ''id'' = Inr (m', root2)" "jasString J m' = Some (cid (cs ! i))"
    "rows J root2 cs" "jdoc root2" by fastforce
  define root3 where "root3 = (if cname (cs ! i) = v then root1 else root2)"
  have r3: "rows J root3 cs" "jdoc root3" using r1 r2 by (simp_all add: root3_def)
  have step: "find_id_or_name J env v root (i # ixs) f =
      (if matches v (cs ! i)
       then rbind (sync_row J env root3 i f) (\<lambda>(root4, f').
            rbind (of_opt JsonThrow (jelem J root4 i)) (\<lambda>e.
            rbind (pack_container_info J e) (\<lambda>c. Inr (Some c, f'))))
       else find_id_or_name J env v root3 ixs f)"
    using r1(1,2) r2(1,2) by (simp add: as_string_def root3_def)
  show ?case
  proof (cases "matches v (cs ! i)")
    case False
    with step have eq: "find_id_or_name J env v root (i # ixs) f = find_id_or_name J env v root3 ixs f"
      by (simp only: if_False)
    from False Cons.IH [OF r3] Cons.prems(3) show ?thesis
      unfolding eq by simp
  next
    case True
    from sync_row_rows [OF r3 i, of env f] obtain root4 f' where
      s: "sync_row J env root3 i f = Inr (root4, f')" "jdoc root4"
      "rows J root4 (cs[i := sync_info env (cs ! i)])"
      "f' = f \<and> (sync_info env (cs ! i) = cs ! i \<or> \<not> writable env) \<or> f' = Some (jstyled J root4)" by blast
    from s(3) i obtain e where "jelem J root4 i = Some e" "pack_container_info J e = Inr (sync_info env (cs ! i))"
      by (auto simp: rows_def)
    with s(1) step True have
      "find_id_or_name J env v root (i # ixs) f = Inr (Some (sync_info env (cs ! i)), f')" by simp
    with s(2-4) True show ?thesis by (auto simp del: find_id_or_name.simps)
  qed
qed

lemma update_loop_rows:
  assumes "rows J root cs" and "jdoc root" and "\<forall>i \<in> set ixs. i < length cs" and "storable jtext info"
  shows "\<exists>root'. update_loop J info root ixs = Inr root' \<and> jdoc root' \<and>
    rows J root' (case find (\<lambda>i. cid (cs ! i) = cid info) ixs of None \<Rightarrow> cs | Some i \<Rightarrow> cs[i := norm_info info])"
  using assms(1-3)
proof (induction ixs arbitrary: root)
  case Nil
  then show ?case by simp
next
  case (Cons i ixs)
  from Cons.prems(3) have i: "i < length cs" by simp
  from ref_memb_rows [OF Cons.prems(1) i Cons.prems(2), of "''id''" "\<lambda>m. jasString J m = Some (cid (cs ! i))"]
    pack_fields(1)
  obtain m root1 where r1: "ref_memb J root i ''id'' = Inr (m, root1)" "jasString J m = Some (cid (cs ! i))"
    "rows J root1 cs" "jdoc root1" by fastforce
  show ?case
  proof (cases "cid (cs ! i) = cid info")
    case False
    with r1 Cons.IH [OF r1(3,4)] Cons.prems(3) show ?thesis by (simp add: as_string_def)
  next
    case True
    from r1(3) i obtain e where e: "jelem J root1 i = Some e" "pack_container_info J e = Inr (cs ! i)"
      "jsize J root1 = length cs" by (auto simp: rows_def)
    from pack_fields(1) [OF e(2)] obtain m0 where "jmemb J e ''id'' = Some m0" by blast
    from de_pack_pack [OF assms(4) this] obtain e' where
      e': "de_pack_container_info J e info = Inr e'" "pack_container_info J e' = Inr (norm_info info)"
      "jdoc e \<longrightarrow> jdoc e'" by blast
    have "jdoc (jelem_put J root1 i e')"
      using doc_elem_put [OF r1(4) _ e(1)] doc_elem [OF r1(4) _ e(1)] e(3) i e'(3) by simp
    with r1 e e' True rows_put [OF r1(3) i e'(2)] show ?thesis by (simp add: as_string_def)
  qed
qed

lemma delete_loop_rows:
  assumes "rows J old cs" and "jdoc old" and "rows J new ds" and "jdoc new" and "\<forall>i \<in> set ixs. i < length cs"
  shows "\<exists>new'. delete_loop J (Some c) old new ixs = Inr new' \<and> jdoc new' \<and>
    rows J new' (ds @ filter (\<lambda>x. cid x \<noteq> cid c) (map ((!) cs) ixs))"
  using assms
proof (induction ixs arbitrary: old new ds)
  case Nil
  then show ?case by simp
next
  case (Cons i ixs)
  from Cons.prems(5) have i: "i < length cs" by simp
  from ref_memb_rows [OF Cons.prems(1) i Cons.prems(2), of "''id''" "\<lambda>m. jasString J m = Some (cid (cs ! i))"]
    pack_fields(1)
  obtain m old1 where r1: "ref_memb J old i ''id'' = Inr (m, old1)" "jasString J m = Some (cid (cs ! i))"
    "rows J old1 cs" "jdoc old1" by fastforce
  show ?case
  proof (cases "cid (cs ! i) = cid c")
    case True
    with r1 Cons.IH [OF r1(3,4) Cons.prems(3,4)] Cons.prems(5) show ?thesis by (simp add: as_string_def)
  next
    case False
    from r1(3) i obtain e where e: "jelem J old1 i = Some e" "pack_container_info J e = Inr (cs ! i)"
      "jsize J old1 = length cs" by (auto simp: rows_def)
    obtain w where w: "jappend J new e = Some w" using Cons.prems(3) by (auto simp: rows_def)
    have "jdoc w" using doc_append [OF Cons.prems(4) _ w] doc_elem [OF r1(4) _ e(1)] e(3) i by simp
    from Cons.IH [OF r1(3,4) rows_append [OF Cons.prems(3) w e(2)] this] Cons.prems(5) r1 e(1) w False
    show ?thesis by (simp add: as_string_def)
  qed
qed

text \<open>The operations on the file are operations on the table it stands for.\<close>

lemma dao_table_styled: "jdoc root \<Longrightarrow> rows J root cs \<Longrightarrow> dao_table J (Some (jstyled J root)) cs"
  by (auto simp: dao_table_def parse_styled)

lemma insert_table:
  assumes "dao_table J f cs" and "storable jtext info" and "writable env"
  shows "\<exists>f'. dao_insert J env info f = Inr f' \<and> dao_table J f' (cs @ [norm_info info])"
proof -
  define root where "root = (case f of None \<Rightarrow> jnull J | Some text \<Rightarrow> snd (jparse J text))"
  have root: "rows J root cs" "jdoc root"
    using assms(1) rows_null doc_null parse_doc
    by (auto simp: dao_table_def root_def split: option.splits)
  from de_pack_pack [OF assms(2) memb_null] doc_null obtain e where
    e: "de_pack_container_info J (jnull J) info = Inr e" "pack_container_info J e = Inr (norm_info info)" "jdoc e"
    by blast
  obtain w where w: "jappend J root e = Some w" using root(1) by (auto simp: rows_def)
  with e root assms(3) show ?thesis
    using dao_table_styled [OF doc_append [OF root(2) e(3) w] rows_append [OF root(1) w e(2)]]
    by (auto simp: dao_insert_def root_def [symmetric] write_data_def)
qed

lemma get_table:
  assumes "dao_table J f cs"
  shows "get_container_by_id J v f = Inr (find (\<lambda>c. cid c = v) cs)"
    and "get_container_by_name J v f = Inr (find (\<lambda>c. cname c = v) cs)"
proof -
  have "get_container_by J key v f = Inr (find (\<lambda>c. sel c = v) cs)"
    if "field_name key"
      "\<And>e c. pack_container_info J e = Inr c \<Longrightarrow> \<exists>m. jmemb J e key = Some m \<and> jasString J m = Some (sel c)"
    for key and sel :: "container_info \<Rightarrow> string"
  proof (cases f)
    case None
    with assms show ?thesis by (simp add: get_container_by_def dao_table_def)
  next
    case (Some t)
    with assms obtain root where p: "jparse J t = (True, root)" and r: "rows J root cs"
      by (auto simp: dao_table_def)
    from find_by_rows [OF r parse_doc [OF p] _ that, where v = v and ixs = "[0..<length cs]"] Some p r
    show ?thesis
      by (auto simp: get_container_by_def rows_def map_nth)
  qed
  note by_key = this
  show "get_container_by_id J v f = Inr (find (\<lambda>c. cid c = v) cs)"
    unfolding get_container_by_id_def by (rule by_key) (auto dest: pack_fields(1))
  show "get_container_by_name J v f = Inr (find (\<lambda>c. cname c = v) cs)"
    unfolding get_container_by_name_def by (rule by_key) (auto dest: pack_fields(2))
qed

lemma lookup_table:
  assumes "dao_table J f cs" and "writable env"
  shows "\<exists>f'. get_container_by_id_or_name J env v f = Inr (map_option (sync_info env) (find (matches v) cs), f') \<and>
    dao_table J f' (upd_first (matches v) (sync_info env) cs) \<and> (f' = None \<longleftrightarrow> f = None)"
proof (cases f)
  case None
  with assms(1) show ?thesis by (auto simp: get_container_by_id_or_name_def dao_table_def)
next
  case (Some t)
  with assms(1) obtain root where p: "jparse J t = (True, root)" and r: "rows J root cs"
    by (auto simp: dao_table_def)
  then have sz: "jsize J root = length cs" by (simp add: rows_def)
  have run: "get_container_by_id_or_name J env v f =
      (if cs = [] then Inr (None, f) else find_id_or_name J env v root [0..<length cs] f)"
    using Some p sz by (simp add: get_container_by_id_or_name_def)
  note spec = find_id_or_name_rows [OF r parse_doc [OF p],
      where ixs = "[0..<length cs]" and v = v and env = env and f = f]
  show ?thesis
  proof (cases "find (\<lambda>i. matches v (cs ! i)) [0..<length cs]")
    case None
    then have none: "find (matches v) cs = None"
      by (rule find_index_none [THEN iffD1])
    with run spec None assms(1) Some show ?thesis
      by (auto simp: upd_first_none [OF none])
  next
    case (Some i)
    note idx = upd_first_index [OF Some, of "sync_info env"]
    from spec Some obtain f' root' where s:
      "find_id_or_name J env v root [0..<length cs] f = Inr (Some (sync_info env (cs ! i)), f')" "jdoc root'"
      "rows J root' (cs[i := sync_info env (cs ! i)])"
      "f' = f \<and> (sync_info env (cs ! i) = cs ! i \<or> \<not> writable env) \<or> f' = Some (jstyled J root')"
      by auto
    have "dao_table J f' (cs[i := sync_info env (cs ! i)])"
      using s(4) assms dao_table_styled [OF s(2,3)] by (elim disjE) auto
    moreover have "cs \<noteq> []" using idx by auto
    ultimately show ?thesis using run s(1,4) idx \<open>f = Some t\<close> by auto
  qed
qed

lemma list_table:
  assumes "dao_table J f cs"
  shows "dao_list J f = Inr (if cs = [] then None else Some cs)"
proof (cases f)
  case None
  with assms show ?thesis by (simp add: dao_list_def dao_table_def)
next
  case (Some t)
  with assms obtain root where p: "jparse J t = (True, root)" and r: "rows J root cs"
    by (auto simp: dao_table_def)
  from pack_rows_rows [OF r, of "[0..<length cs]"] Some p r show ?thesis
    by (auto simp: dao_list_def rows_def map_nth)
qed

lemma update_table:
  assumes "dao_table J f cs" and "f \<noteq> None" and "storable jtext info" and "writable env"
  shows "\<exists>f'. dao_update J env info f = Inr f' \<and> f' \<noteq> None \<and>
    dao_table J f' (upd_first (\<lambda>c. cid c = cid info) (\<lambda>_. norm_info info) cs)"
proof -
  from assms(2) obtain t where t: "f = Some t" by auto
  with assms(1) obtain root where p: "jparse J t = (True, root)" and r: "rows J root cs"
    by (auto simp: dao_table_def)
  then have sz: "jsize J root = length cs" by (simp add: rows_def)
  obtain f3 where f3: "(if jsize J root = 0 then dao_insert J env info f else Inr f) = Inr f3"
    using insert_table [OF assms(1,3,4)] by (cases "jsize J root = 0") auto
  from update_loop_rows [OF r parse_doc [OF p] _ assms(3), of "[0..<length cs]"] obtain root' where
    u: "update_loop J info root [0..<length cs] = Inr root'" "jdoc root'"
    "rows J root' (case find (\<lambda>i. cid (cs ! i) = cid info) [0..<length cs] of
       None \<Rightarrow> cs | Some i \<Rightarrow> cs[i := norm_info info])" by auto
  have "(case find (\<lambda>i. cid (cs ! i) = cid info) [0..<length cs] of None \<Rightarrow> cs | Some i \<Rightarrow> cs[i := norm_info info])
      = upd_first (\<lambda>c. cid c = cid info) (\<lambda>_. norm_info info) cs"
    using upd_first_index [of "\<lambda>c. cid c = cid info" cs _ "\<lambda>_. norm_info info"]
      find_index_none [of "\<lambda>c. cid c = cid info" cs]
    by (auto simp: upd_first_none split: option.splits)
  with u dao_table_styled [OF u(2)] have
    "dao_table J (Some (jstyled J root')) (upd_first (\<lambda>c. cid c = cid info) (\<lambda>_. norm_info info) cs)" by simp
  moreover have "dao_update J env info f = Inr (Some (jstyled J root'))"
  proof (cases "cs = []")
    case True
    with f3 sz have "dao_insert J env info f = Inr f3" by simp
    with True p u(1) sz assms(4) show ?thesis by (simp add: dao_update_def write_data_def t)
  next
    case False
    with p u(1) sz assms(4) show ?thesis by (simp add: dao_update_def write_data_def t)
  qed
  ultimately show ?thesis by auto
qed

lemma delete_table:
  assumes "dao_table J f cs" and "writable env" and "find (matches v) cs = Some c"
  shows "\<exists>f'. delete_by_id J env v f = Inr f' \<and>
    dao_table J f' (filter (\<lambda>x. cid x \<noteq> cid c) (upd_first (matches v) (sync_info env) cs))"
proof -
  let ?cs = "upd_first (matches v) (sync_info env) cs"
  from lookup_table [OF assms(1,2), of v] assms(3) obtain f1 where
    g: "get_container_by_id_or_name J env v f = Inr (Some (sync_info env c), f1)"
    "dao_table J f1 ?cs" "f1 = None \<longleftrightarrow> f = None" by auto
  have "f \<noteq> None" using assms(1,3) by (cases f) (auto simp: dao_table_def)
  with g obtain t root where t: "f1 = Some t" and p: "jparse J t = (True, root)" and r: "rows J root ?cs"
    by (auto simp: dao_table_def)
  have "length ?cs = length cs" for g :: "container_info \<Rightarrow> container_info"
    by (induction cs) auto
  moreover have "cs \<noteq> []" using assms(3) by auto
  ultimately have ne: "?cs \<noteq> []" by (metis length_0_conv)
  then have sz: "jsize J root = length ?cs" "jsize J root \<noteq> 0" using r by (simp_all add: rows_def)
  from delete_loop_rows [OF r parse_doc [OF p] rows_null doc_null, of "[0..<length ?cs]" "sync_info env c"]
  obtain new where n: "delete_loop J (Some (sync_info env c)) root (jnull J) [0..<length ?cs] = Inr new" "jdoc new"
    "rows J new (filter (\<lambda>x. cid x \<noteq> cid (sync_info env c)) ?cs)" by (auto simp: map_nth)
  have "cid (sync_info env c) = cid c" by (simp add: sync_info_def)
  with n dao_table_styled [OF n(2,3)] g(1) t p sz assms(2) show ?thesis
    by (simp add: delete_by_id_def write_data_def)
qed

end

end
