(* ===== verification/ContainerStore.thy ===== *)
theory ContainerStore
  imports ContainerDao
begin

text \<open>
  What the rest of the program relies on when it calls \<open>ContainerDao\<close>: the locale
  \<open>container_store\<close> states the contract of the table operations on a list of descriptions, its
  lemmas are what the clients use, and \<open>json_library\<close> is shown to provide it with the model of
  \<open>container_dao.cpp\<close> (and so the JSON implementation of \<open>JsonLib\<close>).
\<close>

section \<open>The contract\<close>

text \<open>The descriptions a data file holds: storable, already reduced to what a record keeps, and with
  distinct identifiers.\<close>

definition dao_state :: "'j jsoncpp \<Rightarrow> (string \<Rightarrow> bool) \<Rightarrow> data_file \<Rightarrow> container_info list \<Rightarrow> bool" where
  "dao_state J jtext f cs \<longleftrightarrow>
     dao_table J f cs \<and> (\<forall>c \<in> set cs. storable jtext c \<and> norm_info c = c) \<and> distinct (map cid cs)"

text \<open>A container after \<open>change_status_to_stop\<close>.\<close>

definition stopped :: "container_info \<Rightarrow> container_info" where
  "stopped c = c\<lparr>status := CONTAINER_STOPED, abnormal_stoped := 0, pid := 0\<rparr>"

locale container_store =
  fixes tab :: "'f \<Rightarrow> container_info list \<Rightarrow> bool"
    and ok :: "container_info \<Rightarrow> bool"
    and insert_op :: "dao_env \<Rightarrow> container_info \<Rightarrow> 'f \<Rightarrow> 'f res"
    and update_op :: "dao_env \<Rightarrow> container_info \<Rightarrow> 'f \<Rightarrow> 'f res"
    and delete_op :: "dao_env \<Rightarrow> string \<Rightarrow> 'f \<Rightarrow> 'f res"
    and stop_op :: "dao_env \<Rightarrow> string \<Rightarrow> 'f \<Rightarrow> 'f res"
    and lookup_op :: "dao_env \<Rightarrow> string \<Rightarrow> 'f \<Rightarrow> (container_info option \<times> 'f) res"
    and by_id_op :: "string \<Rightarrow> 'f \<Rightarrow> container_info option res"
    and by_name_op :: "string \<Rightarrow> 'f \<Rightarrow> container_info option res"
    and list_op :: "'f \<Rightarrow> container_info list option res"
  assumes tab_ok: "tab f cs \<Longrightarrow> c \<in> set cs \<Longrightarrow> ok c \<and> norm_info c = c"
    and tab_distinct: "tab f cs \<Longrightarrow> distinct (map cid cs)"
    and insert_law: "tab f cs \<Longrightarrow> ok c \<Longrightarrow> cid c \<notin> cid ` set cs \<Longrightarrow> writable env \<Longrightarrow>
      \<exists>f'. insert_op env c f = Inr f' \<and> tab f' (cs @ [norm_info c])"
    and update_law: "tab f cs \<Longrightarrow> ok c \<Longrightarrow> cid c \<in> cid ` set cs \<Longrightarrow> writable env \<Longrightarrow>
      \<exists>f'. update_op env c f = Inr f' \<and> tab f' (upd_first (\<lambda>x. cid x = cid c) (\<lambda>_. norm_info c) cs)"
    and delete_law: "tab f cs \<Longrightarrow> find (matches v) cs = Some c \<Longrightarrow> writable env \<Longrightarrow>
      \<exists>f'. delete_op env v f = Inr f' \<and> tab f' (filter (\<lambda>x. cid x \<noteq> cid c) cs)"
    and stop_law: "tab f cs \<Longrightarrow> find (matches v) cs = Some c \<Longrightarrow> writable env \<Longrightarrow>
      \<exists>f'. stop_op env v f = Inr f' \<and> tab f' (upd_first (matches v) stopped cs)"
    and stop_unknown: "tab f cs \<Longrightarrow> find (matches v) cs = None \<Longrightarrow> writable env \<Longrightarrow>
      stop_op env v f = Inl EmptyOptional"
    and lookup_law: "tab f cs \<Longrightarrow> writable env \<Longrightarrow>
      \<exists>f'. lookup_op env v f = Inr (map_option (sync_info env) (find (matches v) cs), f') \<and>
        tab f' (upd_first (matches v) (sync_info env) cs)"
    and by_id_law: "tab f cs \<Longrightarrow> by_id_op v f = Inr (find (\<lambda>c. cid c = v) cs)"
    and by_name_law: "tab f cs \<Longrightarrow> by_name_op v f = Inr (find (\<lambda>c. cname c = v) cs)"
    and list_law: "tab f cs \<Longrightarrow> list_op f = Inr (if cs = [] then None else Some cs)"
begin

lemma insert_then_listed:
  assumes "tab f cs" and "ok c" and "cid c \<notin> cid ` set cs" and "writable env"
  shows "\<exists>f'. insert_op env c f = Inr f' \<and> list_op f' = Inr (Some (cs @ [norm_info c])) \<and>
    by_id_op (cid c) f' = Inr (Some (norm_info c))"
proof -
  from insert_law [OF assms] obtain f' where f': "insert_op env c f = Inr f'" "tab f' (cs @ [norm_info c])"
    by blast
  have "find (\<lambda>x. cid x = cid c) cs = None" using assms(3) by (auto simp: find_None_iff image_iff)
  moreover have "cid (norm_info c) = cid c" by (simp add: norm_info_def)
  ultimately have "find (\<lambda>x. cid x = cid c) (cs @ [norm_info c]) = Some (norm_info c)"
    by (induction cs) (auto split: if_splits)
  with f' show ?thesis using list_law [OF f'(2)] by_id_law [OF f'(2)] by simp
qed

text \<open>A lookup never reports a container as running when its process has gone.\<close>

lemma lookup_running_alive:
  assumes "tab f cs" and "writable env" and "lookup_op env v f = Inr (Some c, f')"
    and "status c = CONTAINER_RUNNING"
  shows "proc_alive env (pid c)"
proof -
  from lookup_law [OF assms(1,2), of v] assms(3) obtain c0 where "c = sync_info env c0"
    by (cases "find (matches v) cs") auto
  with assms(4) show ?thesis by (auto simp: sync_info_def split: if_splits)
qed

lemma delete_then_gone:
  assumes "tab f cs" and "find (matches v) cs = Some c" and "writable env"
  shows "\<exists>f'. delete_op env v f = Inr f' \<and> by_id_op (cid c) f' = Inr None \<and>
    (\<forall>i. i \<noteq> cid c \<longrightarrow> by_id_op i f' = by_id_op i f)"
proof -
  from delete_law [OF assms] obtain f' where f': "delete_op env v f = Inr f'"
    "tab f' (filter (\<lambda>x. cid x \<noteq> cid c) cs)" by blast
  have "find (\<lambda>x. cid x = cid c) (filter (\<lambda>x. cid x \<noteq> cid c) cs) = None"
    by (auto simp: find_None_iff)
  moreover have "find (\<lambda>x. cid x = i) (filter (\<lambda>x. cid x \<noteq> cid c) cs) = find (\<lambda>x. cid x = i) cs"
    if "i \<noteq> cid c" for i using that by (induction cs) auto
  ultimately show ?thesis
    using f' by (auto simp: by_id_law [OF f'(2)] by_id_law [OF assms(1)])
qed

lemma find_upd_first_same:
  assumes "find P cs = Some c" and "P (g c)"
  shows "find P (upd_first P g cs) = Some (g c)"
  using assms by (induction cs) (auto split: if_splits)

text \<open>Stopping marks exactly the container named, and it is found under the same name afterwards.\<close>

lemma stop_then_stopped:
  assumes "tab f cs" and "find (matches v) cs = Some c" and "writable env"
  shows "\<exists>f' f''. stop_op env v f = Inr f' \<and> tab f' (upd_first (matches v) stopped cs) \<and>
    lookup_op env v f' = Inr (Some (stopped c), f'')"
proof -
  from stop_law [OF assms] obtain f' where f': "stop_op env v f = Inr f'"
    "tab f' (upd_first (matches v) stopped cs)" by blast
  from assms(2) have "matches v c" by (auto simp: find_Some_iff)
  then have "matches v (stopped c)" by (simp add: stopped_def)
  with find_upd_first_same [where P = "matches v" and g = stopped and c = c and cs = cs] assms(2)
  have "find (matches v) (upd_first (matches v) stopped cs) = Some (stopped c)" by simp
  with lookup_law [OF f'(2) assms(3), of v] f' show ?thesis
    by (auto simp: sync_info_def stopped_def)
qed

end

section \<open>The model of \<open>container_dao.cpp\<close> fulfils the contract\<close>

lemma storable_sync [simp]: "storable jtext c \<Longrightarrow> storable jtext (sync_info env c)"
  by (auto simp: storable_def sync_info_def is_int32_def)

lemma storable_norm [simp]: "storable jtext c \<Longrightarrow> storable jtext (norm_info c)"
  by (simp add: storable_def norm_info_def)

lemma norm_norm [simp]: "norm_info (norm_info c) = norm_info c"
  by (simp add: norm_info_def)

lemma norm_sync [simp]: "norm_info c = c \<Longrightarrow> norm_info (sync_info env c) = sync_info env c"
  by (cases c) (auto simp: norm_info_def sync_info_def)

lemma cid_simps [simp]: "cid (norm_info c) = cid c" "cid (sync_info env c) = cid c" "cid (stopped c) = cid c"
  by (simp_all add: norm_info_def sync_info_def stopped_def)

lemma cname_simps [simp]:
  "cname (norm_info c) = cname c" "cname (sync_info env c) = cname c" "cname (stopped c) = cname c"
  by (simp_all add: norm_info_def sync_info_def stopped_def)

lemma upd_first_set: "x \<in> set (upd_first P g cs) \<Longrightarrow> x \<in> set cs \<or> (\<exists>c \<in> set cs. P c \<and> x = g c)"
  by (induction cs) (auto split: if_splits)

lemma upd_first_map: "(\<And>c. c \<in> set cs \<Longrightarrow> P c \<Longrightarrow> h (g c) = h c) \<Longrightarrow> map h (upd_first P g cs) = map h cs"
  by (induction cs) auto

text \<open>With distinct identifiers, replacing the row of the first match by its identifier is
  replacing the first match.\<close>

lemma upd_first_by_id:
  assumes "distinct (map cid cs)" and "find P cs = Some c"
  shows "upd_first (\<lambda>x. cid x = cid c) g cs = upd_first P g cs"
  using assms
proof (induction cs)
  case (Cons x cs)
  show ?case
  proof (cases "P x")
    case True
    with Cons.prems show ?thesis by simp
  next
    case False
    with Cons.prems have "find P cs = Some c" by simp
    moreover from this have "c \<in> set cs" by (auto simp: find_Some_iff)
    ultimately show ?thesis using False Cons by auto
  qed
qed simp

lemma upd_first_twice:
  "(\<And>c. P c \<Longrightarrow> P (g c)) \<Longrightarrow> upd_first P h (upd_first P g cs) = upd_first P (h \<circ> g) cs"
  by (induction cs) auto

lemma dao_state_upd:
  assumes "dao_state J jtext f cs" and "dao_table J f' (upd_first P g cs)"
    and "\<And>c. c \<in> set cs \<Longrightarrow> P c \<Longrightarrow> storable jtext (g c) \<and> norm_info (g c) = g c \<and> cid (g c) = cid c"
  shows "dao_state J jtext f' (upd_first P g cs)"
  using assms upd_first_map [of cs P cid g]
  by (auto simp: dao_state_def dest!: upd_first_set)

context json_library
begin

lemma stop_table:
  assumes "dao_state J jtext f cs" and "find (matches v) cs = Some c" and "writable env"
  shows "\<exists>f'. change_status_to_stop J env v f = Inr f' \<and> dao_state J jtext f' (upd_first (matches v) stopped cs)"
proof -
  let ?cs = "upd_first (matches v) (sync_info env) cs"
  let ?c = "sync_info env c"
  have mem: "c \<in> set cs" "matches v c" using assms(2) by (auto simp: find_Some_iff)
  from lookup_table [of f cs env v] assms obtain f1 where
    l: "get_container_by_id_or_name J env v f = Inr (Some ?c, f1)" "dao_table J f1 ?cs"
    "f1 = None \<longleftrightarrow> f = None" by (auto simp: dao_state_def)
  have "f \<noteq> None" using assms(1) mem(1) by (cases f) (auto simp: dao_state_def dao_table_def)
  with l(3) have f1: "f1 \<noteq> None" by simp
  let ?d = "?c\<lparr>status := CONTAINER_STOPED, abnormal_stoped := 0, stop_time := now env, pid := 0\<rparr>"
  have "storable jtext c" and nc: "norm_info c = c" using assms(1) mem(1) by (auto simp: dao_state_def)
  then have ok: "storable jtext ?d" by (auto simp: storable_def sync_info_def is_int32_def)
  have "norm_info ?d = stopped c"
  proof -
    have "norm_info ?d = stopped (norm_info c)" by (simp add: norm_info_def stopped_def sync_info_def)
    then show ?thesis by (simp only: nc)
  qed
  with update_table [OF l(2) f1 ok assms(3)] obtain f' where f': "dao_update J env ?d f1 = Inr f'"
    "dao_table J f' (upd_first (\<lambda>x. cid x = cid c) (\<lambda>_. stopped c) ?cs)" by auto
  have dist: "distinct (map cid ?cs)"
    using assms(1) upd_first_map [of cs "matches v" cid "sync_info env"] by (simp add: dao_state_def)
  have "find (matches v) ?cs = Some ?c" using assms(2) mem(2)
    by (induction cs) (auto split: if_splits)
  from upd_first_by_id [OF dist this, of "\<lambda>_. stopped c"]
  have "upd_first (\<lambda>x. cid x = cid c) (\<lambda>_. stopped c) ?cs = upd_first (matches v) (\<lambda>_. stopped c) ?cs" by simp
  also have "\<dots> = upd_first (matches v) stopped cs"
    using assms(2) by (induction cs) (auto split: if_splits)
  finally have "dao_table J f' (upd_first (matches v) stopped cs)" using f'(2) by simp
  moreover have "storable jtext x \<and> norm_info x = x \<Longrightarrow> storable jtext (stopped x) \<and> norm_info (stopped x) = stopped x" for x
    by (cases x) (auto simp: storable_def stopped_def is_int32_def norm_info_def)
  ultimately have "dao_state J jtext f' (upd_first (matches v) stopped cs)"
    using assms(1) by (intro dao_state_upd [OF assms(1)]) (auto simp: dao_state_def)
  with l(1) f'(1) show ?thesis by (auto simp: change_status_to_stop_def)
qed

end

sublocale json_library \<subseteq> store: container_store "dao_state J jtext" "storable jtext" "dao_insert J"
  "dao_update J" "delete_by_id J" "change_status_to_stop J" "get_container_by_id_or_name J"
  "get_container_by_id J" "get_container_by_name J" "dao_list J"
proof (unfold_locales, goal_cases)
  case (1 f cs c)
  then show ?case by (simp add: dao_state_def)
next
  case (2 f cs)
  then show ?case by (simp add: dao_state_def)
next
  case (3 f cs c env)
  from insert_table [of f cs c env] 3 show ?case by (auto simp: dao_state_def image_iff)
next
  case (4 f cs c env)
  have ne: "f \<noteq> None" using 4 by (cases f) (auto simp: dao_state_def dao_table_def)
  from update_table [OF _ ne, of cs c env] 4 obtain f' where "dao_update J env c f = Inr f'"
    "dao_table J f' (upd_first (\<lambda>x. cid x = cid c) (\<lambda>_. norm_info c) cs)" by (auto simp: dao_state_def)
  with 4 dao_state_upd [of J jtext f cs f' "\<lambda>x. cid x = cid c" "\<lambda>_. norm_info c"] show ?case by auto
next
  case (5 f cs v c env)
  from delete_table [of f cs env v c] 5 obtain f' where "delete_by_id J env v f = Inr f'"
    "dao_table J f' (filter (\<lambda>x. cid x \<noteq> cid c) (upd_first (matches v) (sync_info env) cs))"
    by (auto simp: dao_state_def)
  moreover have "filter (\<lambda>x. cid x \<noteq> cid c) (upd_first (matches v) (sync_info env) cs) = filter (\<lambda>x. cid x \<noteq> cid c) cs"
    using 5(2) by (induction cs) (auto split: if_splits)
  ultimately show ?case using 5(1) by (auto simp: dao_state_def distinct_map_filter)
next
  case (6 f cs v c env)
  then show ?case by (rule stop_table)
next
  case (7 f cs v env)
  from lookup_table [of f cs env v] 7 show ?case
    by (auto simp: dao_state_def change_status_to_stop_def)
next
  case (8 f cs env v)
  from lookup_table [of f cs env v] 8 obtain f' where
    "get_container_by_id_or_name J env v f = Inr (map_option (sync_info env) (find (matches v) cs), f')"
    "dao_table J f' (upd_first (matches v) (sync_info env) cs)" by (auto simp: dao_state_def)
  moreover from this have "dao_state J jtext f' (upd_first (matches v) (sync_info env) cs)"
    using 8(1) by (intro dao_state_upd [OF 8(1)]) (auto simp: dao_state_def)
  ultimately show ?case by auto
next
  case (9 f cs v)
  then show ?case by (simp add: dao_state_def get_table)
next
  case (10 f cs v)
  then show ?case by (simp add: dao_state_def get_table)
next
  case (11 f cs)
  then show ?case by (simp add: dao_state_def list_table)
qed

text \<open>The interpretation \<open>jimpl\<close> of \<open>json_library\<close> carries over: \<open>jimpl.store\<close> is the contract for
  the operations running on the JSON implementation of \<open>JsonLib\<close>.\<close>

section \<open>Sequences of table operations\<close>

text \<open>The calls the commands make on the table, and their effect on the data file.\<close>

datatype dao_op =
    Op_insert container_info
  | Op_update container_info
  | Op_delete string
  | Op_stop string
  | Op_lookup string

fun dao_step :: "'j jsoncpp \<Rightarrow> dao_env \<Rightarrow> dao_op \<Rightarrow> data_file \<Rightarrow> data_file res" where
  "dao_step J env (Op_insert c) f = dao_insert J env c f"
| "dao_step J env (Op_update c) f = dao_update J env c f"
| "dao_step J env (Op_delete v) f = delete_by_id J env v f"
| "dao_step J env (Op_stop v) f = change_status_to_stop J env v f"
| "dao_step J env (Op_lookup v) f = rbind (get_container_by_id_or_name J env v f) (\<lambda>(_, f'). Inr f')"

fun dao_run :: "'j jsoncpp \<Rightarrow> (dao_env \<times> dao_op) list \<Rightarrow> data_file \<Rightarrow> data_file res" where
  "dao_run J [] f = Inr f"
| "dao_run J ((env, op) # ops) f = rbind (dao_step J env op f) (dao_run J ops)"

text \<open>The same calls on a list of descriptions. \<open>None\<close> is a call outside the contract: an
  identifier used twice, a description that does not fit the file, a container that is not there.\<close>

fun spec_step :: "(container_info \<Rightarrow> bool) \<Rightarrow> dao_env \<Rightarrow> dao_op \<Rightarrow> container_info list \<Rightarrow> container_info list option" where
  "spec_step ok env (Op_insert c) cs =
     (if ok c \<and> cid c \<notin> cid ` set cs then Some (cs @ [norm_info c]) else None)"
| "spec_step ok env (Op_update c) cs =
     (if ok c \<and> cid c \<in> cid ` set cs then Some (upd_first (\<lambda>x. cid x = cid c) (\<lambda>_. norm_info c) cs) else None)"
| "spec_step ok env (Op_delete v) cs =
     (case find (matches v) cs of None \<Rightarrow> None | Some c \<Rightarrow> Some (filter (\<lambda>x. cid x \<noteq> cid c) cs))"
| "spec_step ok env (Op_stop v) cs =
     (case find (matches v) cs of None \<Rightarrow> None | Some _ \<Rightarrow> Some (upd_first (matches v) stopped cs))"
| "spec_step ok env (Op_lookup v) cs = Some (upd_first (matches v) (sync_info env) cs)"

fun spec_run :: "(container_info \<Rightarrow> bool) \<Rightarrow> (dao_env \<times> dao_op) list \<Rightarrow> container_info list \<Rightarrow> container_info list option" where
  "spec_run ok [] cs = Some cs"
| "spec_run ok ((env, op) # ops) cs =
     (if writable env
      then (case spec_step ok env op cs of None \<Rightarrow> None | Some cs' \<Rightarrow> spec_run ok ops cs')
      else None)"

context json_library
begin

lemma dao_step_refines:
  assumes "dao_state J jtext f cs" and "spec_step (storable jtext) env op cs = Some cs'" and "writable env"
  shows "\<exists>f'. dao_step J env op f = Inr f' \<and> dao_state J jtext f' cs'"
proof (cases op)
  case (Op_insert c)
  with assms store.insert_law [of f cs c env] show ?thesis by (auto split: if_splits)
next
  case (Op_update c)
  with assms store.update_law [of f cs c env] show ?thesis by (auto split: if_splits)
next
  case (Op_delete v)
  with assms store.delete_law [of f cs v] show ?thesis by (auto split: option.splits)
next
  case (Op_stop v)
  with assms store.stop_law [of f cs v] show ?thesis by (auto split: option.splits)
next
  case (Op_lookup v)
  with assms store.lookup_law [of f cs env v] show ?thesis by auto
qed

lemma dao_run_state:
  assumes "dao_state J jtext f cs" and "spec_run (storable jtext) ops cs = Some cs'"
  shows "\<exists>f'. dao_run J ops f = Inr f' \<and> dao_state J jtext f' cs'"
  using assms
proof (induction ops arbitrary: f cs)
  case (Cons p ops)
  obtain env op where p: "p = (env, op)" by force
  with Cons.prems(2) obtain cs1 where w: "writable env"
    and s: "spec_step (storable jtext) env op cs = Some cs1" "spec_run (storable jtext) ops cs1 = Some cs'"
    by (auto split: if_splits option.splits)
  from dao_step_refines [OF Cons.prems(1) s(1) w] obtain f1 where
    "dao_step J env op f = Inr f1" "dao_state J jtext f1 cs1" by blast
  with Cons.IH [OF this(2) s(2)] p show ?case by auto
qed simp

lemmas dao_store = store.container_store_axioms

lemma delete_unknown:
  assumes "dao_table J f cs" and "writable env" and "find (matches v) cs = None" and "cs \<noteq> []"
  shows "delete_by_id J env v f = Inl EmptyOptional"
proof -
  from lookup_table [OF assms(1,2), of v] assms(3) obtain f1 where
    g: "get_container_by_id_or_name J env v f = Inr (None, f1)" "dao_table J f1 cs" by (auto simp: upd_first_none)
  from g(2) assms(4) obtain t root where t: "f1 = Some t" "jparse J t = (True, root)" "rows J root cs"
    by (cases f1) (auto simp: dao_table_def)
  have sz: "jsize J root = length cs" using t(3) by (simp add: rows_def)
  from assms(4) have l: "0 < length cs" by simp
  from ref_memb_rows [OF t(3) l parse_doc [OF t(2)], of "''id''" "\<lambda>m. jasString J m = Some (cid (cs ! 0))"] pack_fields(1)
  obtain m root' where "ref_memb J root 0 ''id'' = Inr (m, root')" "jasString J m = Some (cid (cs ! 0))" by fastforce
  then have "delete_loop J None root (jnull J) [0..<length cs] = Inl EmptyOptional"
    using l by (simp add: upt_conv_Cons as_string_def)
  with g(1) t sz assms(4) show ?thesis by (simp add: delete_by_id_def)
qed

lemma no_file: "dao_state J jtext None []"
  by (simp add: dao_state_def dao_table_def)

end

lemma find_distinct_cid:
  "c \<in> set cs \<Longrightarrow> distinct (map cid cs) \<Longrightarrow> find (\<lambda>x. cid x = cid c) cs = Some c"
  by (induction cs) (auto simp: image_iff)

section \<open>Properties of the container table\<close>

abbreviation demo_env :: dao_env where
  "demo_env \<equiv> \<lparr>proc_alive = (\<lambda>p. p = 7), now = 1700000000, writable = True\<rparr>"

abbreviation demo_info :: container_info where
  "demo_info \<equiv> empty_info\<lparr>cid := ''a1'', cname := ''web'', pid := 9, command := ''bash'', create_time := 5,
     volume_list := [''/data:/data'']\<rparr>"

lemma demo_storable [simp]: "storable text_jv demo_info"
  by (simp add: storable_def text_jv_def empty_info_def is_int32_def is_set_def)

text \<open>The data file after the first container has been inserted.\<close>

definition demo_file :: data_file where
  "demo_file = (case dao_insert json_impl demo_env demo_info None of Inr f \<Rightarrow> f | Inl _ \<Rightarrow> None)"

lemma demo_file_state: "dao_state json_impl text_jv demo_file [demo_info]"
proof -
  have "norm_info demo_info = demo_info" by (simp add: norm_info_def to_int32_def empty_info_def)
  with jimpl.store.insert_law [OF jimpl.no_file demo_storable, of demo_env] show ?thesis
    by (auto simp: demo_file_def)
qed

lemma demo_find: "find (matches ''web'') [demo_info] = Some demo_info"
  by (simp add: empty_info_def)

lemma null_table: "dao_state json_impl text_jv (Some ''null'') []"
proof -
  have "jstyled json_impl (jnull json_impl) = ''null''" by (simp add: json_impl_def)
  with jimpl.dao_table_styled [OF jimpl.doc_null jimpl.rows_null] show ?thesis
    by (simp add: dao_state_def)
qed

text \<open>C1 (refinement): whatever sequence of insertions, updates, deletions, stops and lookups a set of
  commands makes on the data file, if each is allowed by the table contract, none of them fails and
  \<open>ContainerDao::list\<close> then returns exactly the list of descriptions that the same operations give on
  a plain list (or \<open>NULL\<close> when that list is empty).\<close>

theorem dao_run_refines:
  assumes "json_library J jdoc jtext"
    and "spec_run (storable jtext) ops [] = Some cs"
  shows "\<exists>f. dao_run J ops None = Inr f \<and> dao_list J f = Inr (if cs = [] then None else Some cs) \<and>
    (\<forall>v. get_container_by_id J v f = Inr (find (\<lambda>c. cid c = v) cs)) \<and>
    (\<forall>v. get_container_by_name J v f = Inr (find (\<lambda>c. cname c = v) cs))"
proof -
  note lib = json_library.dao_run_state [OF assms(1) json_library.no_file [OF assms(1)] assms(2)]
  then obtain f where f: "dao_run J ops None = Inr f" "dao_state J jtext f cs" by blast
  have t: "dao_table J f cs" using f(2) by (simp add: dao_state_def)
  from json_library.list_table [OF assms(1) t] json_library.get_table [OF assms(1) t] f(1)
  show ?thesis by auto
qed

theorem dao_run_refines_witness:
  "\<exists>f. dao_run json_impl [(demo_env, Op_insert demo_info), (demo_env, Op_stop ''web'')] None = Inr f \<and>
    dao_list json_impl f = Inr (Some [stopped demo_info])"
proof -
  have "spec_run (storable text_jv) [(demo_env, Op_insert demo_info), (demo_env, Op_stop ''web'')] [] =
      Some [stopped demo_info]"
    using demo_storable by (simp add: empty_info_def norm_info_def to_int32_def)
  from dao_run_refines [OF jimpl.json_library_axioms this] show ?thesis by auto
qed

text \<open>A description written into a JSON record and read back is the same description,
  but for the start and stop times, which the reader does not read, and a creation time beyond 32 bits,
  which is truncated. The record is written into a fresh value.\<close>

theorem container_record_roundtrip:
  assumes "json_library J jdoc jtext" and "storable jtext c"
  shows "\<exists>e. de_pack_container_info J (jnull J) c = Inr e \<and>
    pack_container_info J e =
      Inr (c\<lparr>create_time := to_int32 (create_time c), start_time := 0, stop_time := 0\<rparr>)"
  using json_library.de_pack_pack [OF assms, of "jnull J"] json_library.memb_null [OF assms(1)]
  by (fastforce simp: norm_info_def)

theorem container_record_roundtrip_witness:
  "\<exists>e. de_pack_container_info json_impl (jnull json_impl) demo_info = Inr e \<and>
    pack_container_info json_impl e = Inr demo_info"
  using container_record_roundtrip [OF jimpl.json_library_axioms demo_storable]
  by (simp add: to_int32_def empty_info_def)

text \<open>C16 (safety): a container that \<open>get_container_by_id_or_name\<close> reports as running has a process;
  one whose process has gone is reported stopped with pid 0, and recorded so in the data file.\<close>

theorem lookup_synchronises_status:
  assumes "json_library J jdoc jtext" and "dao_state J jtext f cs" and "writable env"
    and "find (matches v) cs = Some c"
  shows "\<exists>c' f'. get_container_by_id_or_name J env v f = Inr (Some c', f') \<and>
    (status c' = CONTAINER_RUNNING \<longrightarrow> c' = c \<and> proc_alive env (pid c)) \<and>
    (status c = CONTAINER_RUNNING \<and> \<not> proc_alive env (pid c) \<longrightarrow>
      c' = c\<lparr>status := CONTAINER_STOPED, pid := 0\<rparr> \<and> get_container_by_id J (cid c) f' = Inr (Some c'))"
proof -
  let ?cs = "upd_first (matches v) (sync_info env) cs"
  note store = container_store.lookup_law [OF json_library.dao_store [OF assms(1)]] container_store.by_id_law [OF json_library.dao_store [OF assms(1)]]
  from store(1) [OF assms(2,3), of v] assms(4) obtain f' where
    l: "get_container_by_id_or_name J env v f = Inr (Some (sync_info env c), f')" "dao_state J jtext f' ?cs" by auto
  have mem: "matches v (sync_info env c)" using assms(4) by (auto simp: find_Some_iff)
  have d: "distinct (map cid ?cs)" using l(2) by (simp add: dao_state_def)
  have "find (matches v) ?cs = Some (sync_info env c)"
    using assms(4) mem by (induction cs) (auto split: if_splits)
  then have "sync_info env c \<in> set ?cs" by (auto simp: find_Some_iff)
  then have "find (\<lambda>x. cid x = cid c) ?cs = Some (sync_info env c)"
    using d by (rule find_distinct_cid [of "sync_info env c", simplified])
  with store(2) [OF l(2), of "cid c"] l(1) show ?thesis
    by (auto simp: sync_info_def split: if_splits)
qed

theorem lookup_synchronises_status_witness:
  "\<exists>f'. get_container_by_id_or_name json_impl demo_env ''web'' demo_file =
      Inr (Some (demo_info\<lparr>status := CONTAINER_STOPED, pid := 0\<rparr>), f') \<and>
    get_container_by_id json_impl ''a1'' f' = Inr (Some (demo_info\<lparr>status := CONTAINER_STOPED, pid := 0\<rparr>))"
  using lookup_synchronises_status [OF jimpl.json_library_axioms demo_file_state _ demo_find, of demo_env]
  by (auto simp: empty_info_def)

text \<open>\<open>delete_by_id\<close> removes the container named and no other, and afterwards it is
  not found by its identifier.\<close>

theorem delete_removes_exactly_one:
  assumes "json_library J jdoc jtext" and "dao_state J jtext f cs" and "writable env"
    and "find (matches v) cs = Some c"
  shows "\<exists>f'. delete_by_id J env v f = Inr f' \<and> get_container_by_id J (cid c) f' = Inr None \<and>
    (\<forall>i. i \<noteq> cid c \<longrightarrow> get_container_by_id J i f' = get_container_by_id J i f)"
  by (rule container_store.delete_then_gone [OF json_library.dao_store [OF assms(1)] assms(2,4,3)])

theorem delete_removes_exactly_one_witness:
  "\<exists>f'. delete_by_id json_impl demo_env ''web'' demo_file = Inr f' \<and> get_container_by_id json_impl ''a1'' f' = Inr None"
  using delete_removes_exactly_one [OF jimpl.json_library_axioms demo_file_state _ demo_find, of demo_env]
  by (auto simp: empty_info_def)

text \<open>\<open>change_status_to_stop\<close> marks the container named as stopped, with pid 0, and
  leaves every other description of the table as it is.\<close>

theorem stop_marks_exactly_one:
  assumes "json_library J jdoc jtext" and "dao_state J jtext f cs" and "writable env"
    and "find (matches v) cs = Some c"
  shows "\<exists>f'. change_status_to_stop J env v f = Inr f' \<and>
    dao_list J f' = Inr (Some (upd_first (matches v) stopped cs)) \<and>
    (\<exists>f''. get_container_by_id_or_name J env v f' = Inr (Some (stopped c), f''))"
proof -
  from container_store.stop_then_stopped [OF json_library.dao_store [OF assms(1)] assms(2,4,3)] obtain f' f'' where
    f': "change_status_to_stop J env v f = Inr f'" "dao_state J jtext f' (upd_first (matches v) stopped cs)"
    "get_container_by_id_or_name J env v f' = Inr (Some (stopped c), f'')" by blast
  moreover have "upd_first (matches v) stopped cs \<noteq> []" using assms(4) by (cases cs) auto
  ultimately show ?thesis using container_store.list_law [OF json_library.dao_store [OF assms(1)] f'(2)] by auto
qed

theorem stop_marks_exactly_one_witness:
  "\<exists>f'. change_status_to_stop json_impl demo_env ''web'' demo_file = Inr f' \<and>
    dao_list json_impl f' = Inr (Some [stopped demo_info])"
  using stop_marks_exactly_one [OF jimpl.json_library_axioms demo_file_state _ demo_find, of demo_env]
  by (auto simp: empty_info_def)

text \<open>\<open>change_status_to_stop\<close> and, on a table with at least one row, \<open>delete_by_id\<close>
  dereference an empty \<open>optional\<close> when the name belongs to no container.\<close>

theorem unknown_name_dereferences_empty_optional:
  assumes "json_library J jdoc jtext" and "dao_state J jtext f cs" and "writable env"
    and "find (matches v) cs = None"
  shows "change_status_to_stop J env v f = Inl EmptyOptional \<and>
    (cs \<noteq> [] \<longrightarrow> delete_by_id J env v f = Inl EmptyOptional)"
  using container_store.stop_unknown [OF json_library.dao_store [OF assms(1)] assms(2,4,3)]
    json_library.delete_unknown [OF assms(1) _ assms(3,4)] assms(2) by (auto simp: dao_state_def)

theorem unknown_name_dereferences_empty_optional_witness:
  "change_status_to_stop json_impl demo_env ''db'' demo_file = Inl EmptyOptional \<and>
   delete_by_id json_impl demo_env ''db'' demo_file = Inl EmptyOptional"
proof -
  have "find (matches ''db'') [demo_info] = None" by (simp add: empty_info_def)
  from unknown_name_dereferences_empty_optional [OF jimpl.json_library_axioms demo_file_state _ this, of demo_env]
  show ?thesis by simp
qed

text \<open>\<open>ContainerDao::update\<close> on a table that has become empty (its last container was
  deleted) does not keep the record: it inserts it and then writes the empty document over it.\<close>

theorem update_empty_table_loses_record:
  assumes "json_library J jdoc jtext" and "dao_state J jtext (Some t) []" and "writable env"
    and "storable jtext c"
  shows "\<exists>f'. dao_update J env c (Some t) = Inr f' \<and> dao_list J f' = Inr None"
proof -
  have "dao_table J (Some t) []" using assms(2) by (simp add: dao_state_def)
  from json_library.update_table [OF assms(1) this _ assms(4,3)] obtain f' where
    f': "dao_update J env c (Some t) = Inr f'" "dao_table J f' []" by auto
  then show ?thesis using json_library.list_table [OF assms(1) f'(2)] by auto
qed
theorem update_empty_table_loses_record_witness:
  "\<exists>f'. dao_update json_impl demo_env demo_info (Some ''null'') = Inr f' \<and> dao_list json_impl f' = Inr None"
  using update_empty_table_loses_record [OF jimpl.json_library_axioms null_table _ demo_storable, of demo_env] by simp


end
