(* ===== verification/TableRace.thy ===== *)
theory TableRace
  imports ContainerStore
begin

text \<open>
  Two processes that insert into the table at the same time. \<open>ContainerDao::insert\<close> reads the whole data file,
  appends to what it has read, opens the file again, which truncates it, and writes the whole text; it takes no
  lock, so that between these steps of one process the other may do any of its own. A text is written in
  one call, from the beginning of the file.
\<close>

datatype ev = Reads nat | Opens nat | Writes nat

text \<open>The file, and what each process has read.\<close>

record race =
  on_disk :: data_file
  seen :: "nat \<Rightarrow> data_file"

text \<open>A text written at the beginning of a file: what the file has beyond it stays.\<close>

definition overlay :: "data_file \<Rightarrow> data_file \<Rightarrow> data_file" where
  "overlay new old =
     (case new of
        None \<Rightarrow> old
      | Some t \<Rightarrow> Some (t @ drop (length t) (case old of None \<Rightarrow> [] | Some u \<Rightarrow> u)))"

text \<open>The steps of \<open>insert\<close>: process \<open>i\<close> inserts \<open>info i\<close>.\<close>

fun race_step :: "'j jsoncpp \<Rightarrow> dao_env \<Rightarrow> (nat \<Rightarrow> container_info) \<Rightarrow> ev \<Rightarrow> race \<Rightarrow> race res" where
  "race_step J env info (Reads i) s = Inr (s\<lparr>seen := (seen s)(i := on_disk s)\<rparr>)"
| "race_step J env info (Opens i) s = Inr (if writable env then s\<lparr>on_disk := Some []\<rparr> else s)"
| "race_step J env info (Writes i) s =
     rbind (dao_insert J env (info i) (seen s i)) (\<lambda>f.
     Inr (if writable env then s\<lparr>on_disk := overlay f (on_disk s)\<rparr> else s))"

fun race_run :: "'j jsoncpp \<Rightarrow> dao_env \<Rightarrow> (nat \<Rightarrow> container_info) \<Rightarrow> ev list \<Rightarrow> race \<Rightarrow> race res" where
  "race_run J env info [] s = Inr s"
| "race_run J env info (e # es) s = rbind (race_step J env info e s) (race_run J env info es)"

text \<open>The schedules of two insertions, which of two events comes first, and who writes last.\<close>

definition schedules :: "ev list set" where
  "schedules = shuffles [Reads 0, Opens 0, Writes 0] [Reads 1, Opens 1, Writes 1]"

definition earlier :: "ev \<Rightarrow> ev \<Rightarrow> ev list \<Rightarrow> bool" where
  "earlier x y es \<longleftrightarrow> x \<in> set (takeWhile (\<lambda>e. e \<noteq> y) es)"

definition last_writer :: "ev list \<Rightarrow> nat" where
  "last_writer es = (case last es of Reads i \<Rightarrow> i | Opens i \<Rightarrow> i | Writes i \<Rightarrow> i)"

text \<open>The text a process writes: \<open>t i\<close> for one that has read the table as it was, \<open>u i\<close> for one that has read the
  truncated file, \<open>v i\<close> for one that has read what the other has written.\<close>

definition race_text :: "(nat \<Rightarrow> string) \<Rightarrow> (nat \<Rightarrow> string) \<Rightarrow> (nat \<Rightarrow> string) \<Rightarrow> nat \<Rightarrow> ev list \<Rightarrow> string" where
  "race_text t u v i es =
     (if earlier (Writes (1 - i)) (Reads i) es then v i else if earlier (Opens (1 - i)) (Reads i) es then u i else t i)"

text \<open>What is left of the other's text.\<close>

definition race_rest :: "(nat \<Rightarrow> string) \<Rightarrow> (nat \<Rightarrow> string) \<Rightarrow> (nat \<Rightarrow> string) \<Rightarrow> nat \<Rightarrow> ev list \<Rightarrow> string" where
  "race_rest t u v i es =
     (if earlier (Writes (1 - i)) (Opens i) es then []
      else drop (length (race_text t u v i es)) (race_text t u v (1 - i) es))"

fun shuffle_list :: "'a list \<Rightarrow> 'a list \<Rightarrow> 'a list list" where
  "shuffle_list [] ys = [ys]"
| "shuffle_list xs [] = [xs]"
| "shuffle_list (x # xs) (y # ys) = map ((#) x) (shuffle_list xs (y # ys)) @ map ((#) y) (shuffle_list (x # xs) ys)"

lemma set_shuffle_list: "set (shuffle_list xs ys) = shuffles xs ys"
  by (induction xs ys rule: shuffle_list.induct) auto

lemma race_result:
  assumes w: "writable env" and es: "es \<in> schedules"
    and old: "\<And>i. i \<le> 1 \<Longrightarrow> dao_insert J env (info i) f = Inr (Some (t i))"
    and cut: "\<And>i. i \<le> 1 \<Longrightarrow> dao_insert J env (info i) (Some []) = Inr (Some (u i))"
    and both: "\<And>i. i \<le> 1 \<Longrightarrow> dao_insert J env (info i) (Some (t (1 - i))) = Inr (Some (v i))"
  shows "\<exists>s. race_run J env info es \<lparr>on_disk = f, seen = (\<lambda>_. None)\<rparr> = Inr s \<and>
    on_disk s = Some (race_text t u v (last_writer es) es @ race_rest t u v (last_writer es) es)"
proof -
  have o: "dao_insert J env (info 0) f = Inr (Some (t 0))" "dao_insert J env (info (Suc 0)) f = Inr (Some (t 1))"
    "dao_insert J env (info 0) (Some []) = Inr (Some (u 0))" "dao_insert J env (info (Suc 0)) (Some []) = Inr (Some (u 1))"
    "dao_insert J env (info 0) (Some (t (Suc 0))) = Inr (Some (v 0))" "dao_insert J env (info (Suc 0)) (Some (t 0)) = Inr (Some (v 1))"
    using old [of 0] old [of 1] cut [of 0] cut [of 1] both [of 0] both [of 1] by simp_all
  have "schedules = set (shuffle_list [Reads 0, Opens 0, Writes 0] [Reads 1, Opens 1, Writes 1])"
    by (simp only: schedules_def set_shuffle_list)
  with es have "es \<in> set (shuffle_list [Reads 0, Opens 0, Writes 0] [Reads 1, Opens 1, Writes 1])" by simp
  then show ?thesis
    by (simp, elim disjE) (simp_all add: w o overlay_def race_text_def race_rest_def earlier_def last_writer_def)
qed

text \<open>What one insertion writes.\<close>

lemma insert_text:
  assumes "json_library J jdoc jtext" "dao_state J jtext f cs" "storable jtext x" "cid x \<notin> cid ` set cs" "writable env"
  shows "\<exists>t. dao_insert J env x f = Inr (Some t) \<and> dao_state J jtext (Some t) (cs @ [norm_info x])"
proof -
  from container_store.insert_law [OF json_library.dao_store [OF assms(1)] assms(2-5)] obtain g where
    g: "dao_insert J env x f = Inr g" "dao_state J jtext g (cs @ [norm_info x])" by blast
  then obtain t where "g = Some t" by (cases g) (auto simp: dao_state_def dao_table_def)
  with g show ?thesis by blast
qed

text \<open>C9 (safety): of two containers inserted by two processes at the same time, whatever the schedule of their reads,
  truncations and writes, both insertions return without an error and the file begins with a well-formed table that has the
  record of the process \<open>b\<close> that writes last. It has that of the other, \<open>a\<close>, exactly when \<open>a\<close> has written before \<open>b\<close> reads. When \<open>b\<close>
  reads between the truncation and the write of \<open>a\<close>, it sees an empty file, whose failed parse is not looked
  at, and all old records are lost as well; otherwise the old ones stay and the record of \<open>a\<close> is lost. Behind the table there is
  nothing, unless \<open>b\<close> has opened the file before \<open>a\<close> wrote to it. Of the JSON library this assumes that it
  does not accept an empty text, and leaves the value null then.\<close>

theorem concurrent_inserts:
  assumes lib: "json_library J jdoc jtext" and empty: "jparse J [] = (False, jnull J)"
    and tab: "dao_state J jtext f cs" and w: "writable env"
    and ok: "storable jtext (info 0)" "storable jtext (info 1)"
    and new: "cid (info 0) \<notin> cid ` set cs" "cid (info 1) \<notin> cid ` set cs" "cid (info 0) \<noteq> cid (info 1)"
    and es: "es \<in> schedules" and b: "b = last_writer es" "a = 1 - b"
  shows "\<exists>s t rest. race_run J env info es \<lparr>on_disk = f, seen = (\<lambda>_. None)\<rparr> = Inr s \<and> on_disk s = Some (t @ rest) \<and>
    (earlier (Writes a) (Opens b) es \<longrightarrow> rest = []) \<and>
    dao_state J jtext (Some t)
      ((if earlier (Writes a) (Reads b) es then cs @ [norm_info (info a)]
        else if earlier (Opens a) (Reads b) es then [] else cs) @ [norm_info (info b)])"
proof -
  have i: "storable jtext (info i)" "cid (info i) \<notin> cid ` set cs" "cid (info i) \<noteq> cid (info (1 - i))" if "i \<le> 1" for i
    using that ok new by (cases i; auto)+
  have "\<exists>t. dao_insert J env (info i) f = Inr (Some t) \<and> dao_state J jtext (Some t) (cs @ [norm_info (info i)])" if "i \<le> 1" for i
    using insert_text [OF lib tab i(1,2) [OF that] w] .
  then obtain t where t: "\<And>i. i \<le> 1 \<Longrightarrow> dao_insert J env (info i) f = Inr (Some (t i))"
    "\<And>i. i \<le> 1 \<Longrightarrow> dao_state J jtext (Some (t i)) (cs @ [norm_info (info i)])" by metis
  have "dao_insert J env x (Some []) = dao_insert J env x None" for x
    using empty w by (simp add: dao_insert_def write_data_def)
  then have "\<exists>t. dao_insert J env (info i) (Some []) = Inr (Some t) \<and> dao_state J jtext (Some t) [norm_info (info i)]" if "i \<le> 1" for i
    using insert_text [OF lib json_library.no_file [OF lib] i(1) [OF that] _ w] by simp
  then obtain u where u: "\<And>i. i \<le> 1 \<Longrightarrow> dao_insert J env (info i) (Some []) = Inr (Some (u i))"
    "\<And>i. i \<le> 1 \<Longrightarrow> dao_state J jtext (Some (u i)) [norm_info (info i)]" by metis
  have "\<exists>t'. dao_insert J env (info i) (Some (t (1 - i))) = Inr (Some t') \<and>
      dao_state J jtext (Some t') ((cs @ [norm_info (info (1 - i))]) @ [norm_info (info i)])" if "i \<le> 1" for i
    using insert_text [OF lib t(2) [of "1 - i"] i(1) [OF that] _ w] i(2,3) [OF that] by auto
  then obtain v where v: "\<And>i. i \<le> 1 \<Longrightarrow> dao_insert J env (info i) (Some (t (1 - i))) = Inr (Some (v i))"
    "\<And>i. i \<le> 1 \<Longrightarrow> dao_state J jtext (Some (v i)) ((cs @ [norm_info (info (1 - i))]) @ [norm_info (info i)])" by metis
  have b1: "b \<le> 1" using es b(1) by (auto simp: schedules_def last_writer_def)
  from race_result [where t = t and u = u and v = v and J = J and info = info and f = f, OF w es t(1) u(1) v(1)] obtain s where
    s: "race_run J env info es \<lparr>on_disk = f, seen = (\<lambda>_. None)\<rparr> = Inr s" "on_disk s = Some (race_text t u v b es @ race_rest t u v b es)"
    using b(1) by blast
  have "dao_state J jtext (Some (race_text t u v b es))
      ((if earlier (Writes a) (Reads b) es then cs @ [norm_info (info a)]
        else if earlier (Opens a) (Reads b) es then [] else cs) @ [norm_info (info b)])"
    using t(2) [OF b1] u(2) [OF b1] v(2) [OF b1] by (simp add: race_text_def b(2))
  moreover have "earlier (Writes a) (Opens b) es \<longrightarrow> race_rest t u v b es = []" by (simp add: race_rest_def b(2))
  ultimately show ?thesis using s by blast
qed

text \<open>The second process reads the file the first one has truncated.\<close>

theorem concurrent_inserts_witness:
  "\<exists>f s. dao_state json_impl text_jv f [demo_info\<lparr>cid := ''c3''\<rparr>] \<and>
    race_run json_impl demo_env (\<lambda>i. if i = 0 then demo_info else demo_info\<lparr>cid := ''b2''\<rparr>)
      [Reads 0, Opens 0, Reads 1, Writes 0, Opens 1, Writes 1] \<lparr>on_disk = f, seen = (\<lambda>_. None)\<rparr> = Inr s \<and>
    dao_list json_impl (on_disk s) = Inr (Some [demo_info\<lparr>cid := ''b2''\<rparr>])"
proof -
  let ?info = "\<lambda>i :: nat. if i = 0 then demo_info else demo_info\<lparr>cid := ''b2''\<rparr>" and ?x = "demo_info\<lparr>cid := ''c3''\<rparr>"
  let ?es = "[Reads 0, Opens 0, Reads 1, Writes 0, Opens 1, Writes 1]"
  have ok: "storable text_jv (?info 0)" "storable text_jv (?info 1)" "storable text_jv ?x"
    by (simp_all add: storable_def text_jv_def empty_info_def is_int32_def is_set_def)
  have n: "norm_info (?info 1) = ?info 1" "norm_info ?x = ?x" by (simp_all add: norm_info_def to_int32_def empty_info_def)
  from insert_text [OF jimpl.json_library_axioms jimpl.no_file ok(3), of demo_env] n(2) obtain f where
    f: "dao_state json_impl text_jv f [?x]" by auto
  have e: "jparse json_impl [] = (False, jnull json_impl)" by code_simp
  have "?es \<in> schedules" unfolding schedules_def set_shuffle_list [symmetric] by simp
  moreover have l: "(1 :: nat) = last_writer ?es" "(0 :: nat) = 1 - 1" by (simp_all add: last_writer_def)
  ultimately obtain s t rest where
    s: "race_run json_impl demo_env ?info ?es \<lparr>on_disk = f, seen = (\<lambda>_. None)\<rparr> = Inr s" "on_disk s = Some (t @ rest)"
      "earlier (Writes 0) (Opens 1) ?es \<longrightarrow> rest = []"
      "dao_state json_impl text_jv (Some t) ((if earlier (Writes 0) (Reads 1) ?es then [?x] @ [norm_info (?info 0)]
        else if earlier (Opens 0) (Reads 1) ?es then [] else [?x]) @ [norm_info (?info 1)])"
    using concurrent_inserts [OF jimpl.json_library_axioms e f, of demo_env ?info ?es 1 0] ok
    by (auto simp: empty_info_def simp del: race_run.simps)
  have "dao_state json_impl text_jv (on_disk s) [?info 1]" using s(2-4) n(1) by (simp add: earlier_def)
  then have "dao_list json_impl (on_disk s) = Inr (Some [?info 1])" using jimpl.store.list_law by simp
  with f s(1) show ?thesis by (intro exI [of _ f] exI [of _ s]) (simp del: race_run.simps)
qed

end
