(* ===== verification/SysIo.thy ===== *)
theory SysIo
  imports Prelude
begin

text \<open>
  The system calls \<open>read\<close>, \<open>write\<close> and \<open>close\<close> as the I/O code of \<open>src/common/socket_io.cpp\<close> and
  \<open>src/pty/pty_exec_util.cpp\<close> sees them. A descriptor has the bytes still to be read from it, the
  bytes written to it, and two schedules that say how the kernel answers the next calls: with an
  error, or with at most so many bytes. When a schedule has run out, a call transfers as much as it
  can. \<open>errno\<close> is set by a call that fails and kept by one that succeeds.
\<close>

datatype rd_ev = Rd_fail int | Rd_upto nat
datatype wr_ev = Wr_fail int | Wr_upto nat

record port =
  inq :: string
  rsched :: "rd_ev list"
  outq :: string
  wsched :: "wr_ev list"
  is_open :: bool

record sys =
  errno :: int
  ports :: "int \<Rightarrow> port"

definition EINTR :: int where
  "EINTR = 4"

definition set_port :: "int \<Rightarrow> port \<Rightarrow> sys \<Rightarrow> sys" where
  "set_port fd p s = s\<lparr>ports := (ports s)(fd := p)\<rparr>"

text \<open>\<open>read(fd, buf, n)\<close>: the result and the bytes put at \<open>buf\<close>. A scheduled answer \<open>Rd_upto k\<close> is
  \<open>k + 1\<close> bytes at most; 0 is the end of the stream.\<close>

definition sys_read :: "int \<Rightarrow> nat \<Rightarrow> sys \<Rightarrow> int \<times> string \<times> sys" where
  "sys_read fd n s =
     (let p = ports s fd in
      case rsched p of
        [] \<Rightarrow> (int (min n (length (inq p))), take n (inq p), set_port fd (p\<lparr>inq := drop n (inq p)\<rparr>) s)
      | Rd_fail e # evs \<Rightarrow> (-1, [], (set_port fd (p\<lparr>rsched := evs\<rparr>) s)\<lparr>errno := e\<rparr>)
      | Rd_upto k # evs \<Rightarrow>
          (let m = min n (Suc k) in
           (int (min m (length (inq p))), take m (inq p),
            set_port fd (p\<lparr>inq := drop m (inq p), rsched := evs\<rparr>) s)))"

text \<open>\<open>write(fd, buf, n)\<close> with the bytes at \<open>buf\<close>: the result. An answer of 0 bytes is allowed.\<close>

definition sys_write :: "int \<Rightarrow> string \<Rightarrow> sys \<Rightarrow> int \<times> sys" where
  "sys_write fd bs s =
     (let p = ports s fd in
      case wsched p of
        [] \<Rightarrow> (int (length bs), set_port fd (p\<lparr>outq := outq p @ bs\<rparr>) s)
      | Wr_fail e # evs \<Rightarrow> (-1, (set_port fd (p\<lparr>wsched := evs\<rparr>) s)\<lparr>errno := e\<rparr>)
      | Wr_upto k # evs \<Rightarrow>
          (int (min k (length bs)), set_port fd (p\<lparr>outq := outq p @ take k bs, wsched := evs\<rparr>) s))"

definition sys_close :: "int \<Rightarrow> sys \<Rightarrow> sys" where
  "sys_close fd s = set_port fd ((ports s fd)\<lparr>is_open := False\<rparr>) s"

section \<open>Laws\<close>

lemma ports_set_port [simp]: "ports (set_port fd p s) = (ports s)(fd := p)"
  and errno_set_port [simp]: "errno (set_port fd p s) = errno s"
  by (simp_all add: set_port_def)

text \<open>Hard failures: an error other than an interruption.\<close>

definition rd_quiet :: "port \<Rightarrow> bool" where
  "rd_quiet p \<longleftrightarrow> (\<forall>e. Rd_fail e \<in> set (rsched p) \<longrightarrow> e = EINTR)"

lemma sys_read_cases:
  assumes "sys_read fd n s = (r, bs, s')" and "0 < n"
  obtains
    (fail) e where "r = -1" "bs = []" "errno s' = e" "Rd_fail e \<in> set (rsched (ports s fd))"
      "inq (ports s' fd) = inq (ports s fd)" "length (rsched (ports s' fd)) < length (rsched (ports s fd))"
  | (eof) "r = 0" "bs = []" "inq (ports s fd) = []" "inq (ports s' fd) = []" "errno s' = errno s"
  | (data) "r = int (length bs)" "bs \<noteq> []" "length bs \<le> n" "inq (ports s fd) = bs @ inq (ports s' fd)"
      "length (rsched (ports s' fd)) \<le> length (rsched (ports s fd))" "errno s' = errno s"
proof (cases "rsched (ports s fd)")
  case Nil
  show thesis
  proof (cases "inq (ports s fd)")
    case Nil
    with assms \<open>rsched _ = []\<close> show thesis by (intro eof) (auto simp: sys_read_def Let_def)
  next
    case (Cons c cs)
    with assms Nil show thesis by (intro data) (auto simp: sys_read_def Let_def min_def)
  qed
next
  case sched: (Cons ev evs)
  show thesis
  proof (cases ev)
    case (Rd_fail e)
    with assms sched show thesis by (intro fail) (auto simp: sys_read_def Let_def)
  next
    case (Rd_upto k)
    show thesis
    proof (cases "inq (ports s fd) = []")
      case True
      with assms sched Rd_upto show thesis by (intro eof) (auto simp: sys_read_def Let_def)
    next
      case False
      with assms sched Rd_upto show thesis
        by (intro data) (auto simp: sys_read_def Let_def min_def split: if_splits)
    qed
  qed
qed

text \<open>A call touches its own descriptor only, and a read leaves what was written.\<close>

lemma sys_read_frame:
  assumes "sys_read fd n s = (r, bs, s')"
  shows "\<And>fd'. fd' \<noteq> fd \<Longrightarrow> ports s' fd' = ports s fd'"
    and "outq (ports s' fd) = outq (ports s fd)" "wsched (ports s' fd) = wsched (ports s fd)"
    and "is_open (ports s' fd) = is_open (ports s fd)"
    and "set (rsched (ports s' fd)) \<subseteq> set (rsched (ports s fd))"
  using assms by (auto simp: sys_read_def Let_def split: list.splits rd_ev.splits)

lemma sys_write_cases:
  assumes "sys_write fd bs s = (r, s')"
  obtains
    (fail) e where "r = -1" "errno s' = e" "Wr_fail e \<in> set (wsched (ports s fd))"
      "outq (ports s' fd) = outq (ports s fd)" "length (wsched (ports s' fd)) < length (wsched (ports s fd))"
  | (partial) k where "r = int k" "k \<le> length bs" "outq (ports s' fd) = outq (ports s fd) @ take k bs"
      "errno s' = errno s"
      "length (wsched (ports s' fd)) < length (wsched (ports s fd)) \<or>
       k = length bs \<and> wsched (ports s' fd) = [] \<and> wsched (ports s fd) = []"
proof (cases "wsched (ports s fd)")
  case Nil
  with assms show thesis by (intro partial [of "length bs"]) (auto simp: sys_write_def Let_def)
next
  case (Cons ev evs)
  show thesis
  proof (cases ev)
    case (Wr_fail e)
    with assms Cons show thesis by (intro fail) (auto simp: sys_write_def Let_def)
  next
    case (Wr_upto k)
    with assms Cons show thesis
      by (intro partial [of "min k (length bs)"]) (auto simp: sys_write_def Let_def min_def)
  qed
qed

lemma sys_write_frame:
  assumes "sys_write fd bs s = (r, s')"
  shows "\<And>fd'. fd' \<noteq> fd \<Longrightarrow> ports s' fd' = ports s fd'"
    and "inq (ports s' fd) = inq (ports s fd)" "rsched (ports s' fd) = rsched (ports s fd)"
    and "is_open (ports s' fd) = is_open (ports s fd)"
    and "set (wsched (ports s' fd)) \<subseteq> set (wsched (ports s fd))"
  using assms by (auto simp: sys_write_def Let_def split: list.splits wr_ev.splits)

lemma sys_close_simps [simp]:
  "fd' \<noteq> fd \<Longrightarrow> ports (sys_close fd s) fd' = ports s fd'"
  "inq (ports (sys_close fd s) fd') = inq (ports s fd')"
  "outq (ports (sys_close fd s) fd') = outq (ports s fd')"
  "rsched (ports (sys_close fd s) fd') = rsched (ports s fd')"
  "wsched (ports (sys_close fd s) fd') = wsched (ports s fd')"
  "is_open (ports (sys_close fd s) fd') \<longleftrightarrow> fd' \<noteq> fd \<and> is_open (ports s fd')"
  "errno (sys_close fd s) = errno s"
  by (auto simp: sys_close_def)

end
