(* ===== verification/RioIo.thy ===== *)
theory RioIo
  imports SysIo
begin

text \<open>
  \<open>src/common/socket_io.cpp\<close>: the robust I/O package (unbuffered and buffered reading and writing
  over short counts and interrupted calls) and the opening of TCP sockets. The loops are total
  functions: every round consumes an answer of the kernel's schedule or transfers bytes.
\<close>

section \<open>Unbuffered\<close>

text \<open>The loop of \<open>rio_readn\<close> with the bytes left and those already in \<open>usrbuf\<close>: the value returned,
  the content of \<open>usrbuf\<close> and the system.\<close>

function rio_readn_loop :: "int \<Rightarrow> nat \<Rightarrow> nat \<Rightarrow> string \<Rightarrow> sys \<Rightarrow> int \<times> string \<times> sys" where
  "rio_readn_loop fd n nleft buf s =
     (if nleft = 0 then (int (n - nleft), buf, s)
      else (let (nread, bs, s') = sys_read fd nleft s in
            if nread < 0 then
              (if errno s' = EINTR then rio_readn_loop fd n nleft buf s' else (-1, buf, s'))
            else if nread = 0 then (int (n - nleft), buf, s')
            else rio_readn_loop fd n (nleft - nat nread) (buf @ bs) s'))"
  by pat_completeness auto
termination
  by (relation "measure (\<lambda>(fd, n, nleft, buf, s). nleft + length (rsched (ports s fd)))")
    (auto simp: sys_read_def Let_def split: list.splits rd_ev.splits if_splits)

declare rio_readn_loop.simps [simp del]

definition rio_readn :: "int \<Rightarrow> nat \<Rightarrow> sys \<Rightarrow> int \<times> string \<times> sys" where
  "rio_readn fd n s = rio_readn_loop fd n n [] s"

function rio_writen_loop :: "int \<Rightarrow> nat \<Rightarrow> string \<Rightarrow> sys \<Rightarrow> int \<times> sys" where
  "rio_writen_loop fd n bs s =
     (if bs = [] then (int n, s)
      else (let (nwritten, s') = sys_write fd bs s in
            if nwritten \<le> 0 then
              (if errno s' = EINTR then rio_writen_loop fd n bs s' else (-1, s'))
            else rio_writen_loop fd n (drop (nat nwritten) bs) s'))"
  by pat_completeness auto
termination
  by (relation "measure (\<lambda>(fd, n, bs, s). length bs + length (wsched (ports s fd)))")
    (auto simp: sys_write_def Let_def split: list.splits wr_ev.splits if_splits)

declare rio_writen_loop.simps [simp del]

definition rio_writen :: "int \<Rightarrow> string \<Rightarrow> sys \<Rightarrow> int \<times> sys" where
  "rio_writen fd bs s = rio_writen_loop fd (length bs) bs s"

text \<open>A caller with a negative \<open>ssize_t\<close> for \<open>n\<close> passes a count above \<open>SSIZE_MAX\<close>, which Linux refuses with
  \<open>EFAULT\<close> before it looks at the descriptor.\<close>

definition EFAULT :: int where "EFAULT = 14"

definition rio_writen_len :: "int \<Rightarrow> int \<Rightarrow> string \<Rightarrow> sys \<Rightarrow> int \<times> sys" where
  "rio_writen_len fd n bs s = (if n < 0 then (-1, s\<lparr>errno := EFAULT\<rparr>) else rio_writen fd bs s)"

section \<open>Buffered\<close>

definition RIO_BUFSIZE :: nat where
  "RIO_BUFSIZE = 8192"

text \<open>\<open>rio_bufptr\<close> is an offset into \<open>rio_buf\<close>.\<close>

record rio_t =
  rio_fd :: int
  rio_cnt :: int
  rio_bufptr :: nat
  rio_buf :: string

text \<open>The tail of \<open>rio_read\<close>: copy \<open>min(n, rio_cnt)\<close> bytes out of the internal buffer.\<close>

definition rio_copy :: "rio_t \<Rightarrow> nat \<Rightarrow> sys \<Rightarrow> (int \<times> string \<times> rio_t \<times> sys) res" where
  "rio_copy rp n s =
     (let cnt = (if rio_cnt rp < int n then nat (rio_cnt rp) else n) in
      if rio_bufptr rp + cnt \<le> length (rio_buf rp)
      then Inr (int cnt, take cnt (drop (rio_bufptr rp) (rio_buf rp)),
             rp\<lparr>rio_bufptr := rio_bufptr rp + cnt, rio_cnt := rio_cnt rp - int cnt\<rparr>, s)
      else Inl OutOfBounds)"

function rio_read :: "rio_t \<Rightarrow> nat \<Rightarrow> sys \<Rightarrow> (int \<times> string \<times> rio_t \<times> sys) res" where
  "rio_read rp n s =
     (if rio_cnt rp \<le> 0
      then (let (r, bs, s') = sys_read (rio_fd rp) RIO_BUFSIZE s;
                rp' = rp\<lparr>rio_cnt := r, rio_buf := bs @ drop (length bs) (rio_buf rp)\<rparr> in
            if r < 0 then
              (if errno s' \<noteq> EINTR then Inr (-1, [], rp', s') else rio_read rp' n s')
            else if r = 0 then Inr (0, [], rp', s')
            else rio_copy (rp'\<lparr>rio_bufptr := 0\<rparr>) n s')
      else rio_copy rp n s)"
  by pat_completeness auto
termination
  by (relation "measure (\<lambda>(rp, n, s). length (rsched (ports s (rio_fd rp))))")
    (auto simp: sys_read_def Let_def split: list.splits rd_ev.splits if_splits)

declare rio_read.simps [simp del]

definition rio_readinitb :: "rio_t \<Rightarrow> int \<Rightarrow> rio_t" where
  "rio_readinitb rp fd = rp\<lparr>rio_fd := fd, rio_cnt := 0, rio_bufptr := 0\<rparr>"

text \<open>The loops of \<open>rio_readnb\<close> and \<open>rio_readlineb\<close> over the reading function they call.\<close>

function rio_readnb_loop ::
  "('s \<Rightarrow> nat \<Rightarrow> (int \<times> string \<times> 's) res) \<Rightarrow> nat \<Rightarrow> nat \<Rightarrow> string \<Rightarrow> 's \<Rightarrow> (int \<times> string \<times> 's) res" where
  "rio_readnb_loop rd n nleft buf s =
     (if nleft = 0 then Inr (int (n - nleft), buf, s)
      else rbind (rd s nleft) (\<lambda>(nread, bs, s').
           if nread < 0 then Inr (-1, buf, s')
           else if nread = 0 then Inr (int (n - nleft), buf, s')
           else rio_readnb_loop rd n (nleft - nat nread) (buf @ bs) s'))"
  by pat_completeness auto
termination
  by (relation "measure (\<lambda>(rd, n, nleft, buf, s). nleft)") auto

declare rio_readnb_loop.simps [simp del]

text \<open>\<open>*bufp = 0\<close> at the end of the line; \<open>maxlen\<close> is the size of the caller's buffer.\<close>

definition put_nul :: "nat \<Rightarrow> string \<Rightarrow> int \<Rightarrow> 's \<Rightarrow> (int \<times> string option \<times> 's) res" where
  "put_nul maxlen buf r s = (if length buf < maxlen then Inr (r, Some buf, s) else Inl OutOfBounds)"

text \<open>The content is \<open>None\<close> when the function returns without having terminated the string.\<close>

function rio_readlineb_loop ::
  "('s \<Rightarrow> nat \<Rightarrow> (int \<times> string \<times> 's) res) \<Rightarrow> nat \<Rightarrow> nat \<Rightarrow> string \<Rightarrow> 's \<Rightarrow> (int \<times> string option \<times> 's) res" where
  "rio_readlineb_loop rd maxlen n buf s =
     (if \<not> n < maxlen then put_nul maxlen buf (int n - 1) s
      else rbind (rd s 1) (\<lambda>(rc, bs, s').
           if rc = 1 then
             (if hd bs = CHR 0x0A then put_nul maxlen (buf @ [hd bs]) (int (n + 1) - 1) s'
              else rio_readlineb_loop rd maxlen (n + 1) (buf @ [hd bs]) s')
           else if rc = 0 then
             (if n = 1 then Inr (0, None, s') else put_nul maxlen buf (int n - 1) s')
           else Inr (-1, None, s')))"
  by pat_completeness auto
termination
  by (relation "measure (\<lambda>(rd, maxlen, n, buf, s). maxlen - n)") auto

declare rio_readlineb_loop.simps [simp del]

abbreviation rio_reader :: "rio_t \<times> sys \<Rightarrow> nat \<Rightarrow> (int \<times> string \<times> (rio_t \<times> sys)) res" where
  "rio_reader \<equiv> (\<lambda>(rp, s) n. rio_read rp n s)"

definition rio_readnb :: "rio_t \<Rightarrow> nat \<Rightarrow> sys \<Rightarrow> (int \<times> string \<times> (rio_t \<times> sys)) res" where
  "rio_readnb rp n s = rio_readnb_loop rio_reader n n [] (rp, s)"

definition rio_readlineb :: "rio_t \<Rightarrow> nat \<Rightarrow> sys \<Rightarrow> (int \<times> string option \<times> (rio_t \<times> sys)) res" where
  "rio_readlineb rp maxlen s = rio_readlineb_loop rio_reader maxlen 1 [] (rp, s)"

section \<open>The wrappers that exit on an error\<close>

text \<open>\<open>err_exit(errno, ...)\<close> prints the message and ends the process with \<open>exit(errno)\<close>; printing is
  taken to keep \<open>errno\<close>.\<close>

definition Rio_readn :: "int \<Rightarrow> nat \<Rightarrow> sys \<Rightarrow> (int \<times> string \<times> sys) res" where
  "Rio_readn fd nbytes s =
     (let (n, buf, s') = rio_readn fd nbytes s in if n < 0 then Inl (Exit (errno s')) else Inr (n, buf, s'))"

definition Rio_writen :: "int \<Rightarrow> string \<Rightarrow> sys \<Rightarrow> sys res" where
  "Rio_writen fd bs s =
     (let (r, s') = rio_writen fd bs s in if r \<noteq> int (length bs) then Inl (Exit (errno s')) else Inr s')"

definition Rio_readinitb :: "rio_t \<Rightarrow> int \<Rightarrow> rio_t" where
  "Rio_readinitb rp fd = rio_readinitb rp fd"

definition Rio_readnb :: "rio_t \<Rightarrow> nat \<Rightarrow> sys \<Rightarrow> (int \<times> string \<times> (rio_t \<times> sys)) res" where
  "Rio_readnb rp n s =
     rbind (rio_readnb rp n s) (\<lambda>(rc, buf, st).
       if rc < 0 then Inl (Exit (errno (snd st))) else Inr (rc, buf, st))"

definition Rio_readlineb :: "rio_t \<Rightarrow> nat \<Rightarrow> sys \<Rightarrow> (int \<times> string option \<times> (rio_t \<times> sys)) res" where
  "Rio_readlineb rp maxlen s =
     rbind (rio_readlineb rp maxlen s) (\<lambda>(rc, buf, st).
       if rc < 0 then Inl (Exit (errno (snd st))) else Inr (rc, buf, st))"

section \<open>Correctness\<close>

subsection \<open>Unbuffered\<close>

lemma rio_readn_loop_quiet:
  assumes "rd_quiet (ports s fd)" and "nleft \<le> n"
  shows "\<exists>s'. rio_readn_loop fd n nleft buf s =
      (int (n - nleft + min nleft (length (inq (ports s fd)))), buf @ take nleft (inq (ports s fd)), s') \<and>
    inq (ports s' fd) = drop nleft (inq (ports s fd)) \<and> (\<forall>fd'. fd' \<noteq> fd \<longrightarrow> ports s' fd' = ports s fd')"
  using assms
proof (induction fd n nleft buf s rule: rio_readn_loop.induct)
  case (1 fd n nleft buf s)
  show ?case
  proof (cases "nleft = 0")
    case True
    then show ?thesis by (simp add: rio_readn_loop.simps)
  next
    case False
    obtain r bs s' where r: "sys_read fd nleft s = (r, bs, s')" using prod_cases3 by blast
    note fr = sys_read_frame [OF r]
    have q: "rd_quiet (ports s' fd)" using "1.prems"(1) fr(5) by (auto simp: rd_quiet_def)
    from False have "0 < nleft" by simp
    from r this show ?thesis
    proof (cases rule: sys_read_cases)
      case (fail e)
      with "1.prems"(1) have "errno s' = EINTR" by (auto simp: rd_quiet_def)
      with False r fail "1.IH"(1) [OF False r [symmetric] refl refl _ _ q] "1.prems"(2) fr(1) show ?thesis
        by (simp add: rio_readn_loop.simps [of fd n nleft])
    next
      case eof
      with False r fr(1) show ?thesis by (simp add: rio_readn_loop.simps [of fd n nleft])
    next
      case data
      then have pos: "\<not> r < 0" "r \<noteq> 0" "nat r = length bs" by auto
      have step: "rio_readn_loop fd n nleft buf s = rio_readn_loop fd n (nleft - length bs) (buf @ bs) s'"
        using False r pos by (simp add: rio_readn_loop.simps [of fd n nleft])
      have "min nleft (length bs + m) = length bs + min (nleft - length bs) m" for m
        using data(3) by linarith
      moreover have "nleft - length bs \<le> n" using "1.prems"(2) by simp
      ultimately show ?thesis
        using "1.IH"(2) [OF False r [symmetric] refl refl pos(1,2) q] "1.prems"(2) pos(3) data fr(1)
        unfolding step by (simp add: add.assoc)
    qed
  qed
qed

text \<open>C20 (functional): \<open>rio_readn\<close> returns the first \<open>n\<close> bytes of the stream, or all of it when it is
  shorter, however the kernel splits or interrupts the transfer; the rest is left to read and no
  other descriptor is touched.\<close>

theorem rio_readn_exact:
  assumes "rd_quiet (ports s fd)"
  shows "\<exists>s'. rio_readn fd n s = (int (min n (length (inq (ports s fd)))), take n (inq (ports s fd)), s') \<and>
    inq (ports s' fd) = drop n (inq (ports s fd)) \<and> (\<forall>fd'. fd' \<noteq> fd \<longrightarrow> ports s' fd' = ports s fd')"
  using rio_readn_loop_quiet [OF assms, of n n "[]"] by (simp add: rio_readn_def)

text \<open>Descriptor 5 for the examples: it delivers ''hello'' one byte, then two, then an interruption.\<close>

definition demo_port :: port where
  "demo_port = \<lparr>inq = ''hello'', rsched = [Rd_upto 0, Rd_upto 1, Rd_fail EINTR], outq = [],
     wsched = [Wr_upto 2, Wr_fail EINTR, Wr_upto 1], is_open = True\<rparr>"

definition demo_sys :: sys where
  "demo_sys = \<lparr>errno = 0, ports = (\<lambda>_. demo_port)\<rparr>"

lemma demo_quiet: "rd_quiet (ports demo_sys 5)"
  by (simp add: rd_quiet_def demo_sys_def demo_port_def)

theorem rio_readn_exact_witness:
  "\<exists>s'. rio_readn 5 4 demo_sys = (4, ''hell'', s') \<and> inq (ports s' 5) = ''o''"
  using rio_readn_exact [OF demo_quiet, of 4] by (auto simp: demo_sys_def demo_port_def)

lemma rio_writen_loop_prefix:
  "case rio_writen_loop fd n bs s of (r, s') \<Rightarrow>
     (r = int n \<and> outq (ports s' fd) = outq (ports s fd) @ bs \<or>
      r = -1 \<and> (\<exists>k < length bs. outq (ports s' fd) = outq (ports s fd) @ take k bs)) \<and>
     (\<forall>fd'. fd' \<noteq> fd \<longrightarrow> ports s' fd' = ports s fd') \<and>
     inq (ports s' fd) = inq (ports s fd) \<and> rsched (ports s' fd) = rsched (ports s fd) \<and>
     is_open (ports s' fd) = is_open (ports s fd)"
proof (induction fd n bs s rule: rio_writen_loop.induct)
  case (1 fd n bs s)
  show ?case
  proof (cases "bs = []")
    case True
    then show ?thesis by (simp add: rio_writen_loop.simps)
  next
    case False
    obtain r s' where r: "sys_write fd bs s = (r, s')" by fastforce
    note fr = sys_write_frame [OF r]
    from r show ?thesis
    proof (cases rule: sys_write_cases)
      case (fail e)
      with False r "1.IH"(1) [OF False r [symmetric]] fr show ?thesis
        by (cases "errno s' = EINTR")
          (auto simp: rio_writen_loop.simps [of fd n bs s] split: prod.splits intro: exI [of _ 0])
    next
      case (partial k)
      show ?thesis
      proof (cases "k = 0")
        case True
        with partial False r "1.IH"(1) [OF False r [symmetric]] fr show ?thesis
          by (cases "errno s' = EINTR")
            (auto simp: rio_writen_loop.simps [of fd n bs s] split: prod.splits intro: exI [of _ 0])
      next
        case pos: False
        obtain r2 s2 where r2: "rio_writen_loop fd n (drop k bs) s' = (r2, s2)" by fastforce
        have out: "outq (ports s' fd) @ take j (drop k bs) = outq (ports s fd) @ take (k + j) bs" for j
          using partial(3) by (simp add: take_add)
        from pos partial False r "1.IH"(2) [OF False r [symmetric]] r2 fr
        have *: "(r2 = int n \<and> outq (ports s2 fd) = outq (ports s' fd) @ drop k bs \<or>
            r2 = -1 \<and> (\<exists>j < length (drop k bs). outq (ports s2 fd) = outq (ports s' fd) @ take j (drop k bs))) \<and>
           (\<forall>fd'. fd' \<noteq> fd \<longrightarrow> ports s2 fd' = ports s' fd') \<and>
           inq (ports s2 fd) = inq (ports s' fd) \<and> rsched (ports s2 fd) = rsched (ports s' fd) \<and>
           is_open (ports s2 fd) = is_open (ports s' fd)" by simp
        have "rio_writen_loop fd n bs s = (r2, s2)"
          using pos partial False r r2 by (simp add: rio_writen_loop.simps [of fd n bs s])
        moreover have "outq (ports s2 fd) = outq (ports s' fd) @ drop k bs \<Longrightarrow>
            outq (ports s2 fd) = outq (ports s fd) @ bs" using partial(3) by simp
        moreover have "\<exists>j < length (drop k bs). outq (ports s2 fd) = outq (ports s' fd) @ take j (drop k bs) \<Longrightarrow>
            \<exists>j < length bs. outq (ports s2 fd) = outq (ports s fd) @ take j bs"
          using out by (metis add.commute length_drop less_diff_conv)
        ultimately show ?thesis using * fr by auto
      qed
    qed
  qed
qed

text \<open>C21 (safety): \<open>rio_writen\<close> either writes every byte, in order and once, and returns their number,
  or returns -1 having written a proper prefix; it writes to no other descriptor.\<close>

theorem rio_writen_all_or_prefix:
  "case rio_writen fd bs s of (r, s') \<Rightarrow>
     (r = int (length bs) \<and> outq (ports s' fd) = outq (ports s fd) @ bs \<or>
      r = -1 \<and> (\<exists>k < length bs. outq (ports s' fd) = outq (ports s fd) @ take k bs)) \<and>
     (\<forall>fd'. ports s' fd' = ports s fd' \<or> fd' = fd)"
  using rio_writen_loop_prefix [where fd = fd and n = "length bs" and bs = bs and s = s] by (auto simp: rio_writen_def split: prod.splits)

lemma rio_writen_loop_quiet:
  assumes "\<forall>ev \<in> set (wsched (ports s fd)). ev \<noteq> Wr_upto 0 \<and> (\<forall>e. ev = Wr_fail e \<longrightarrow> e = EINTR)"
  shows "fst (rio_writen_loop fd n bs s) = int n"
  using assms
proof (induction fd n bs s rule: rio_writen_loop.induct)
  case (1 fd n bs s)
  show ?case
  proof (cases "bs = []")
    case True
    then show ?thesis by (simp add: rio_writen_loop.simps)
  next
    case False
    obtain r s' where r: "sys_write fd bs s = (r, s')" by fastforce
    have q: "\<forall>ev \<in> set (wsched (ports s' fd)). ev \<noteq> Wr_upto 0 \<and> (\<forall>e. ev = Wr_fail e \<longrightarrow> e = EINTR)"
      using "1.prems" sys_write_frame(5) [OF r] by blast
    have "r \<le> 0 \<Longrightarrow> errno s' = EINTR"
      using r False "1.prems" by (auto simp: sys_write_def Let_def min_def split: list.splits wr_ev.splits if_splits)
    with False r q "1.IH" [OF False r [symmetric] refl] show ?thesis
      by (cases "r \<le> 0") (auto simp: rio_writen_loop.simps [of fd n bs s])
  qed
qed

text \<open>C24 (liveness): \<open>rio_writen\<close> completes when the only errors are interruptions and the kernel
  takes at least one byte whenever it answers with a count.\<close>

theorem rio_writen_completes:
  assumes "\<forall>ev \<in> set (wsched (ports s fd)). ev \<noteq> Wr_upto 0 \<and> (\<forall>e. ev = Wr_fail e \<longrightarrow> e = EINTR)"
  shows "\<exists>s'. rio_writen fd bs s = (int (length bs), s') \<and> outq (ports s' fd) = outq (ports s fd) @ bs"
  using rio_writen_loop_quiet [OF assms, of "length bs" bs]
    rio_writen_loop_prefix [where fd = fd and n = "length bs" and bs = bs and s = s]
  by (auto simp: rio_writen_def split: prod.splits)

theorem rio_writen_completes_witness:
  "\<exists>s'. rio_writen 5 ''hello'' demo_sys = (5, s') \<and> outq (ports s' 5) = ''hello''"
proof -
  have "\<forall>ev \<in> set (wsched (ports demo_sys 5)). ev \<noteq> Wr_upto 0 \<and> (\<forall>e. ev = Wr_fail e \<longrightarrow> e = EINTR)"
    by (simp add: demo_sys_def demo_port_def)
  from rio_writen_completes [OF this, of "''hello''"] show ?thesis by (simp add: demo_sys_def demo_port_def)
qed

subsection \<open>Buffered\<close>

text \<open>The line at the front of a text when \<open>k\<close> characters fit: up to and with the first newline.\<close>

fun line_of :: "nat \<Rightarrow> string \<Rightarrow> string" where
  "line_of (Suc k) (c # cs) = (if c = CHR 0x0A then [c] else c # line_of k cs)"
| "line_of _ _ = []"

lemma line_of_simps [simp]: "line_of 0 cs = []" "line_of k [] = []"
  by (cases k, auto)

text \<open>What the buffered loops need of the function they read with: it returns an error only when the
  source is not quiet, 0 only at the end of the bytes available, and otherwise the next ones.\<close>

locale byte_source =
  fixes rd :: "'s \<Rightarrow> nat \<Rightarrow> (int \<times> string \<times> 's) res"
    and avail :: "'s \<Rightarrow> string"
    and inv :: "'s \<Rightarrow> bool"
    and quiet :: "'s \<Rightarrow> bool"
  assumes rd_law: "inv s \<Longrightarrow> 0 < n \<Longrightarrow> \<exists>r bs s'. rd s n = Inr (r, bs, s') \<and> inv s' \<and> (quiet s \<longrightarrow> quiet s') \<and>
      (r = -1 \<and> bs = [] \<and> avail s' = avail s \<and> \<not> quiet s \<or>
       r = 0 \<and> bs = [] \<and> avail s = [] \<and> avail s' = [] \<or>
       r = int (length bs) \<and> bs \<noteq> [] \<and> length bs \<le> n \<and> avail s = bs @ avail s')"
begin

lemma readnb_loop_quiet:
  assumes "inv s" and "quiet s" and "nleft \<le> n"
  shows "\<exists>s'. rio_readnb_loop rd n nleft buf s =
      Inr (int (n - nleft + min nleft (length (avail s))), buf @ take nleft (avail s), s') \<and>
    avail s' = drop nleft (avail s) \<and> inv s' \<and> quiet s'"
  using assms
proof (induction nleft arbitrary: buf s rule: less_induct)
  case (less nleft)
  show ?case
  proof (cases "nleft = 0")
    case True
    with less.prems show ?thesis by (simp add: rio_readnb_loop.simps)
  next
    case False
    with rd_law [OF less.prems(1), of nleft] obtain r bs s' where r: "rd s nleft = Inr (r, bs, s')"
      "inv s'" "quiet s'" "r = 0 \<and> bs = [] \<and> avail s = [] \<and> avail s' = [] \<or>
       r = int (length bs) \<and> bs \<noteq> [] \<and> length bs \<le> nleft \<and> avail s = bs @ avail s'"
      using less.prems(2) by auto
    show ?thesis
    proof (cases "bs = []")
      case True
      with r False show ?thesis by (simp add: rio_readnb_loop.simps [of rd n nleft])
    next
      case ne: False
      with r(4) have d: "r = int (length bs)" "length bs \<le> nleft" "avail s = bs @ avail s'" by auto
      have step: "rio_readnb_loop rd n nleft buf s = rio_readnb_loop rd n (nleft - length bs) (buf @ bs) s'"
        using r(1) d(1) False ne by (simp add: rio_readnb_loop.simps [of rd n nleft])
      have "nleft - length bs < nleft" using ne False by simp
      moreover have "nleft - length bs \<le> n" using less.prems(3) by simp
      ultimately have "\<exists>s''. rio_readnb_loop rd n (nleft - length bs) (buf @ bs) s' =
          Inr (int (n - (nleft - length bs) + min (nleft - length bs) (length (avail s'))),
            (buf @ bs) @ take (nleft - length bs) (avail s'), s'') \<and>
        avail s'' = drop (nleft - length bs) (avail s') \<and> inv s'' \<and> quiet s''"
        using less.IH r(2,3) by blast
      moreover have eq: "n - nleft + min nleft (length (avail s)) =
          n - (nleft - length bs) + min (nleft - length bs) (length (avail s'))"
        using d(2) less.prems(3) unfolding d(3) length_append by linarith
      ultimately show ?thesis unfolding step eq using d by simp
    qed
  qed
qed

lemma readlineb_loop_quiet:
  assumes "inv s" and "quiet s" and "n = Suc (length buf)" and "n \<le> maxlen"
  shows "\<exists>s'. rio_readlineb_loop rd maxlen n buf s =
      Inr (if n = 1 \<and> 1 < maxlen \<and> avail s = [] then (0, None, s')
           else (int (length buf + length (line_of (maxlen - n) (avail s))),
                 Some (buf @ line_of (maxlen - n) (avail s)), s')) \<and>
    avail s' = drop (length (line_of (maxlen - n) (avail s))) (avail s) \<and> inv s' \<and> quiet s'"
  using assms
proof (induction "maxlen - n" arbitrary: n buf s)
  case 0
  then show ?case by (simp add: rio_readlineb_loop.simps put_nul_def)
next
  case (Suc k)
  then have lt: "n < maxlen" by simp
  from rd_law [OF Suc.prems(1), of 1] obtain r bs s' where r: "rd s 1 = Inr (r, bs, s')"
    "inv s'" "quiet s'" "r = 0 \<and> bs = [] \<and> avail s = [] \<and> avail s' = [] \<or>
     r = int (length bs) \<and> bs \<noteq> [] \<and> length bs \<le> 1 \<and> avail s = bs @ avail s'"
    using Suc.prems(2) by auto
  show ?case
  proof (cases bs)
    case Nil
    with r lt Suc.prems(3) show ?thesis
      by (cases "buf = []") (auto simp: rio_readlineb_loop.simps [of rd maxlen _ _ s] put_nul_def)
  next
    case (Cons c cs)
    with r(4) have d: "r = 1" "bs = [c]" "avail s = c # avail s'" by auto
    have k: "maxlen - n = Suc k" "maxlen - Suc n = k" using Suc.hyps(2) by auto
    show ?thesis
    proof (cases "c = CHR 0x0A")
      case True
      with r d k lt Suc.prems(3) show ?thesis
        by (simp add: rio_readlineb_loop.simps [of rd maxlen _ _ s] put_nul_def)
    next
      case False
      have step: "rio_readlineb_loop rd maxlen n buf s = rio_readlineb_loop rd maxlen (Suc n) (buf @ [c]) s'"
        using r(1) d lt False by (simp add: rio_readlineb_loop.simps [of rd maxlen n])
      from Suc.hyps(1) [OF k(2) [symmetric] r(2,3), of "buf @ [c]"] Suc.prems(3) lt
      show ?thesis unfolding step using d k False by simp
    qed
  qed
qed

end

text \<open>The buffered reader is such a source: the unread part of the internal buffer, then the stream.\<close>

definition rio_ok :: "rio_t \<times> sys \<Rightarrow> bool" where
  "rio_ok = (\<lambda>(rp, s). length (rio_buf rp) = RIO_BUFSIZE \<and> rio_bufptr rp + nat (rio_cnt rp) \<le> RIO_BUFSIZE)"

definition rio_avail :: "rio_t \<times> sys \<Rightarrow> string" where
  "rio_avail = (\<lambda>(rp, s). take (nat (rio_cnt rp)) (drop (rio_bufptr rp) (rio_buf rp)) @ inq (ports s (rio_fd rp)))"

definition rio_quiet :: "rio_t \<times> sys \<Rightarrow> bool" where
  "rio_quiet = (\<lambda>(rp, s). rd_quiet (ports s (rio_fd rp)))"

lemma rio_copy_law:
  assumes "rio_ok (rp, s)" and "0 < rio_cnt rp" and "0 < n"
  shows "\<exists>bs rp'. rio_copy rp n s = Inr (int (length bs), bs, rp', s) \<and> rio_fd rp' = rio_fd rp \<and>
    rio_ok (rp', s) \<and> bs \<noteq> [] \<and> length bs \<le> n \<and> rio_avail (rp, s) = bs @ rio_avail (rp', s)"
proof -
  define cnt where "cnt = (if rio_cnt rp < int n then nat (rio_cnt rp) else n)"
  have cnt: "0 < cnt" "cnt \<le> n" "int cnt \<le> rio_cnt rp" using assms(2,3) by (auto simp: cnt_def)
  have fit: "rio_bufptr rp + nat (rio_cnt rp) \<le> RIO_BUFSIZE" "length (rio_buf rp) = RIO_BUFSIZE"
    using assms(1) by (auto simp: rio_ok_def)
  let ?bs = "take cnt (drop (rio_bufptr rp) (rio_buf rp))"
  let ?rp = "rp\<lparr>rio_bufptr := rio_bufptr rp + cnt, rio_cnt := rio_cnt rp - int cnt\<rparr>"
  have len: "length ?bs = cnt" using fit cnt by simp
  have nat: "nat (rio_cnt rp) = cnt + nat (rio_cnt rp - int cnt)" using cnt by simp
  have "rio_copy rp n s = Inr (int cnt, ?bs, ?rp, s)"
    using fit cnt by (auto simp: rio_copy_def cnt_def Let_def)
  moreover have "rio_avail (rp, s) = ?bs @ rio_avail (?rp, s)"
    unfolding rio_avail_def prod.case by (subst nat) (simp add: take_add add.commute)
  moreover have "rio_ok (?rp, s)" using fit cnt by (simp add: rio_ok_def)
  moreover have "?bs \<noteq> []" using len cnt(1) by (metis list.size(3) less_numeral_extra(3))
  ultimately show ?thesis using len cnt(2) by (intro exI [of _ ?bs] exI [of _ ?rp]) simp
qed

text \<open>A call of \<open>rio_read\<close> as the source sees it.\<close>

definition rio_step :: "rio_t \<times> sys \<Rightarrow> nat \<Rightarrow> int \<times> string \<times> rio_t \<times> sys \<Rightarrow> bool" where
  "rio_step a n = (\<lambda>(r, bs, rp', s'). let b = (rp', s') in
     rio_fd rp' = rio_fd (fst a) \<and> rio_ok b \<and> (rio_quiet a \<longrightarrow> rio_quiet b) \<and>
     (r = -1 \<and> bs = [] \<and> rio_avail b = rio_avail a \<and> \<not> rio_quiet a \<or>
      r = 0 \<and> bs = [] \<and> rio_avail a = [] \<and> rio_avail b = [] \<or>
      r = int (length bs) \<and> bs \<noteq> [] \<and> length bs \<le> n \<and> rio_avail a = bs @ rio_avail b))"

lemma rio_step_copy:
  assumes "rio_ok (rp, s)" "0 < rio_cnt rp" "0 < n"
  shows "\<exists>x. rio_copy rp n s = Inr x \<and> rio_step (rp, s) n x"
  using rio_copy_law [OF assms] by (fastforce simp: rio_step_def rio_quiet_def)

lemma rio_step_trans:
  assumes "rio_step b n x" "rio_fd (fst b) = rio_fd (fst a)" "rio_avail b = rio_avail a" "rio_quiet a \<Longrightarrow> rio_quiet b"
  shows "rio_step a n x"
  using assms by (auto simp: rio_step_def Let_def)

text \<open>Filling the empty buffer: it goes on after an interruption, and is done otherwise.\<close>

lemma rio_fill:
  assumes ok: "rio_ok (rp, s)" "0 < n" "rio_cnt rp \<le> 0" and r: "sys_read (rio_fd rp) RIO_BUFSIZE s = (r, bs, s')"
  defines "rp' \<equiv> rp\<lparr>rio_cnt := r, rio_buf := bs @ drop (length bs) (rio_buf rp)\<rparr>"
  shows "r < 0 \<and> errno s' = EINTR \<and> rio_read rp n s = rio_read rp' n s' \<and> rio_ok (rp', s') \<and>
      rio_avail (rp', s') = rio_avail (rp, s) \<and> (rio_quiet (rp, s) \<longrightarrow> rio_quiet (rp', s')) \<or>
    \<not> (r < 0 \<and> errno s' = EINTR) \<and> (\<exists>x. rio_read rp n s = Inr x \<and> rio_step (rp, s) n x)"
proof -
  have buf: "length (rio_buf rp) = RIO_BUFSIZE" "rio_bufptr rp \<le> RIO_BUFSIZE" using ok(1) by (auto simp: rio_ok_def)
  have q: "rio_quiet (rp, s) \<longrightarrow> rio_quiet (rp', s')"
    using sys_read_frame(5) [OF r] by (auto simp: rio_quiet_def rd_quiet_def rp'_def)
  have av: "rio_avail (rp, s) = inq (ports s (rio_fd rp))" using ok(3) by (simp add: rio_avail_def)
  note rd = rio_read.simps [of rp n s]
  have "0 < RIO_BUFSIZE" by (simp add: RIO_BUFSIZE_def)
  from r this show ?thesis
  proof (cases rule: sys_read_cases)
    case (fail e)
    have ok': "rio_ok (rp', s')" "rio_avail (rp', s') = rio_avail (rp, s)"
      using buf fail av by (simp_all add: rio_ok_def rio_avail_def rp'_def)
    moreover have "\<not> rio_quiet (rp, s)" if "errno s' \<noteq> EINTR" using fail that by (auto simp: rio_quiet_def rd_quiet_def)
    ultimately show ?thesis
      using rd ok(3) r fail q by (cases "errno s' = EINTR") (simp_all add: rp'_def rio_step_def)
  next
    case eof
    have "rio_ok (rp', s')" "rio_avail (rp', s') = []" "rio_avail (rp, s) = []"
      using buf eof av by (simp_all add: rio_ok_def rio_avail_def rp'_def)
    then show ?thesis using rd ok(3) r eof q by (simp add: rp'_def rio_step_def)
  next
    case data
    let ?rp = "rp'\<lparr>rio_bufptr := 0\<rparr>"
    have "rio_read rp n s = rio_copy ?rp n s'" using rd ok(3) r data by (simp add: rp'_def)
    moreover have "rio_ok (?rp, s')" "rio_avail (?rp, s') = rio_avail (rp, s)" "0 < rio_cnt ?rp"
      using buf data av by (simp_all add: rio_ok_def rio_avail_def rp'_def)
    moreover from this rio_step_copy [of ?rp s' n] ok(2) obtain x where "rio_copy ?rp n s' = Inr x" "rio_step (?rp, s') n x" by blast
    ultimately show ?thesis using rio_step_trans [of "(?rp, s')" n x "(rp, s)"] q data by (simp add: rp'_def rio_quiet_def)
  qed
qed

lemma rio_read_law:
  assumes "rio_ok (rp, s)" and "0 < n"
  shows "\<exists>x. rio_read rp n s = Inr x \<and> rio_step (rp, s) n x"
  using assms
proof (induction rp n s rule: rio_read.induct)
  case (1 rp n s)
  show ?case
  proof (cases "rio_cnt rp \<le> 0")
    case False
    then show ?thesis using rio_step_copy "1.prems" by (simp add: rio_read.simps)
  next
    case True
    obtain r bs s' where r: "sys_read (rio_fd rp) RIO_BUFSIZE s = (r, bs, s')" using prod_cases3 by blast
    let ?rp = "rp\<lparr>rio_cnt := r, rio_buf := bs @ drop (length bs) (rio_buf rp)\<rparr>"
    from rio_fill [OF "1.prems" True r] show ?thesis
    proof (elim disjE conjE)
      assume a: "r < 0" "errno s' = EINTR" "rio_read rp n s = rio_read ?rp n s'" "rio_ok (?rp, s')"
        "rio_avail (?rp, s') = rio_avail (rp, s)" "rio_quiet (rp, s) \<longrightarrow> rio_quiet (?rp, s')"
      from "1.IH" [OF True r [symmetric] refl refl refl a(1) _ a(4) "1.prems"(2)] a(2)
      obtain x where "rio_read ?rp n s' = Inr x" "rio_step (?rp, s') n x" by auto
      then show ?thesis using a rio_step_trans [of "(?rp, s')" n x "(rp, s)"] by simp
    qed
  qed
qed

interpretation rio: byte_source rio_reader rio_avail rio_ok rio_quiet
proof
  fix st :: "rio_t \<times> sys" and n :: nat
  assume "rio_ok st" and "0 < n"
  moreover obtain rp s where st: "st = (rp, s)" by force
  ultimately obtain r bs rp' s' where "rio_read rp n s = Inr (r, bs, rp', s')" "rio_step (rp, s) n (r, bs, rp', s')"
    using rio_read_law [of rp s n] by (metis prod_cases4)
  then show "\<exists>r bs s'. rio_reader st n = Inr (r, bs, s') \<and> rio_ok s' \<and> (rio_quiet st \<longrightarrow> rio_quiet s') \<and>
      (r = -1 \<and> bs = [] \<and> rio_avail s' = rio_avail st \<and> \<not> rio_quiet st \<or>
       r = 0 \<and> bs = [] \<and> rio_avail st = [] \<and> rio_avail s' = [] \<or>
       r = int (length bs) \<and> bs \<noteq> [] \<and> length bs \<le> n \<and> rio_avail st = bs @ rio_avail s')"
    unfolding st by (intro exI [of _ r] exI [of _ bs] exI [of _ "(rp', s')"]) (simp add: rio_step_def Let_def)
qed

text \<open>C22 (equivalence): the buffered \<open>rio_readnb\<close> delivers the same bytes and the same count as the
  unbuffered \<open>rio_readn\<close>, taken from what the internal buffer still holds and then from the
  descriptor, and leaves the rest to the next call.\<close>

theorem rio_readnb_exact:
  assumes "rio_ok (rp, s)" and "rio_quiet (rp, s)"
  shows "\<exists>st. rio_readnb rp n s = Inr (int (min n (length (rio_avail (rp, s)))), take n (rio_avail (rp, s)), st) \<and>
    rio_avail st = drop n (rio_avail (rp, s)) \<and> rio_ok st \<and> rio_quiet st"
  using rio.readnb_loop_quiet [OF assms, of n n "[]"] by (simp add: rio_readnb_def)

definition demo_rio :: rio_t where
  "demo_rio = rio_readinitb \<lparr>rio_fd = 0, rio_cnt = 7, rio_bufptr = 3, rio_buf = replicate RIO_BUFSIZE NUL\<rparr> 5"

lemma demo_rio_ok: "rio_ok (demo_rio, demo_sys)" "rio_quiet (demo_rio, demo_sys)"
  "rio_avail (demo_rio, demo_sys) = ''hello''"
  using demo_quiet
  by (simp_all add: rio_ok_def rio_quiet_def rio_avail_def demo_rio_def rio_readinitb_def demo_sys_def demo_port_def)

theorem rio_readnb_exact_witness:
  "\<exists>st. rio_readnb demo_rio 4 demo_sys = Inr (4, ''hell'', st) \<and> rio_avail st = ''o''"
  using rio_readnb_exact [OF demo_rio_ok(1,2), of 4] by (auto simp: demo_rio_ok(3))

text \<open>C23 (functional): \<open>rio_readlineb\<close> returns the next line, up to and with its newline or what fits
  in \<open>maxlen - 1\<close> characters, stores it NUL-terminated within the caller's buffer, and leaves the rest
  for the next call; at the end of the stream it returns 0 and stores nothing.\<close>

theorem rio_readlineb_exact:
  assumes "rio_ok (rp, s)" and "rio_quiet (rp, s)" and "1 < maxlen"
  shows "\<exists>st. rio_readlineb rp maxlen s =
      Inr (if rio_avail (rp, s) = [] then (0, None, st)
           else (let l = line_of (maxlen - 1) (rio_avail (rp, s)) in (int (length l), Some l, st))) \<and>
    rio_avail st = drop (length (line_of (maxlen - 1) (rio_avail (rp, s)))) (rio_avail (rp, s)) \<and>
    rio_ok st \<and> rio_quiet st"
  using rio.readlineb_loop_quiet [OF assms(1,2), of 1 "[]" maxlen] assms(3)
  by (cases "rio_avail (rp, s) = []") (simp_all add: rio_readlineb_def Let_def)

theorem rio_readlineb_exact_witness:
  "\<exists>st. rio_readlineb demo_rio 4 demo_sys = Inr (3, Some ''hel'', st) \<and> rio_avail st = ''lo''"
proof -
  have "line_of 3 ''hello'' = ''hel''" by (simp add: numeral_eq_Suc)
  with rio_readlineb_exact [OF demo_rio_ok(1,2), of 4] show ?thesis
    by (fastforce simp: demo_rio_ok(3) Let_def)
qed

end
