(* ===== verification/Sockets.thy ===== *)
theory Sockets
  imports RioIo
begin

text \<open>
  The client/server helpers of \<open>src/common/socket_io.cpp\<close>: opening a TCP connection or a listening
  socket by walking the addresses that \<open>getaddrinfo\<close> returns. The state is the set of descriptors
  the process has open; how the kernel answers for each address is part of the address.
\<close>

record addr_try =
  ai_fd :: int          \<comment> \<open>result of \<open>socket\<close>\<close>
  ai_reach :: bool      \<comment> \<open>\<open>connect\<close> or \<open>bind\<close> succeeds\<close>
  ai_close :: bool      \<comment> \<open>\<open>close\<close> of the descriptor succeeds\<close>

definition AI_PASSIVE :: int where "AI_PASSIVE = 0x0001"
definition AI_ADDRCONFIG :: int where "AI_ADDRCONFIG = 0x0020"
definition AI_NUMERICSERV :: int where "AI_NUMERICSERV = 0x0400"

text \<open>How the walk over the list ends: at an address that worked, at the end of the list, or by the
  early return when \<open>close\<close> fails.\<close>

datatype walk = Reached addr_try | No_address | Close_failed

fun walk_addrs :: "addr_try list \<Rightarrow> int set \<Rightarrow> walk \<times> int set" where
  "walk_addrs [] fds = (No_address, fds)"
| "walk_addrs (p # ps) fds =
     (if ai_fd p < 0 then walk_addrs ps fds
      else if ai_reach p then (Reached p, insert (ai_fd p) fds)
      else if \<not> ai_close p then (Close_failed, insert (ai_fd p) fds)
      else walk_addrs ps (fds - {ai_fd p}))"

text \<open>\<open>gai\<close> is \<open>getaddrinfo\<close> on a host (or \<open>NULL\<close>), a port and the flags of the hints.\<close>

definition open_clientfd ::
  "(string option \<Rightarrow> string \<Rightarrow> int \<Rightarrow> int + addr_try list) \<Rightarrow> string \<Rightarrow> string \<Rightarrow> int set \<Rightarrow> int \<times> int set" where
  "open_clientfd gai hostname prt fds =
     (case gai (Some hostname) prt (AI_NUMERICSERV + AI_ADDRCONFIG) of
        Inl rc \<Rightarrow> (-2, fds)
      | Inr listp \<Rightarrow>
          (case walk_addrs listp fds of
             (Close_failed, fds') \<Rightarrow> (-1, fds')
           | (No_address, fds') \<Rightarrow> (-1, fds')
           | (Reached p, fds') \<Rightarrow> (ai_fd p, fds')))"

definition open_listenfd ::
  "(string option \<Rightarrow> string \<Rightarrow> int \<Rightarrow> int + addr_try list) \<Rightarrow> (int \<Rightarrow> bool) \<Rightarrow> string \<Rightarrow> int set \<Rightarrow> int \<times> int set" where
  "open_listenfd gai listen_ok prt fds =
     (case gai None prt (AI_PASSIVE + AI_ADDRCONFIG + AI_NUMERICSERV) of
        Inl rc \<Rightarrow> (-2, fds)
      | Inr listp \<Rightarrow>
          (case walk_addrs listp fds of
             (Close_failed, fds') \<Rightarrow> (-1, fds')
           | (No_address, fds') \<Rightarrow> (-1, fds')
           | (Reached p, fds') \<Rightarrow>
               if \<not> listen_ok (ai_fd p)
               then (-1, if ai_close p then fds' - {ai_fd p} else fds')
               else (ai_fd p, fds')))"

text \<open>\<open>en\<close> is the value of \<open>errno\<close> when the call fails; \<open>MAXLINE\<close> bounds the message.\<close>

definition MAXLINE :: nat where "MAXLINE = 1024"

definition Open_clientfd ::
  "(string option \<Rightarrow> string \<Rightarrow> int \<Rightarrow> int + addr_try list) \<Rightarrow> int \<Rightarrow> string \<Rightarrow> string \<Rightarrow> int set \<Rightarrow> (int \<times> int set) res" where
  "Open_clientfd gai en hostname prt fds =
     (let (rc, fds') = open_clientfd gai hostname prt fds in
      if rc < 0 then
        (if length (''Open_clientfd error '' @ hostname @ '':'' @ prt) < MAXLINE then Inl (Exit en) else Inl OutOfBounds)
      else Inr (rc, fds'))"

definition Open_listenfd ::
  "(string option \<Rightarrow> string \<Rightarrow> int \<Rightarrow> int + addr_try list) \<Rightarrow> (int \<Rightarrow> bool) \<Rightarrow> int \<Rightarrow> string \<Rightarrow> int set \<Rightarrow>
   (int \<times> int set) res" where
  "Open_listenfd gai listen_ok en prt fds =
     (let (rc, fds') = open_listenfd gai listen_ok prt fds in if rc < 0 then Inl (Exit en) else Inr (rc, fds'))"

definition Close :: "(int \<Rightarrow> bool) \<Rightarrow> int \<Rightarrow> int \<Rightarrow> int set \<Rightarrow> int set res" where
  "Close close_ok en fd fds =
     (if fd < 1 then Inr fds else if \<not> close_ok fd then Inl (Exit en) else Inr (fds - {fd}))"

section \<open>No descriptor is lost\<close>

text \<open>The kernel gives out descriptors that are not in use, and \<open>close\<close> succeeds.\<close>

definition fresh_fds :: "addr_try list \<Rightarrow> int set \<Rightarrow> bool" where
  "fresh_fds ps fds \<longleftrightarrow> (\<forall>p \<in> set ps. ai_fd p \<notin> fds \<and> ai_close p)"

lemma walk_addrs_fds:
  assumes "fresh_fds ps fds"
  shows "case walk_addrs ps fds of
      (Reached p, fds') \<Rightarrow> p \<in> set ps \<and> ai_reach p \<and> 0 \<le> ai_fd p \<and> fds' = insert (ai_fd p) fds
    | (No_address, fds') \<Rightarrow> fds' = fds \<and> (\<forall>p \<in> set ps. ai_fd p < 0 \<or> \<not> ai_reach p)
    | (Close_failed, fds') \<Rightarrow> False"
  using assms by (induction ps) (auto simp: fresh_fds_def split: prod.splits walk.splits)

text \<open>\<open>open_listenfd\<close> leaves at most one new descriptor open: on success exactly the
  bound and listening one it returns, on failure (-1 or -2) none, and it fails with -1 only when no
  address could be bound or \<open>listen\<close> failed.\<close>

theorem open_listenfd_no_leak:
  assumes "\<And>ps. gai None prt (AI_PASSIVE + AI_ADDRCONFIG + AI_NUMERICSERV) = Inr ps \<Longrightarrow> fresh_fds ps fds"
  shows "case open_listenfd gai listen_ok prt fds of (r, fds') \<Rightarrow>
     (0 \<le> r \<and> r \<notin> fds \<and> fds' = insert r fds \<and> listen_ok r) \<or> ((r = -1 \<or> r = -2) \<and> fds' = fds)"
proof (cases "gai None prt (AI_PASSIVE + AI_ADDRCONFIG + AI_NUMERICSERV)")
  case (Inl rc)
  then show ?thesis by (simp add: open_listenfd_def)
next
  case (Inr ps)
  from assms [OF this] walk_addrs_fds [of ps fds] have
    "case walk_addrs ps fds of
      (Reached p, fds') \<Rightarrow> ai_fd p \<notin> fds \<and> ai_close p \<and> 0 \<le> ai_fd p \<and> fds' = insert (ai_fd p) fds
    | (No_address, fds') \<Rightarrow> fds' = fds | (Close_failed, fds') \<Rightarrow> False"
    by (auto simp: fresh_fds_def split: prod.splits walk.splits)
  with Inr show ?thesis by (auto simp: open_listenfd_def split: prod.splits walk.splits)
qed

definition demo_gai :: "string option \<Rightarrow> string \<Rightarrow> int \<Rightarrow> int + addr_try list" where
  "demo_gai h p fl = Inr [\<lparr>ai_fd = 4, ai_reach = False, ai_close = True\<rparr>, \<lparr>ai_fd = 4, ai_reach = True, ai_close = True\<rparr>]"

theorem open_listenfd_no_leak_witness:
  "open_listenfd demo_gai (\<lambda>_. True) ''80'' {0, 1, 2} = (4, {0, 1, 2, 4})"
proof -
  have "case open_listenfd demo_gai (\<lambda>_. True) ''80'' {0, 1, 2} of (r, fds') \<Rightarrow>
     (0 \<le> r \<and> r \<notin> {0, 1, 2} \<and> fds' = insert r {0, 1, 2} \<and> True) \<or> ((r = -1 \<or> r = -2) \<and> fds' = {0, 1, 2})"
    by (rule open_listenfd_no_leak) (auto simp: demo_gai_def fresh_fds_def)
  then show ?thesis by (auto simp: open_listenfd_def demo_gai_def)
qed

end
