(* ===== verification/DirTree.thy ===== *)
theory DirTree
  imports CStrings
begin

text \<open>
  The recursive creation of directories in \<open>src/common/usg_common.cpp\<close> (\<open>mkdir_r\<close>, \<open>mkdiratfd_r\<close>,
  \<open>mkdirat_r\<close>) over a model of the directory tree: a path is resolved to the list of its components
  (\<open>.\<close> and \<open>..\<close> are ordinary names here, the program forms no such path).
\<close>

section \<open>The directory tree\<close>

record dirfs =
  dirs :: "string list set"            \<comment> \<open>the directories, as component lists from the root\<close>
  files :: "string list set"           \<comment> \<open>everything else that has a name\<close>
  cwd :: "string list"
  refused :: "string list \<Rightarrow> bool"     \<comment> \<open>where the kernel refuses \<open>mkdir\<close> (permissions, space)\<close>

text \<open>The pieces between the separators, and the components they stand for.\<close>

fun pieces :: "string \<Rightarrow> string list" where
  "pieces [] = [[]]"
| "pieces (c # cs) =
     (if c = CHR ''/'' then [] # pieces cs
      else (case pieces cs of [] \<Rightarrow> [[c]] | x # xs \<Rightarrow> (c # x) # xs))"

definition comps :: "string \<Rightarrow> string list" where
  "comps path = filter (\<lambda>x. x \<noteq> []) (pieces path)"

definition resolve :: "string list \<Rightarrow> string \<Rightarrow> string list" where
  "resolve base path = (if path \<noteq> [] \<and> hd path = CHR ''/'' then comps path else base @ comps path)"

text \<open>\<open>access(path, F_OK)\<close> and \<open>faccessat\<close>: an empty path does not exist.\<close>

definition sys_access :: "string list \<Rightarrow> string \<Rightarrow> dirfs \<Rightarrow> bool" where
  "sys_access base path fs \<longleftrightarrow> path \<noteq> [] \<and> resolve base path \<in> dirs fs \<union> files fs"

text \<open>\<open>mkdir\<close> and \<open>mkdirat\<close>.\<close>

definition sys_mkdir :: "string list \<Rightarrow> string \<Rightarrow> dirfs \<Rightarrow> int \<times> dirfs" where
  "sys_mkdir base path fs =
     (let r = resolve base path in
      if path = [] \<or> r = [] \<or> r \<in> dirs fs \<union> files fs \<or> butlast r \<notin> dirs fs \<or> refused fs r then (-1, fs)
      else (0, fs\<lparr>dirs := insert r (dirs fs)\<rparr>))"

section \<open>The recursive functions\<close>

lemma strstr_r_bound: "strstr_r (Some s) (Some nd) = Inr (Some i) \<Longrightarrow> i + length nd \<le> length s"
  using strstr_r_loop_spec [where s = s and needle = nd and e = "length s - length nd"]
  by (auto simp: strstr_r_def split: if_splits option.splits)

text \<open>A NUL written at \<open>parent_end\<close> cuts the copy of the path at the last separator.\<close>

function mkdir_r :: "string \<Rightarrow> dirfs \<Rightarrow> int \<times> dirfs" where
  "mkdir_r pathname fs =
     (if sys_access (cwd fs) pathname fs then (0, fs)
      else if pathname = PATH_SEPERATOR then sys_mkdir (cwd fs) pathname fs
      else (let (r, fs1) = (case strstr_r (Some pathname) (Some PATH_SEPERATOR) of
                              Inr (Some i) \<Rightarrow> mkdir_r (take i pathname) fs
                            | _ \<Rightarrow> (0, fs)) in
            if r = -1 then (-1, fs1)
            else if pathname = [] then (0, fs1)
            else sys_mkdir (cwd fs1) pathname fs1))"
  by pat_completeness auto
termination
  by (relation "measure (\<lambda>(p, fs). length p)") (auto dest: strstr_r_bound simp: PATH_SEPERATOR_def)

declare mkdir_r.simps [simp del]

text \<open>The label \<open>LABEL_FIND_PARENT\<close> of \<open>mkdiratfd_r\<close>: separators at the end are cut off first.\<close>

function find_parent :: "string \<Rightarrow> string option" where
  "find_parent parent =
     (case strstr_r (Some parent) (Some PATH_SEPERATOR) of
        Inr (Some i) \<Rightarrow>
          if i + length PATH_SEPERATOR = length parent then find_parent (take i parent) else Some (take i parent)
      | _ \<Rightarrow> None)"
  by pat_completeness auto
termination
  by (relation "measure length") (auto dest: strstr_r_bound simp: PATH_SEPERATOR_def)

declare find_parent.simps [simp del]

lemma find_parent_shorter: "find_parent p = Some q \<Longrightarrow> length q < length p"
proof (induction p rule: find_parent.induct)
  case (1 p)
  show ?case
  proof (cases "strstr_r (Some p) (Some PATH_SEPERATOR)")
    case (Inr r)
    then show ?thesis
      using 1 strstr_r_bound [of p PATH_SEPERATOR]
      by (cases r) (fastforce simp: find_parent.simps [of p] PATH_SEPERATOR_def split: if_splits)+
  qed (use 1 in \<open>simp add: find_parent.simps [of p]\<close>)
qed

function mkdiratfd_r :: "string list \<Rightarrow> string \<Rightarrow> dirfs \<Rightarrow> int \<times> dirfs" where
  "mkdiratfd_r base pathname fs =
     (if sys_access base pathname fs then (0, fs)
      else if pathname = PATH_SEPERATOR then sys_mkdir (cwd fs) pathname fs
      else (let (r, fs1) = (case find_parent pathname of
                              Some parent \<Rightarrow> mkdiratfd_r base parent fs
                            | None \<Rightarrow> (0, fs)) in
            if r = -1 then (-1, fs1) else sys_mkdir base pathname fs1))"
  by pat_completeness auto
termination
  by (relation "measure (\<lambda>(b, p, fs). length p)") (auto dest: find_parent_shorter)

declare mkdiratfd_r.simps [simp del]

text \<open>\<open>opendir\<close> needs a directory; the mode passed is not the one given, and the stream stays open.\<close>

definition mkdirat_r :: "string \<Rightarrow> string \<Rightarrow> dirfs \<Rightarrow> int \<times> dirfs" where
  "mkdirat_r dir pathname fs =
     (if dir \<noteq> [] \<and> resolve (cwd fs) dir \<in> dirs fs then mkdiratfd_r (resolve (cwd fs) dir) pathname fs
      else (-1, fs))"

section \<open>Paths and components\<close>

lemma pieces_nonempty [simp]: "pieces p \<noteq> []"
  by (cases p) (auto split: list.splits)

lemma pieces_append: "pieces (p @ CHR ''/'' # q) = pieces p @ pieces q"
  by (induction p) (auto split: list.splits)

lemma comps_append [simp]: "comps (p @ CHR ''/'' # q) = comps p @ comps q"
  by (simp add: comps_def pieces_append)

lemma comps_empty [simp]: "comps [] = []"
  by (simp add: comps_def)

lemma comps_slash [simp]: "comps (CHR ''/'' # q) = comps q"
  using comps_append [of "[]" q] by simp

lemma pieces_name: "CHR ''/'' \<notin> set p \<Longrightarrow> pieces p = [p]"
  by (induction p) auto

lemma comps_name [simp]: "CHR ''/'' \<notin> set p \<Longrightarrow> comps p = (if p = [] then [] else [p])"
  by (simp add: comps_def pieces_name)

text \<open>Cutting at the last separator.\<close>

lemma last_slash_split:
  assumes "strstr_r (Some p) (Some PATH_SEPERATOR) = Inr (Some i)"
  shows "p = take i p @ CHR ''/'' # drop (Suc i) p" and "CHR ''/'' \<notin> set (drop (Suc i) p)"
proof -
  from assms have len: "1 \<le> length p" and r: "strstr_r_loop p ''/'' (length p - 1) = Some i"
    by (auto simp: strstr_r_def PATH_SEPERATOR_def split: if_splits)
  note sp = strstr_r_loop_spec [where s = p and needle = "''/''" and e = "length p - 1", unfolded r, simplified]
  then have i: "i < length p" using len by linarith
  with sp have "p ! i = CHR ''/''" by (simp add: take_Suc_conv_app_nth [of 0] hd_drop_conv_nth take_Suc)
  with i show "p = take i p @ CHR ''/'' # drop (Suc i) p" by (metis id_take_nth_drop)
  show "CHR ''/'' \<notin> set (drop (Suc i) p)"
  proof
    assume "CHR ''/'' \<in> set (drop (Suc i) p)"
    then obtain k where k: "k < length p - Suc i" "p ! (Suc i + k) = CHR ''/''" by (auto simp: in_set_conv_nth)
    then have "take 1 (drop (Suc i + k) p) = ''/''" by (simp add: take_Suc hd_drop_conv_nth)
    with sp k show False by auto
  qed
qed

lemma no_slash:
  assumes "strstr_r (Some p) (Some PATH_SEPERATOR) = Inr None"
  shows "CHR ''/'' \<notin> set p"
proof
  assume "CHR ''/'' \<in> set p"
  then obtain k where k: "k < length p" "p ! k = CHR ''/''" by (auto simp: in_set_conv_nth)
  then have "take 1 (drop k p) = ''/''" by (simp add: take_Suc hd_drop_conv_nth)
  with assms k strstr_r_loop_spec [where s = p and needle = "''/''" and e = "length p - 1"] show False
    by (auto simp: strstr_r_def PATH_SEPERATOR_def split: if_splits)
qed

lemma strstr_r_total: "\<exists>r. strstr_r (Some p) (Some PATH_SEPERATOR) = Inr r"
  by (auto simp: strstr_r_def)

section \<open>What \<open>mkdir_r\<close> does to the tree\<close>

definition tree_ok :: "dirfs \<Rightarrow> bool" where
  "tree_ok fs \<longleftrightarrow>
     [] \<in> dirs fs \<and> cwd fs \<in> dirs fs \<and> dirs fs \<inter> files fs = {} \<and>
     (\<forall>r \<in> dirs fs \<union> files fs. r \<noteq> [] \<longrightarrow> butlast r \<in> dirs fs)"

text \<open>\<open>grown fs fs' r\<close>: the tree has gained nothing but directories on the way to \<open>r\<close>.\<close>

definition grown :: "dirfs \<Rightarrow> dirfs \<Rightarrow> string list \<Rightarrow> bool" where
  "grown fs fs' r \<longleftrightarrow>
     dirs fs \<subseteq> dirs fs' \<and> (\<forall>x \<in> dirs fs' - dirs fs. \<exists>k. x = take k r) \<and>
     files fs' = files fs \<and> cwd fs' = cwd fs \<and> refused fs' = refused fs"

lemma grown_refl [simp]: "grown fs fs r"
  by (simp add: grown_def)

lemma grown_mono: "grown fs fs' (take j r) \<Longrightarrow> grown fs fs' r"
  by (fastforce simp: grown_def)

lemma grown_trans: "grown fs fs1 r \<Longrightarrow> grown fs1 fs2 r \<Longrightarrow> grown fs fs2 r"
  by (auto simp: grown_def)

lemma sys_mkdir_sound:
  assumes "tree_ok fs" and "sys_mkdir base p fs = (r, fs')"
  shows "tree_ok fs'" "grown fs fs' (resolve base p)" "r = 0 \<or> r = -1" "r = 0 \<Longrightarrow> sys_access base p fs'"
  using assms
  by (auto simp: sys_mkdir_def tree_ok_def grown_def sys_access_def Let_def split: if_splits
      intro: exI [of _ "length (resolve base p)"])

lemma resolve_parent:
  assumes "strstr_r (Some p) (Some PATH_SEPERATOR) = Inr (Some i)" and "take i p \<noteq> []"
  shows "\<exists>j. resolve b (take i p) = take j (resolve b p)"
proof -
  define q where "q = take i p"
  define t where "t = drop (Suc i) p"
  have p: "p = q @ CHR ''/'' # t" using last_slash_split(1) [OF assms(1)] by (simp add: q_def t_def)
  then have "comps p = comps q @ comps t" by simp
  moreover have "q \<noteq> []" using assms(2) by (simp only: q_def not_False_eq_True)
  moreover from this have "hd p = hd q" and "p \<noteq> []" using p by (metis hd_append2, blast)
  ultimately have "resolve b p = resolve b q @ comps t" by (simp only: resolve_def) simp
  then have "resolve b q = take (length (resolve b q)) (resolve b p)" by simp
  then show ?thesis unfolding q_def by blast
qed

lemma mkdir_r_empty [simp]: "mkdir_r [] fs = (0, fs)"
  by (subst mkdir_r.simps) (simp add: sys_access_def PATH_SEPERATOR_def strstr_r_def)

text \<open>The directory above is made first, if there is one.\<close>

definition mk_parent :: "string \<Rightarrow> dirfs \<Rightarrow> int \<times> dirfs" where
  "mk_parent p fs =
     (case strstr_r (Some p) (Some PATH_SEPERATOR) of Inr (Some i) \<Rightarrow> mkdir_r (take i p) fs | _ \<Rightarrow> (0, fs))"

lemma mkdir_r_new:
  assumes "\<not> sys_access (cwd fs) p fs" "p \<noteq> PATH_SEPERATOR" "p \<noteq> []" "mk_parent p fs = (r, fs1)"
  shows "mkdir_r p fs = (if r = -1 then (-1, fs1) else sys_mkdir (cwd fs1) p fs1)"
  using assms by (simp add: mkdir_r.simps [of p fs] mk_parent_def)

lemma mk_parent_cases:
  obtains (none) "strstr_r (Some p) (Some PATH_SEPERATOR) = Inr None" "mk_parent p fs = (0, fs)"
  | (root) i where "strstr_r (Some p) (Some PATH_SEPERATOR) = Inr (Some i)" "take i p = []" "mk_parent p fs = (0, fs)"
  | (dir) i where "strstr_r (Some p) (Some PATH_SEPERATOR) = Inr (Some i)" "take i p \<noteq> []" "mk_parent p fs = mkdir_r (take i p) fs"
proof -
  obtain x where x: "strstr_r (Some p) (Some PATH_SEPERATOR) = Inr x" using strstr_r_total by blast
  show thesis
  proof (cases x)
    case None
    with x none show thesis by (simp add: mk_parent_def)
  next
    case (Some i)
    then have m: "mk_parent p fs = mkdir_r (take i p) fs" using x by (simp add: mk_parent_def)
    show thesis
    proof (cases "take i p = []")
      case True
      show thesis by (rule root [OF x [unfolded Some] True]) (simp only: m True mkdir_r_empty)
    qed (rule dir [OF x [unfolded Some] _ m])
  qed
qed

lemma mkdir_r_ok:
  assumes "tree_ok fs" and "mkdir_r p fs = (r, fs')"
  shows "tree_ok fs' \<and> grown fs fs' (resolve (cwd fs) p) \<and> (r = 0 \<or> r = -1) \<and>
    (r = 0 \<longrightarrow> p = [] \<or> sys_access (cwd fs) p fs')"
  using assms
proof (induction p fs arbitrary: r fs' rule: mkdir_r.induct)
  case (1 p fs)
  show ?case
  proof (cases "p = [] \<or> sys_access (cwd fs) p fs \<or> p = PATH_SEPERATOR")
    case True
    with "1.prems" sys_mkdir_sound [of fs "cwd fs" p r fs'] show ?thesis
      by (cases "p = []") (auto simp: mkdir_r.simps [of p fs] split: if_splits)
  next
    case False
    then have new: "\<not> sys_access (cwd fs) p fs" "p \<noteq> PATH_SEPERATOR" "p \<noteq> []" by auto
    obtain r1 fs1 where q: "mk_parent p fs = (r1, fs1)" by force
    have fs1: "tree_ok fs1 \<and> grown fs fs1 (resolve (cwd fs) p)"
    proof (cases rule: mk_parent_cases [of p fs])
      case (dir i)
      then have "mkdir_r (take i p) fs = (r1, fs1)" using q by simp
      from "1.IH" [OF new(1,2) dir(1) refl "1.prems"(1) this]
      have "tree_ok fs1" "grown fs fs1 (resolve (cwd fs) (take i p))" by auto
      with resolve_parent [OF dir(1,2), of "cwd fs"] show ?thesis by (metis grown_mono)
    qed (use q "1.prems"(1) in auto)
    then have "r1 = -1 \<and> r = -1 \<and> fs' = fs1 \<or> sys_mkdir (cwd fs) p fs1 = (r, fs')"
      using mkdir_r_new [OF new q] "1.prems"(2) by (auto simp: grown_def split: if_splits)
    with fs1 sys_mkdir_sound [OF conjunct1 [OF fs1], of "cwd fs" p r fs'] show ?thesis by (auto intro: grown_trans)
  qed
qed

text \<open>C37 (safety): \<open>mkdir_r\<close> keeps the tree well formed, removes nothing, creates nothing but directories
  on the way to its argument, and returns 0 only when the path exists afterwards (or was empty).\<close>

theorem mkdir_r_safe:
  assumes "tree_ok fs" and "mkdir_r p fs = (r, fs')"
  shows "tree_ok fs' \<and> dirs fs \<subseteq> dirs fs' \<and> files fs' = files fs \<and>
    (\<forall>x \<in> dirs fs'. x \<in> dirs fs \<or> (\<exists>k. x = take k (resolve (cwd fs) p))) \<and>
    (r = 0 \<longrightarrow> p = [] \<or> sys_access (cwd fs) p fs')"
  using mkdir_r_ok [OF assms] by (auto simp: grown_def)

definition demo_fs :: dirfs where
  "demo_fs = \<lparr>dirs = {[], [''data'']}, files = {}, cwd = [], refused = (\<lambda>_. False)\<rparr>"

lemma demo_fs_ok: "tree_ok demo_fs"
  by (simp add: tree_ok_def demo_fs_def)

theorem mkdir_r_safe_witness:
  "\<exists>r fs'. mkdir_r ''/data/hoststack'' demo_fs = (r, fs') \<and> tree_ok fs' \<and> [''data''] \<in> dirs fs'"
proof -
  obtain r fs' where m: "mkdir_r ''/data/hoststack'' demo_fs = (r, fs')" by fastforce
  from mkdir_r_safe [OF demo_fs_ok m] m show ?thesis by (auto simp: demo_fs_def)
qed

subsection \<open>It creates the whole path\<close>

text \<open>A path without empty components: no separator at the end, none doubled.\<close>

definition clean :: "string \<Rightarrow> bool" where
  "clean p \<longleftrightarrow> p \<noteq> [] \<and> [] \<notin> set (tl (pieces p))"

definition prefixes_of :: "string list \<Rightarrow> string list set" where
  "prefixes_of r = {take k r |k. k \<le> length r}"

lemma tree_ok_prefix: "tree_ok fs \<Longrightarrow> r \<in> dirs fs \<Longrightarrow> take k r \<in> dirs fs"
proof (induction "length r - k" arbitrary: k)
  case 0
  then show ?case by simp
next
  case (Suc n)
  then have "take (Suc k) r \<in> dirs fs" by simp
  moreover have "take (Suc k) r \<noteq> []" "butlast (take (Suc k) r) = take k r"
    using Suc.hyps(2) by (auto simp: butlast_take)
  ultimately show ?case using Suc.prems(1) unfolding tree_ok_def by (metis UnI1)
qed

lemma prefixes_of_dirs: "tree_ok fs \<Longrightarrow> r \<in> dirs fs \<Longrightarrow> prefixes_of r \<subseteq> dirs fs"
  by (auto simp: prefixes_of_def tree_ok_prefix)

lemma prefixes_of_image: "prefixes_of r = (\<lambda>k. take k r) ` {..length r}"
  by (auto simp: prefixes_of_def)

lemma prefixes_of_snoc: "prefixes_of (r @ [x]) = insert (r @ [x]) (prefixes_of r)"
  by (simp add: prefixes_of_image atMost_Suc cong: image_cong_simp)

lemma butlast_no_prefix:
  assumes "r \<noteq> []"
  shows "r \<notin> prefixes_of (butlast r)"
proof
  assume "r \<in> prefixes_of (butlast r)"
  then obtain k where "r = take k (butlast r)" by (auto simp: prefixes_of_def)
  then have "length r \<le> length (butlast r)" by (metis length_take min.cobounded1)
  then show False using assms by (cases r rule: rev_cases) auto
qed

lemma self_prefix [simp]: "r \<in> prefixes_of r"
  by (auto simp: prefixes_of_def intro: exI [of _ "length r"])

lemma clean_split:
  assumes "clean p" and "strstr_r (Some p) (Some PATH_SEPERATOR) = Inr (Some i)"
  shows "drop (Suc i) p \<noteq> []" and "take i p \<noteq> [] \<Longrightarrow> clean (take i p)"
    and "resolve b p = (if take i p = [] then [] else resolve b (take i p)) @ [drop (Suc i) p]"
proof -
  define q where "q = take i p"
  define t where "t = drop (Suc i) p"
  note sp = last_slash_split [OF assms(2), folded q_def t_def]
  have pc: "pieces p = pieces q @ [t]" using sp(2) by (subst sp(1)) (simp add: pieces_append pieces_name)
  then have "[] \<notin> set (tl (pieces q) @ [t])" using assms(1) by (simp add: clean_def)
  then have t: "t \<noteq> []" and cq: "q \<noteq> [] \<Longrightarrow> clean q" by (auto simp: clean_def)
  have cp: "comps p = comps q @ [t]" using sp(2) t by (subst sp(1)) simp
  have "resolve b p = (if q = [] then [] else resolve b q) @ [t]"
  proof (cases "q = []")
    case True
    then have "hd p = CHR ''/''" "p \<noteq> []" using sp(1) by (metis append_Nil list.sel(1), metis append_is_Nil_conv list.discI)
    with cp True show ?thesis by (simp add: resolve_def)
  next
    case False
    then have "hd p = hd q" "p \<noteq> []" using sp(1) by (metis hd_append2, metis append_is_Nil_conv)
    with cp False show ?thesis by (simp add: resolve_def)
  qed
  then show "resolve b p = (if take i p = [] then [] else resolve b (take i p)) @ [drop (Suc i) p]"
    by (simp only: q_def t_def)
  show "drop (Suc i) p \<noteq> []" using t by (simp only: t_def not_False_eq_True)
  show "clean (take i p)" if "take i p \<noteq> []" using cq that by (simp only: q_def not_False_eq_True)
qed

text \<open>The last step: every directory above the new one is there.\<close>

lemma sys_mkdir_last:
  assumes fs1: "fs1 = fs\<lparr>dirs := dirs fs1\<rparr>" "dirs fs1 = dirs fs \<union> prefixes_of (butlast r)"
    and r: "r = resolve (cwd fs) p" "r \<noteq> []" "p \<noteq> []" and new: "r \<notin> dirs fs" "r \<notin> files fs" "\<not> refused fs r"
  shows "\<exists>fs'. sys_mkdir (cwd fs1) p fs1 = (0, fs') \<and> dirs fs' = dirs fs \<union> prefixes_of r \<and> fs' = fs\<lparr>dirs := dirs fs'\<rparr>"
proof -
  have sel: "cwd fs1 = cwd fs" "files fs1 = files fs" "refused fs1 = refused fs"
    using arg_cong [OF fs1(1), of cwd] arg_cong [OF fs1(1), of files] arg_cong [OF fs1(1), of refused] by simp_all
  have upd: "fs1\<lparr>dirs := X\<rparr> = fs\<lparr>dirs := X\<rparr>" for X by (subst fs1(1)) simp
  have split: "prefixes_of r = insert r (prefixes_of (butlast r))"
    using prefixes_of_snoc [of "butlast r" "last r"] r(2) by simp
  have "r \<notin> prefixes_of (butlast r)" by (rule butlast_no_prefix [OF r(2)])
  then have "sys_mkdir (cwd fs1) p fs1 = (0, fs\<lparr>dirs := insert r (dirs fs1)\<rparr>)"
    using new fs1(2) r sel by (simp add: sys_mkdir_def Let_def upd)
  then show ?thesis using fs1(2) split by (intro exI [of _ "fs\<lparr>dirs := insert r (dirs fs1)\<rparr>"]) auto
qed

lemma mkdir_r_complete:
  assumes "tree_ok fs" and "clean p"
    and "\<forall>x \<in> prefixes_of (resolve (cwd fs) p). x \<in> dirs fs \<or> x \<notin> files fs \<and> \<not> refused fs x"
  shows "\<exists>fs'. mkdir_r p fs = (0, fs') \<and> dirs fs' = dirs fs \<union> prefixes_of (resolve (cwd fs) p) \<and>
    fs' = fs\<lparr>dirs := dirs fs'\<rparr>"
  using assms
proof (induction p fs rule: mkdir_r.induct)
  case (1 p fs)
  let ?r = "resolve (cwd fs) p"
  have pne: "p \<noteq> PATH_SEPERATOR" "p \<noteq> []" using "1.prems"(2) by (auto simp: clean_def PATH_SEPERATOR_def)
  show ?case
  proof (cases "sys_access (cwd fs) p fs")
    case True
    then have "?r \<in> dirs fs" using "1.prems"(3) self_prefix [of ?r] by (auto simp: sys_access_def)
    with True prefixes_of_dirs [OF "1.prems"(1)] show ?thesis
      by (intro exI [of _ fs]) (auto simp: mkdir_r.simps [of p fs])
  next
    case False
    have new: "?r \<notin> dirs fs" "?r \<notin> files fs" "\<not> refused fs ?r"
      using False pne "1.prems"(3) self_prefix [of ?r] by (auto simp: sys_access_def)
    have "\<exists>fs1. mk_parent p fs = (0, fs1) \<and> fs1 = fs\<lparr>dirs := dirs fs1\<rparr> \<and> ?r \<noteq> [] \<and> dirs fs1 = dirs fs \<union> prefixes_of (butlast ?r)"
    proof (cases rule: mk_parent_cases [of p fs])
      case none
      then have "CHR ''/'' \<notin> set p" using no_slash by simp
      then have "?r = cwd fs @ [p]" using pne by (auto simp: resolve_def dest: hd_in_set)
      moreover have "prefixes_of (cwd fs) \<subseteq> dirs fs"
        using "1.prems"(1) by (intro prefixes_of_dirs) (auto simp: tree_ok_def)
      ultimately show ?thesis using none by (intro exI [of _ fs]) auto
    next
      case (root i)
      then have "?r = [drop (Suc i) p]" using clean_split(3) [OF "1.prems"(2) root(1), of "cwd fs"] by simp
      moreover have "prefixes_of [] \<subseteq> dirs fs" using "1.prems"(1) by (auto simp: prefixes_of_def tree_ok_def)
      ultimately show ?thesis using root by (intro exI [of _ fs]) auto
    next
      case (dir i)
      note cs = clean_split [OF "1.prems"(2) dir(1)]
      have r: "?r = resolve (cwd fs) (take i p) @ [drop (Suc i) p]" using cs(3) [of "cwd fs"] dir(2) by metis
      have "\<forall>x \<in> prefixes_of (resolve (cwd fs) (take i p)). x \<in> dirs fs \<or> x \<notin> files fs \<and> \<not> refused fs x"
        using "1.prems"(3) unfolding r by (simp add: prefixes_of_snoc)
      from "1.IH" [OF False pne(1) dir(1) refl "1.prems"(1) cs(2) [OF dir(2)] this] dir(3) r show ?thesis by auto
    qed
    then obtain fs1 where "mk_parent p fs = (0, fs1)" "fs1 = fs\<lparr>dirs := dirs fs1\<rparr>" "?r \<noteq> []"
      "dirs fs1 = dirs fs \<union> prefixes_of (butlast ?r)" by blast
    with sys_mkdir_last [OF _ _ refl _ pne(2) new] mkdir_r_new [OF False pne] show ?thesis by simp
  qed
qed

lemma mkdir_r_result:
  assumes "tree_ok fs" and "clean p"
    and "\<forall>x \<in> prefixes_of (resolve (cwd fs) p). x \<in> dirs fs \<or> x \<notin> files fs \<and> \<not> refused fs x"
  shows "mkdir_r p fs = (0, fs\<lparr>dirs := dirs fs \<union> prefixes_of (resolve (cwd fs) p)\<rparr>)"
proof -
  from mkdir_r_complete [OF assms] obtain fs' where m: "mkdir_r p fs = (0, fs')"
    "dirs fs' = dirs fs \<union> prefixes_of (resolve (cwd fs) p)" "fs' = fs\<lparr>dirs := dirs fs'\<rparr>" by blast
  from m(3) have "fs' = fs\<lparr>dirs := dirs fs \<union> prefixes_of (resolve (cwd fs) p)\<rparr>" unfolding m(2) .
  with m(1) show ?thesis by simp
qed

text \<open>C36 (functional): when nothing on the way is a file and the kernel refuses nothing, \<open>mkdir_r\<close> of a
  path without empty components returns 0 and has added to the tree exactly the directories of the
  path that were missing.\<close>

theorem mkdir_r_creates_path:
  assumes "tree_ok fs" and "clean p"
    and "\<forall>x \<in> prefixes_of (resolve (cwd fs) p). x \<in> dirs fs \<or> x \<notin> files fs \<and> \<not> refused fs x"
  shows "mkdir_r p fs = (0, fs\<lparr>dirs := dirs fs \<union> prefixes_of (resolve (cwd fs) p)\<rparr>)"
  by (rule mkdir_r_result [OF assms])

theorem mkdir_r_creates_path_witness:
  "mkdir_r ''/data/hoststack'' demo_fs = (0, demo_fs\<lparr>dirs := {[], [''data''], [''data'', ''hoststack'']}\<rparr>)"
proof -
  have r: "resolve (cwd demo_fs) ''/data/hoststack'' = [''data'', ''hoststack'']"
    by (simp add: resolve_def comps_def)
  have p: "prefixes_of [''data'', ''hoststack''] = {[], [''data''], [''data'', ''hoststack'']}"
    by (auto simp: prefixes_of_image atMost_Suc)
  have "clean ''/data/hoststack''" by (simp add: clean_def)
  moreover have "\<forall>x \<in> prefixes_of (resolve (cwd demo_fs) ''/data/hoststack'').
      x \<in> dirs demo_fs \<or> x \<notin> files demo_fs \<and> \<not> refused demo_fs x" by (simp add: demo_fs_def)
  ultimately have "mkdir_r ''/data/hoststack'' demo_fs =
      (0, demo_fs\<lparr>dirs := dirs demo_fs \<union> prefixes_of (resolve (cwd demo_fs) ''/data/hoststack'')\<rparr>)"
    by (rule mkdir_r_creates_path [OF demo_fs_ok])
  then show ?thesis unfolding r p by (simp add: demo_fs_def insert_commute)
qed

text \<open>With a separator at its end, a path of which nothing but the last directory is
  missing makes \<open>mkdir_r\<close> create the directory and still report failure.\<close>

theorem mkdir_r_trailing_slash:
  assumes "tree_ok fs" and "clean p"
    and "\<forall>x \<in> prefixes_of (resolve (cwd fs) p). x \<in> dirs fs \<or> x \<notin> files fs \<and> \<not> refused fs x"
    and "resolve (cwd fs) p \<notin> dirs fs"
  shows "mkdir_r (p @ ''/'') fs = (-1, fs\<lparr>dirs := dirs fs \<union> prefixes_of (resolve (cwd fs) p)\<rparr>)"
proof -
  let ?q = "p @ ''/''" and ?fs = "fs\<lparr>dirs := dirs fs \<union> prefixes_of (resolve (cwd fs) p)\<rparr>"
  have pne: "p \<noteq> []" using assms(2) by (simp add: clean_def)
  have cq: "comps ?q = comps p" using comps_append [of p "[]"] by simp
  have rq: "resolve b ?q = resolve b p" for b using pne cq by (simp add: resolve_def)
  have "resolve (cwd fs) p \<notin> files fs" using assms(3,4) self_prefix by blast
  then have na: "\<not> sys_access (cwd fs) ?q fs" using assms(4) by (simp add: sys_access_def rq)
  obtain x where x: "strstr_r (Some ?q) (Some PATH_SEPERATOR) = Inr x" using strstr_r_total by blast
  have "x = Some (length p)"
  proof (cases x)
    case None
    then show ?thesis using no_slash [of ?q] x by simp
  next
    case (Some i)
    note sp = last_slash_split(2) [OF x [unfolded Some]] and b = strstr_r_bound [OF x [unfolded Some]]
    from sp have "\<not> i < length p" by auto
    with b Some show ?thesis by (simp add: PATH_SEPERATOR_def)
  qed
  with x have s: "strstr_r (Some ?q) (Some PATH_SEPERATOR) = Inr (Some (length p))" by simp
  have m: "mkdir_r p fs = (0, ?fs)" by (rule mkdir_r_result [OF assms(1-3)])
  have "sys_mkdir (cwd ?fs) ?q ?fs = (-1, ?fs)" by (simp add: sys_mkdir_def rq Let_def)
  then show ?thesis
    using na s m pne unfolding mkdir_r.simps [of ?q fs] by (simp add: PATH_SEPERATOR_def)
qed

theorem mkdir_r_trailing_slash_witness:
  "fst (mkdir_r ''/data/hoststack/'' demo_fs) = -1 \<and>
   [''data'', ''hoststack''] \<in> dirs (snd (mkdir_r ''/data/hoststack/'' demo_fs))"
proof -
  have r: "resolve (cwd demo_fs) ''/data/hoststack'' = [''data'', ''hoststack'']"
    by (simp add: resolve_def comps_def)
  have "clean ''/data/hoststack''" by (simp add: clean_def)
  moreover have "\<forall>x \<in> prefixes_of (resolve (cwd demo_fs) ''/data/hoststack'').
      x \<in> dirs demo_fs \<or> x \<notin> files demo_fs \<and> \<not> refused demo_fs x" by (simp add: demo_fs_def)
  moreover have "resolve (cwd demo_fs) ''/data/hoststack'' \<notin> dirs demo_fs" unfolding r by (simp add: demo_fs_def)
  ultimately have "mkdir_r (''/data/hoststack'' @ ''/'') demo_fs =
      (-1, demo_fs\<lparr>dirs := dirs demo_fs \<union> prefixes_of (resolve (cwd demo_fs) ''/data/hoststack'')\<rparr>)"
    by (rule mkdir_r_trailing_slash [OF demo_fs_ok])
  then show ?thesis unfolding r by simp
qed

section \<open>The service the file-system layer relies on\<close>

text \<open>Several calls in a row, as the code makes them when it lays out a container.\<close>

fun mk_all :: "(string \<Rightarrow> 'fs \<Rightarrow> int \<times> 'fs) \<Rightarrow> string list \<Rightarrow> 'fs \<Rightarrow> int list \<times> 'fs" where
  "mk_all mk [] fs = ([], fs)"
| "mk_all mk (p # ps) fs = (let (r, fs1) = mk p fs; (rs, fs2) = mk_all mk ps fs1 in (r # rs, fs2))"

locale dir_maker =
  fixes mk :: "string \<Rightarrow> 'fs \<Rightarrow> int \<times> 'fs"
    and wf :: "'fs \<Rightarrow> bool"
    and there :: "'fs \<Rightarrow> string list set"
    and loc :: "'fs \<Rightarrow> string \<Rightarrow> string list"
    and may :: "'fs \<Rightarrow> string \<Rightarrow> bool"
  assumes mk_ok: "wf fs \<Longrightarrow> may fs p \<Longrightarrow> \<exists>fs'. mk p fs = (0, fs') \<and> wf fs' \<and>
      there fs' = there fs \<union> prefixes_of (loc fs p) \<and> loc fs' = loc fs \<and> (\<forall>q. may fs q \<longrightarrow> may fs' q)"
begin

lemma mk_all_ok:
  assumes "wf fs" and "\<forall>p \<in> set ps. may fs p"
  shows "\<exists>fs'. mk_all mk ps fs = (replicate (length ps) 0, fs') \<and> wf fs' \<and>
    there fs' = there fs \<union> (\<Union>p \<in> set ps. prefixes_of (loc fs p)) \<and> loc fs' = loc fs"
  using assms
proof (induction ps arbitrary: fs)
  case (Cons p ps)
  from mk_ok [of fs p] Cons.prems obtain fs1 where m: "mk p fs = (0, fs1)" "wf fs1"
    "there fs1 = there fs \<union> prefixes_of (loc fs p)" "loc fs1 = loc fs" "\<forall>q. may fs q \<longrightarrow> may fs1 q" by auto
  from Cons.IH [OF m(2)] m(5) Cons.prems(2) obtain fs2 where
    "mk_all mk ps fs1 = (replicate (length ps) 0, fs2)" "wf fs2"
    "there fs2 = there fs1 \<union> (\<Union>p \<in> set ps. prefixes_of (loc fs1 p))" "loc fs2 = loc fs1" by auto
  with m show ?case by (auto simp: Let_def)
qed simp

end

definition may_mk :: "dirfs \<Rightarrow> string \<Rightarrow> bool" where
  "may_mk fs p \<longleftrightarrow> clean p \<and>
     (\<forall>x \<in> prefixes_of (resolve (cwd fs) p). x \<in> dirs fs \<or> x \<notin> files fs \<and> \<not> refused fs x)"

interpretation host_dirs: dir_maker mkdir_r tree_ok dirs "\<lambda>fs. resolve (cwd fs)" may_mk
proof
  fix fs :: dirfs and p
  assume wf: "tree_ok fs" and may: "may_mk fs p"
  then obtain fs' where m: "mkdir_r p fs = (0, fs')" "dirs fs' = dirs fs \<union> prefixes_of (resolve (cwd fs) p)"
    "fs' = fs\<lparr>dirs := dirs fs'\<rparr>" using mkdir_r_complete [of fs p] by (auto simp: may_mk_def)
  have "tree_ok fs'" using mkdir_r_ok [OF wf m(1)] by simp
  moreover have "cwd fs' = cwd fs" "files fs' = files fs" "refused fs' = refused fs"
    using arg_cong [OF m(3), of cwd] arg_cong [OF m(3), of files] arg_cong [OF m(3), of refused] by simp_all
  ultimately show "\<exists>fs'. mkdir_r p fs = (0, fs') \<and> tree_ok fs' \<and>
      dirs fs' = dirs fs \<union> prefixes_of (resolve (cwd fs) p) \<and> resolve (cwd fs') = resolve (cwd fs) \<and>
      (\<forall>q. may_mk fs q \<longrightarrow> may_mk fs' q)"
    using m by (auto simp: may_mk_def)
qed

end
