(* ===== verification/PathAssembler.thy ===== *)
theory PathAssembler
  imports CStrings
begin

text \<open>
  \<open>src/util/path_assembler.cpp\<close>: where the repository and the layers of a container live. Each function
  prints into the caller's buffer or, when that is \<open>NULL\<close>, into a static one of \<open>PATH_LEN\<close> bytes; the
  argument \<open>dist\<close> is the size of the caller's buffer. A text that does not fit with its NUL runs over
  the end of the buffer. A static buffer is overwritten by the next call for another container only.
\<close>

definition FS_TYPE :: string where
  "FS_TYPE = ''overlay2''"

definition hoststack_repo :: string where
  "hoststack_repo = ''/data/hoststack''"

definition PATH_LEN :: nat where
  "PATH_LEN = 1024"

text \<open>\<open>sprintf\<close> into a buffer of \<open>n\<close> bytes, and \<open>snprintf\<close> with that bound.\<close>

definition sprintf :: "nat \<Rightarrow> string \<Rightarrow> string res" where
  "sprintf n s = (if length s < n then Inr s else Inl OutOfBounds)"

definition snprintf :: "nat \<Rightarrow> string \<Rightarrow> string" where
  "snprintf n s = take (n - 1) s"

definition buf_size :: "nat option \<Rightarrow> nat" where
  "buf_size dist = (case dist of None \<Rightarrow> PATH_LEN | Some n \<Rightarrow> n)"

definition getUnionFS :: "nat option \<Rightarrow> string res" where
  "getUnionFS dist = sprintf (buf_size dist) (hoststack_repo @ ''/'' @ FS_TYPE)"

definition getLayerDir :: "string \<Rightarrow> nat option \<Rightarrow> string res" where
  "getLayerDir containerId dist =
     rbind (getUnionFS None) (\<lambda>u. sprintf (buf_size dist) (u @ ''/'' @ containerId))"

definition getMergedDir :: "string \<Rightarrow> nat option \<Rightarrow> string res" where
  "getMergedDir containerId dist =
     rbind (getLayerDir containerId None) (\<lambda>l. sprintf (buf_size dist) (l @ ''/merged''))"

definition getWorkDir :: "string \<Rightarrow> nat option \<Rightarrow> string res" where
  "getWorkDir containerId dist =
     rbind (getLayerDir containerId None) (\<lambda>l. sprintf (buf_size dist) (l @ ''/work''))"

definition getDiffDir :: "string \<Rightarrow> nat option \<Rightarrow> string res" where
  "getDiffDir containerId dist =
     rbind (getLayerDir containerId None) (\<lambda>l. sprintf (buf_size dist) (l @ ''/diff''))"

text \<open>The paths themselves.\<close>

definition layer_path :: "string \<Rightarrow> string" where
  "layer_path cid = ''/data/hoststack/overlay2/'' @ cid"

lemma path_results:
  assumes "length cid < 990"
  shows "getUnionFS None = Inr ''/data/hoststack/overlay2''" "getLayerDir cid None = Inr (layer_path cid)"
    "getMergedDir cid None = Inr (layer_path cid @ ''/merged'')" "getWorkDir cid None = Inr (layer_path cid @ ''/work'')"
    "getDiffDir cid None = Inr (layer_path cid @ ''/diff'')"
  using assms
  by (simp_all add: getUnionFS_def getLayerDir_def getMergedDir_def getWorkDir_def getDiffDir_def sprintf_def
      buf_size_def PATH_LEN_def hoststack_repo_def FS_TYPE_def layer_path_def)

text \<open>The path functions stay inside their static buffers exactly for container
  identifiers short enough: the layer path takes 25 characters more, the longest of the others 7
  more.\<close>

theorem path_assembler_bounds:
  "(getLayerDir cid None \<noteq> Inl OutOfBounds \<longleftrightarrow> length cid < 999) \<and>
   (getMergedDir cid None \<noteq> Inl OutOfBounds \<longleftrightarrow> length cid < 992) \<and>
   (getMergedDir cid None = Inr (layer_path cid @ ''/merged'') \<longleftrightarrow> length cid < 992)"
  by (auto simp: getUnionFS_def getLayerDir_def getMergedDir_def sprintf_def
      buf_size_def PATH_LEN_def hoststack_repo_def FS_TYPE_def layer_path_def)

end
