(* ===== verification/ContainerFs.thy ===== *)
theory ContainerFs
  imports DirTree PathAssembler ContainerStore
begin

text \<open>
  \<open>src/util/container_fs.cpp\<close>: the directories of the repository and of a container, the overlay and
  special file systems mounted under a container's root, and its volumes. The state is the directory
  tree and the mount table of the host (newest mount first; mounts made in a container's namespace
  propagate, as on a host whose root is a shared mount). Messages to the run log are not modelled.
\<close>

record mnt =
  m_src :: string
  m_target :: string
  m_type :: string
  m_flags :: int
  m_data :: string

definition MS_BIND :: int where
  "MS_BIND = 4096"

record host =
  hfs :: dirfs
  mounts :: "mnt list"

text \<open>What the kernel and the shell answer: does it accept a mount, is a mount point busy, and what
  does \<open>system\<close> do with a command line.\<close>

record kernel =
  mount_ok :: "mnt \<Rightarrow> bool"
  busy :: "string \<Rightarrow> bool"
  shell :: "string \<Rightarrow> host \<Rightarrow> int \<times> host"
  mem_ok :: "nat \<Rightarrow> bool"

definition sys_mount :: "kernel \<Rightarrow> mnt \<Rightarrow> host \<Rightarrow> int \<times> host" where
  "sys_mount K m h = (if mount_ok K m then (0, h\<lparr>mounts := m # mounts h\<rparr>) else (-1, h))"

text \<open>Unmounting takes the newest mount off its mount point.\<close>

fun take_off :: "string \<Rightarrow> mnt list \<Rightarrow> mnt list option" where
  "take_off t [] = None"
| "take_off t (m # ms) = (if m_target m = t then Some ms else map_option ((#) m) (take_off t ms))"

definition sys_umount :: "kernel \<Rightarrow> string \<Rightarrow> host \<Rightarrow> int \<times> host" where
  "sys_umount K t h =
     (case take_off t (mounts h) of
        None \<Rightarrow> (-1, h)
      | Some ms \<Rightarrow> if busy K t then (-1, h) else (0, h\<lparr>mounts := ms\<rparr>))"

definition host_mkdir_r :: "string \<Rightarrow> host \<Rightarrow> int \<times> host" where
  "host_mkdir_r p h = (let (r, fs) = mkdir_r p (hfs h) in (r, h\<lparr>hfs := fs\<rparr>))"

section \<open>Directories\<close>

definition create_repo :: "host \<Rightarrow> host res" where
  "create_repo h =
     rbind (sprintf 1024 (hoststack_repo @ ''/containers'')) (\<lambda>line.
     rbind (getUnionFS None) (\<lambda>u.
     Inr (snd (mk_all host_mkdir_r [line, u] h))))"

definition fslist :: "string list" where
  "fslist = [''bin'', ''dev/pts'', ''dev/shm'', ''etc'', ''home'', ''lib'', ''lib64'', ''mnt'', ''opt'', ''proc'',
     ''root'', ''run'', ''sbin'', ''sys'', ''tmp'', ''usr'', ''var'']"

fun print_all :: "nat \<Rightarrow> string list \<Rightarrow> string list res" where
  "print_all n [] = Inr []"
| "print_all n (s # ss) = rbind (sprintf n s) (\<lambda>x. rbind (print_all n ss) (\<lambda>xs. Inr (x # xs)))"

text \<open>Every call of \<open>mkdir_r\<close> is made, whatever the earlier ones returned.\<close>

definition create_container :: "string \<Rightarrow> host \<Rightarrow> host res" where
  "create_container ctr h =
     rbind (sprintf 1024 (hoststack_repo @ ''/containers/'' @ ctr)) (\<lambda>line.
     rbind (getDiffDir ctr None) (\<lambda>diff.
     rbind (getWorkDir ctr None) (\<lambda>work.
     rbind (getMergedDir ctr None) (\<lambda>merged.
     rbind (print_all 1024 (map (\<lambda>d. merged @ ''/'' @ d) fslist)) (\<lambda>subs.
     Inr (snd (mk_all host_mkdir_r ([line, diff, work, merged] @ subs) h)))))))"

definition remove_container :: "kernel \<Rightarrow> string \<Rightarrow> host \<Rightarrow> (int \<times> host) res" where
  "remove_container K ctr h =
     rbind (sprintf 1024 (''sudo rm  -rf '' @ hoststack_repo @ ''/containers/'' @ ctr)) (\<lambda>line.
     (let (r, h1) = shell K line h in
      if r \<noteq> 0 then Inr (-1, h1)
      else rbind (getLayerDir ctr None) (\<lambda>layer.
           rbind (sprintf 1024 (''sudo rm -rf '' @ layer)) (\<lambda>line2.
           (let (r2, h2) = shell K line2 h1 in
            if r2 \<noteq> 0 then Inr (-1, h2) else Inr (0, h2))))))"

section \<open>Calls that change the host\<close>

text \<open>A function that ends the process, or goes wrong, half-way leaves what it has done to the host. \<open>done_host\<close> is
  its result for a caller that goes on only when it returns.\<close>

type_synonym 'a hcmd = "host \<Rightarrow> 'a res \<times> host"

definition hret :: "'a \<Rightarrow> 'a hcmd" where
  "hret x h = (Inr x, h)"

definition hbind :: "'a hcmd \<Rightarrow> ('a \<Rightarrow> 'b hcmd) \<Rightarrow> 'b hcmd" where
  "hbind m f h = (case m h of (Inl e, h') \<Rightarrow> (Inl e, h') | (Inr x, h') \<Rightarrow> f x h')"

definition hlift :: "'a res \<Rightarrow> 'a hcmd" where
  "hlift r h = (r, h)"

definition hcall :: "(host \<Rightarrow> 'a \<times> host) \<Rightarrow> 'a hcmd" where
  "hcall g h = (case g h of (x, h') \<Rightarrow> (Inr x, h'))"

definition done_host :: "unit res \<times> host \<Rightarrow> host res" where
  "done_host x = (case x of (Inl e, h) \<Rightarrow> Inl e | (Inr u, h) \<Rightarrow> Inr h)"

lemma done_host_simps [simp]:
  "done_host (Inl e, h) = Inl e" "done_host (Inr u, h) = Inr h" "done_host (hret u h) = Inr h" "done_host (hlift (Inl e) h) = Inl e"
  by (simp_all add: done_host_def hret_def hlift_def)

lemma done_host_hlift: "done_host (hbind (hlift r) f h) = rbind r (\<lambda>x. done_host (f x h))"
  by (cases r) (simp_all add: hbind_def hlift_def)

lemma done_host_hcall: "done_host (hbind (hcall g) f h) = done_host (f (fst (g h)) (snd (g h)))"
  by (simp add: hbind_def hcall_def split: prod.split)

lemma done_host_hbind: "done_host (hbind (m :: unit hcmd) f h) = rbind (done_host (m h)) (\<lambda>h'. done_host (f () h'))"
  by (simp add: hbind_def split: prod.split sum.split)

lemma done_host_if: "done_host ((if b then m else n) h) = (if b then done_host (m h) else done_host (n h))"
  by simp

lemmas done_host_rules = done_host_hlift done_host_hcall done_host_if

section \<open>Mounting the root of a container\<close>

record mnt_dir_t =
  src :: string
  target :: string
  type :: string

definition mnt_dir_arr :: "mnt_dir_t list" where
  "mnt_dir_arr =
     map (\<lambda>d. \<lparr>src = d, target = d, type = FS_TYPE\<rparr>)
       [''/bin'', ''/etc'', ''/lib'', ''/lib64'', ''/opt'', ''/run'', ''/sbin'', ''/usr'', ''/var''] @
     [\<lparr>src = ''proc'', target = ''/proc'', type = ''proc''\<rparr>, \<lparr>src = ''sysfs'', target = ''/sys'', type = ''sysfs''\<rparr>,
      \<lparr>src = ''udev'', target = ''/dev'', type = ''devtmpfs''\<rparr>, \<lparr>src = ''devpts'', target = ''/dev/pts'', type = ''devpts''\<rparr>,
      \<lparr>src = ''shm'', target = ''/dev/shm'', type = ''tmpfs''\<rparr>, \<lparr>src = ''none'', target = ''/tmp'', type = ''tmpfs''\<rparr>]"

text \<open>One round of the loop, for the entry \<open>d\<close> of the table.\<close>

definition mount_entry_st :: "kernel \<Rightarrow> string \<Rightarrow> string \<Rightarrow> mnt_dir_t \<Rightarrow> unit hcmd" where
  "mount_entry_st K ctr rootfs d =
     (if type d = ''aufs'' then
        hbind (hlift (getDiffDir ctr None)) (\<lambda>diff.
        let subdiff = snprintf 1024 (diff @ target d); tgt = snprintf 1024 (rootfs @ target d) in
        hbind (hcall (host_mkdir_r subdiff)) (\<lambda>_.
        let data = snprintf 1024 (''dirs='' @ subdiff @ ''=rw:'' @ src d @ ''=ro'') in
        hbind (hcall (sys_mount K \<lparr>m_src = ''none'', m_target = tgt, m_type = ''aufs'', m_flags = 0, m_data = data\<rparr>)) (\<lambda>r.
        if r \<noteq> 0 then hlift (Inl (Exit 1)) else hret ())))
      else if type d = ''overlay2'' then
        hbind (hlift (getDiffDir ctr None)) (\<lambda>diff.
        hbind (hlift (getWorkDir ctr None)) (\<lambda>work.
        let subdiff = snprintf 1024 (diff @ target d); subwork = snprintf 1024 (work @ target d);
            tgt = snprintf 1024 (rootfs @ target d) in
        hbind (hcall (host_mkdir_r subdiff)) (\<lambda>_.
        hbind (hcall (host_mkdir_r subwork)) (\<lambda>_.
        hbind (hcall (\<lambda>h. (sys_access (cwd (hfs h)) (target d) (hfs h), h))) (\<lambda>found.
        if found then
          (let data = snprintf 1024 (''lowerdir='' @ src d @ '',upperdir='' @ subdiff @ '',workdir='' @ subwork) in
           hbind (hcall (sys_mount K \<lparr>m_src = ''overlay'', m_target = tgt, m_type = ''overlay'', m_flags = 0, m_data = data\<rparr>)) (\<lambda>r.
           if r \<noteq> 0 then hlift (Inl (Exit 1)) else hret ()))
        else hret ())))))
      else
        (let line = snprintf 1024 (rootfs @ target d) in
         hbind (hcall (sys_mount K \<lparr>m_src = src d, m_target = line, m_type = type d, m_flags = 0, m_data = []\<rparr>)) (\<lambda>_. hret ())))"

text \<open>The loop: \<open>k\<close> is the index \<open>mnt_dir\<close> points to, \<open>i\<close> the counter. The pointer is moved to entry \<open>i\<close>
  before \<open>i\<close> is incremented.\<close>

function mount_loop_st :: "kernel \<Rightarrow> string \<Rightarrow> string \<Rightarrow> nat \<Rightarrow> nat \<Rightarrow> host \<Rightarrow> unit res \<times> host" where
  "mount_loop_st K ctr rootfs k i h =
     (if k < length mnt_dir_arr
      then (case mount_entry_st K ctr rootfs (mnt_dir_arr ! k) h of
              (Inl e, h') \<Rightarrow> (Inl e, h')
            | (Inr u, h') \<Rightarrow> mount_loop_st K ctr rootfs i (i + 1) h')
      else (Inr (), h))"
  by pat_completeness auto
termination
  by (relation "measure (\<lambda>(K, c, r, k, i, h). (if k < length mnt_dir_arr then 1 else 0) + (length mnt_dir_arr + 1 - i))") auto

declare mount_loop_st.simps [simp del]

definition mount_container_st :: "kernel \<Rightarrow> string \<Rightarrow> unit hcmd" where
  "mount_container_st K ctr = hbind (hlift (getMergedDir ctr None)) (\<lambda>rootfs. mount_loop_st K ctr rootfs 0 0)"

definition mount_container :: "kernel \<Rightarrow> string \<Rightarrow> host \<Rightarrow> host res" where
  "mount_container K ctr h = done_host (mount_container_st K ctr h)"

text \<open>\<open>umount_container\<close> up to the volumes: backwards through the table, then the last line again. The
  buffer is uninitialised when no entry exists on the host; \<open>junk\<close> is what it holds then.\<close>

fun umount_loop :: "kernel \<Rightarrow> string \<Rightarrow> mnt_dir_t list \<Rightarrow> string \<Rightarrow> host \<Rightarrow> (string \<times> host) res" where
  "umount_loop K rootfs [] line h = Inr (line, h)"
| "umount_loop K rootfs (d # ds) line h =
     (if sys_access (cwd (hfs h)) (target d) (hfs h)
      then rbind (sprintf 1024 (rootfs @ target d)) (\<lambda>line'.
           umount_loop K rootfs ds line' (snd (sys_umount K line' h)))
      else umount_loop K rootfs ds line h)"

definition umount_dirs :: "kernel \<Rightarrow> string \<Rightarrow> string \<Rightarrow> host \<Rightarrow> host res" where
  "umount_dirs K junk ctr h =
     rbind (getMergedDir ctr None) (\<lambda>rootfs.
     rbind (umount_loop K rootfs (rev mnt_dir_arr) junk h) (\<lambda>(line, h1).
     Inr (snd (sys_umount K line h1))))"

section \<open>Volumes\<close>

definition bind_mount_st :: "kernel \<Rightarrow> string \<Rightarrow> string \<Rightarrow> string \<Rightarrow> unit hcmd" where
  "bind_mount_st K ctr sr dst =
     hbind (hlift (getMergedDir ctr None)) (\<lambda>rootfs.
     hbind (hlift (sprintf 4096 (''test -d '' @ sr @ '' || sudo mkdir -p '' @ sr))) (\<lambda>line1.
     hbind (hcall (shell K line1)) (\<lambda>_.
     hbind (hlift (path_join (mem_ok K) (Some rootfs) [dst])) (\<lambda>dopt.
     hbind (hlift (of_opt NullDeref dopt)) (\<lambda>dest.
     hbind (hlift (sprintf 4096 (''test -d '' @ dest @ '' || sudo mkdir -p '' @ dest))) (\<lambda>line2.
     hbind (hcall (shell K line2)) (\<lambda>_.
     hbind (hcall (sys_mount K \<lparr>m_src = sr, m_target = dest, m_type = ''none'', m_flags = MS_BIND, m_data = []\<rparr>)) (\<lambda>r.
     if r \<noteq> 0 then hlift (Inl (Exit 1)) else hret ()))))))))"

text \<open>A path that is not absolute is reported after the copy it points into has been freed.\<close>

definition mount_volume_st :: "kernel \<Rightarrow> string \<Rightarrow> string \<Rightarrow> unit hcmd" where
  "mount_volume_st K ctr volume =
     (case strtok_next '':'' volume of
        None \<Rightarrow> hret ()
      | Some (sr, rest) \<Rightarrow>
          if hd sr \<noteq> CHR ''/'' then hlift (Inl UseAfterFree)
          else (case strtok_next '':'' rest of
                  None \<Rightarrow> hret ()
                | Some (dst, _) \<Rightarrow>
                    if hd dst \<noteq> CHR ''/'' then hlift (Inl UseAfterFree) else bind_mount_st K ctr sr dst))"

fun mount_volume_list_st :: "kernel \<Rightarrow> string \<Rightarrow> string list \<Rightarrow> unit hcmd" where
  "mount_volume_list_st K ctr [] = hret ()"
| "mount_volume_list_st K ctr (v # vs) = hbind (mount_volume_st K ctr v) (\<lambda>_. mount_volume_list_st K ctr vs)"

definition mount_volume :: "kernel \<Rightarrow> string \<Rightarrow> string \<Rightarrow> host \<Rightarrow> host res" where
  "mount_volume K ctr volume h = done_host (mount_volume_st K ctr volume h)"

definition umount_volume :: "kernel \<Rightarrow> string \<Rightarrow> string option \<Rightarrow> host \<Rightarrow> host res" where
  "umount_volume K ctr volume h =
     (case volume of
        None \<Rightarrow> Inr h
      | Some v \<Rightarrow>
          rbind (getMergedDir ctr None) (\<lambda>rootfs.
          case strtok_next '':'' v of
            None \<Rightarrow> Inr h
          | Some (sr, rest) \<Rightarrow>
              (case strtok_next '':'' rest of
                 None \<Rightarrow> Inr h
               | Some (dst, _) \<Rightarrow>
                   rbind (path_join (mem_ok K) (Some rootfs) [dst]) (\<lambda>t.
                   rbind (of_opt NullDeref t) (\<lambda>tgt. Inr (snd (sys_umount K tgt h)))))))"

text \<open>The set is a member of the temporary that the lookup returns, which is destroyed before the function first
  looks at the set, to ask for its size: from there on nothing is certain. What the lookup has written to the table
  is written.\<close>

definition umount_volume_list :: "'j jsoncpp \<Rightarrow> dao_env \<Rightarrow> string \<Rightarrow> data_file \<Rightarrow> unit res \<times> data_file" where
  "umount_volume_list J env ctr f =
     (case get_container_by_id_or_name J env ctr f of
        Inl e \<Rightarrow> (Inl e, f)
      | Inr (info, f1) \<Rightarrow> (case info of None \<Rightarrow> Inl EmptyOptional | Some c \<Rightarrow> Inl UseAfterFree, f1))"

definition umount_container ::
  "'j jsoncpp \<Rightarrow> dao_env \<Rightarrow> kernel \<Rightarrow> string \<Rightarrow> string \<Rightarrow> host \<Rightarrow> data_file \<Rightarrow> unit res \<times> host \<times> data_file" where
  "umount_container J env K junk ctr h f =
     (case umount_dirs K junk ctr h of
        Inl e \<Rightarrow> (Inl e, h, f)
      | Inr h1 \<Rightarrow> (case umount_volume_list J env ctr f of (r, f1) \<Rightarrow> (r, h1, f1)))"

section \<open>Mounting and unmounting undo each other\<close>

definition mount_entry :: "kernel \<Rightarrow> string \<Rightarrow> string \<Rightarrow> mnt_dir_t \<Rightarrow> host \<Rightarrow> host res" where
  "mount_entry K ctr rootfs d h = done_host (mount_entry_st K ctr rootfs d h)"

fun mount_seq_st :: "kernel \<Rightarrow> string \<Rightarrow> string \<Rightarrow> mnt_dir_t list \<Rightarrow> unit hcmd" where
  "mount_seq_st K ctr rootfs [] = hret ()"
| "mount_seq_st K ctr rootfs (d # ds) = hbind (mount_entry_st K ctr rootfs d) (\<lambda>_. mount_seq_st K ctr rootfs ds)"

lemma mount_loop_from: "mount_loop_st K ctr rootfs i (i + 1) h = mount_seq_st K ctr rootfs (drop i mnt_dir_arr) h"
proof (induction "length mnt_dir_arr - i" arbitrary: i h)
  case 0
  then show ?case by (simp add: mount_loop_st.simps hret_def)
next
  case (Suc n)
  then have i: "i < length mnt_dir_arr" by simp
  then have "drop i mnt_dir_arr = mnt_dir_arr ! i # drop (i + 1) mnt_dir_arr" by (simp add: Cons_nth_drop_Suc)
  moreover have "mount_loop_st K ctr rootfs (i + 1) (i + 1 + 1) = mount_seq_st K ctr rootfs (drop (i + 1) mnt_dir_arr)"
    using Suc.hyps by (intro ext) simp
  ultimately show ?case using i
    by (simp add: mount_loop_st.simps [of K ctr rootfs i] hbind_def split: prod.split sum.split)
qed

text \<open>The first entry of the table is handled twice.\<close>

lemma mount_loop_twice: "mount_loop_st K ctr rootfs 0 0 h = mount_seq_st K ctr rootfs (hd mnt_dir_arr # mnt_dir_arr) h"
proof -
  have "mount_loop_st K ctr rootfs 0 (0 + 1) = mount_seq_st K ctr rootfs mnt_dir_arr"
    using mount_loop_from [of K ctr rootfs 0] by (intro ext) simp
  then show ?thesis
    by (simp add: mount_loop_st.simps [of K ctr rootfs 0 0] mnt_dir_arr_def hbind_def split: prod.split sum.split)
qed

definition mount_seq :: "kernel \<Rightarrow> string \<Rightarrow> string \<Rightarrow> mnt_dir_t list \<Rightarrow> host \<Rightarrow> host res" where
  "mount_seq K ctr rootfs ds h = done_host (mount_seq_st K ctr rootfs ds h)"

lemma mount_seq_simps:
  "mount_seq K ctr rootfs [] h = Inr h"
  "mount_seq K ctr rootfs (d # ds) h = rbind (mount_entry K ctr rootfs d h) (mount_seq K ctr rootfs ds)"
proof -
  show "mount_seq K ctr rootfs [] h = Inr h" by (simp add: mount_seq_def)
  have "mount_seq K ctr rootfs ds = (\<lambda>h. done_host (mount_seq_st K ctr rootfs ds h))" by (simp add: fun_eq_iff mount_seq_def)
  then show "mount_seq K ctr rootfs (d # ds) h = rbind (mount_entry K ctr rootfs d h) (mount_seq K ctr rootfs ds)"
    by (simp add: mount_seq_def mount_entry_def done_host_hbind)
qed

text \<open>The result of an entry, call by call.\<close>

lemma mount_entry_eq:
  "mount_entry K ctr rootfs d h =
     (if type d = ''aufs'' then
        rbind (getDiffDir ctr None) (\<lambda>diff.
        (let subdiff = snprintf 1024 (diff @ target d); tgt = snprintf 1024 (rootfs @ target d);
             h1 = snd (host_mkdir_r subdiff h);
             data = snprintf 1024 (''dirs='' @ subdiff @ ''=rw:'' @ src d @ ''=ro'');
             (r, h2) = sys_mount K \<lparr>m_src = ''none'', m_target = tgt, m_type = ''aufs'', m_flags = 0, m_data = data\<rparr> h1 in
         if r \<noteq> 0 then Inl (Exit 1) else Inr h2))
      else if type d = ''overlay2'' then
        rbind (getDiffDir ctr None) (\<lambda>diff.
        rbind (getWorkDir ctr None) (\<lambda>work.
        (let subdiff = snprintf 1024 (diff @ target d); subwork = snprintf 1024 (work @ target d);
             tgt = snprintf 1024 (rootfs @ target d);
             h1 = snd (host_mkdir_r subdiff h);
             h2 = snd (host_mkdir_r subwork h1) in
         if sys_access (cwd (hfs h2)) (target d) (hfs h2) then
           (let data = snprintf 1024 (''lowerdir='' @ src d @ '',upperdir='' @ subdiff @ '',workdir='' @ subwork);
                (r, h3) = sys_mount K \<lparr>m_src = ''overlay'', m_target = tgt, m_type = ''overlay'', m_flags = 0, m_data = data\<rparr> h2 in
            if r \<noteq> 0 then Inl (Exit 1) else Inr h3)
         else Inr h2)))
      else
        (let line = snprintf 1024 (rootfs @ target d) in
         Inr (snd (sys_mount K \<lparr>m_src = src d, m_target = line, m_type = type d, m_flags = 0, m_data = []\<rparr> h))))"
  unfolding mount_entry_def mount_entry_st_def
  by (simp add: done_host_rules Let_def split_beta cong: if_cong)

text \<open>The same tree but for new directories.\<close>

definition fs_ext :: "host \<Rightarrow> host \<Rightarrow> bool" where
  "fs_ext h h' \<longleftrightarrow> tree_ok (hfs h') \<and> dirs (hfs h) \<subseteq> dirs (hfs h') \<and> files (hfs h') = files (hfs h) \<and>
     cwd (hfs h') = cwd (hfs h)"

lemma host_mkdir_r_ext:
  assumes "tree_ok (hfs h)"
  shows "fs_ext h (snd (host_mkdir_r p h))" "mounts (snd (host_mkdir_r p h)) = mounts h"
proof -
  obtain r fs where m: "mkdir_r p (hfs h) = (r, fs)" by force
  from mkdir_r_ok [OF assms m] m show "fs_ext h (snd (host_mkdir_r p h))" "mounts (snd (host_mkdir_r p h)) = mounts h"
    by (auto simp: host_mkdir_r_def fs_ext_def grown_def)
qed

lemma fs_ext_trans: "fs_ext h h1 \<Longrightarrow> fs_ext h1 h2 \<Longrightarrow> fs_ext h h2"
  by (auto simp: fs_ext_def)

lemma fs_ext_access: "fs_ext h h' \<Longrightarrow> sys_access (cwd (hfs h)) p (hfs h) \<Longrightarrow> sys_access (cwd (hfs h')) p (hfs h')"
  by (auto simp: fs_ext_def sys_access_def)

definition host_has :: "mnt_dir_t list \<Rightarrow> host \<Rightarrow> bool" where
  "host_has ds h \<longleftrightarrow> (\<forall>d \<in> set ds. sys_access (cwd (hfs h)) (target d) (hfs h))"

lemma mount_entry_ok:
  assumes "tree_ok (hfs h)" and "type d \<noteq> ''aufs''" and "sys_access (cwd (hfs h)) (target d) (hfs h)"
    and "\<And>m. mount_ok K m" and "length ctr < 900" and "length (rootfs @ target d) < 1024"
  shows "\<exists>h' m. mount_entry K ctr rootfs d h = Inr h' \<and> m_target m = rootfs @ target d \<and>
    mounts h' = m # mounts h \<and> fs_ext h h'"
proof (cases "type d = ''overlay2''")
  case False
  have "fs_ext h (h\<lparr>mounts := ms\<rparr>)" for ms using assms(1) by (simp add: fs_ext_def)
  with False assms(2,4,6) show ?thesis by (simp add: mount_entry_eq sys_mount_def snprintf_def Let_def)
next
  case True
  obtain diff work where dw: "getDiffDir ctr None = Inr diff" "getWorkDir ctr None = Inr work"
    using path_results [of ctr] assms(5) by simp
  define h1 where "h1 = snd (host_mkdir_r (snprintf 1024 (diff @ target d)) h)"
  define h2 where "h2 = snd (host_mkdir_r (snprintf 1024 (work @ target d)) h1)"
  have e1: "fs_ext h h1" "mounts h1 = mounts h" using host_mkdir_r_ext [OF assms(1)] by (simp_all add: h1_def)
  then have "tree_ok (hfs h1)" by (simp add: fs_ext_def)
  with e1 have e2: "fs_ext h h2" "mounts h2 = mounts h"
    using host_mkdir_r_ext [of h1] by (auto simp: h2_def intro: fs_ext_trans)
  from fs_ext_access [OF e2(1) assms(3)] have acc: "sys_access (cwd (hfs h2)) (target d) (hfs h2)" .
  have "fs_ext h (h2\<lparr>mounts := ms\<rparr>)" for ms using e2(1) by (simp add: fs_ext_def)
  moreover have "snprintf 1024 (rootfs @ target d) = rootfs @ target d" using assms(6) by (simp add: snprintf_def)
  ultimately show ?thesis using True acc assms(4) e2(2) dw
    unfolding mount_entry_eq by (simp add: Let_def h1_def [symmetric] h2_def [symmetric] sys_mount_def)
qed

lemma mount_seq_ok:
  assumes "tree_ok (hfs h)" and "\<forall>d \<in> set ds. type d \<noteq> ''aufs'' \<and> length (rootfs @ target d) < 1024" and "host_has ds h"
    and "\<And>m. mount_ok K m" and "length ctr < 900"
  shows "\<exists>h' ms. mount_seq K ctr rootfs ds h = Inr h' \<and> map m_target ms = map (\<lambda>d. rootfs @ target d) (rev ds) \<and>
    mounts h' = ms @ mounts h \<and> fs_ext h h'"
  using assms(1-3)
proof (induction ds arbitrary: h)
  case Nil
  then show ?case by (simp add: fs_ext_def mount_seq_simps)
next
  case (Cons d ds)
  from mount_entry_ok [of h d K ctr rootfs] Cons.prems assms(4,5) obtain h1 m where
    m: "mount_entry K ctr rootfs d h = Inr h1" "m_target m = rootfs @ target d" "mounts h1 = m # mounts h" "fs_ext h h1"
    by (auto simp: host_has_def)
  have "tree_ok (hfs h1)" "host_has ds h1"
    using m(4) Cons.prems(3) fs_ext_access [OF m(4)] by (auto simp: host_has_def fs_ext_def)
  with Cons.IH [of h1] Cons.prems(2) obtain h' ms where
    r: "mount_seq K ctr rootfs ds h1 = Inr h'" "map m_target ms = map (\<lambda>d. rootfs @ target d) (rev ds)"
    "mounts h' = ms @ mounts h1" "fs_ext h1 h'" by auto
  have "mounts h' = (ms @ [m]) @ mounts h" using r(3) m(3) by simp
  moreover have "map m_target (ms @ [m]) = map (\<lambda>d. rootfs @ target d) (rev (d # ds))" using r(2) m(2) by simp
  ultimately show ?case using m(1,4) r(1,4) fs_ext_trans by (metis mount_seq_simps(2) rbind_Inr)
qed

lemma umount_top:
  "mounts h = m # ms \<Longrightarrow> m_target m = t \<Longrightarrow> \<not> busy K t \<Longrightarrow> sys_umount K t h = (0, h\<lparr>mounts := ms\<rparr>)"
  by (simp add: sys_umount_def)

lemma umount_loop_ok:
  assumes "host_has ds h" and "\<forall>d \<in> set ds. length (rootfs @ target d) < 1024" and "\<And>t. \<not> busy K t"
    and "mounts h = ms @ rest" and "map m_target ms = map (\<lambda>d. rootfs @ target d) ds" and "ds \<noteq> []"
  shows "umount_loop K rootfs ds line h = Inr (rootfs @ target (last ds), h\<lparr>mounts := rest\<rparr>)"
  using assms
proof (induction ds arbitrary: ms h line)
  case (Cons d ds)
  from Cons.prems(5) obtain m ms' where ms: "ms = m # ms'" "m_target m = rootfs @ target d"
    "map m_target ms' = map (\<lambda>d. rootfs @ target d) ds" by (cases ms) auto
  let ?h = "h\<lparr>mounts := ms' @ rest\<rparr>"
  have u: "sys_umount K (rootfs @ target d) h = (0, ?h)"
    using umount_top [of h m "ms' @ rest"] Cons.prems(3,4) ms by simp
  have step: "umount_loop K rootfs (d # ds) line h = umount_loop K rootfs ds (rootfs @ target d) ?h"
    using Cons.prems(1,2) u by (simp add: host_has_def sprintf_def)
  show ?case
  proof (cases "ds = []")
    case True
    with step ms(3) show ?thesis by simp
  next
    case False
    have "host_has ds ?h" using Cons.prems(1) by (simp add: host_has_def)
    with Cons.IH [of ?h ms' "rootfs @ target d"] Cons.prems(2,3) ms(3) False show ?thesis unfolding step by simp
  qed
qed simp

lemma mnt_dir_arr_facts:
  "mnt_dir_arr \<noteq> []" "\<forall>d \<in> set mnt_dir_arr. type d \<noteq> ''aufs'' \<and> length (target d) < 10"
  by (simp_all add: mnt_dir_arr_def FS_TYPE_def)

lemma mount_container_ok:
  assumes "tree_ok (hfs h)" and "length ctr < 900" and "host_has mnt_dir_arr h" and "\<And>m. mount_ok K m"
  shows "\<exists>h' ms. mount_container K ctr h = Inr h' \<and> mounts h' = ms @ mounts h \<and> fs_ext h h' \<and>
    map m_target ms = map (\<lambda>d. (layer_path ctr @ ''/merged'') @ target d) (rev (hd mnt_dir_arr # mnt_dir_arr))"
proof -
  let ?root = "layer_path ctr @ ''/merged''" and ?ds = "hd mnt_dir_arr # mnt_dir_arr"
  have root: "getMergedDir ctr None = Inr ?root" using path_results [of ctr] assms(2) by simp
  have fit: "length (?root @ target d) < 1024" if "d \<in> set mnt_dir_arr" for d
    using mnt_dir_arr_facts(2) that assms(2) by (auto simp: layer_path_def)
  have hd_in: "hd mnt_dir_arr \<in> set mnt_dir_arr" using mnt_dir_arr_facts(1) by simp
  have has: "host_has ?ds h" using assms(3) hd_in by (simp add: host_has_def)
  from mount_seq_ok [OF assms(1) _ has assms(4,2), of ?root] fit hd_in mnt_dir_arr_facts(2) obtain h' ms where
    m: "mount_seq K ctr ?root ?ds h = Inr h'" "map m_target ms = map (\<lambda>d. ?root @ target d) (rev ?ds)"
    "mounts h' = ms @ mounts h" "fs_ext h h'" by fastforce
  have "mount_container K ctr h = Inr h'" using root m(1)
    by (simp add: mount_container_def mount_container_st_def done_host_rules mount_loop_twice mount_seq_def del: mount_seq_st.simps)
  with m show ?thesis by blast
qed

text \<open>The backward pass and the retry take off what \<open>mount_container\<close> has put on.\<close>

lemma umount_dirs_ok:
  assumes "length ctr < 900" and has: "host_has mnt_dir_arr h" and busy: "\<And>t. \<not> busy K t"
    and ms: "mounts h = ms @ rest"
      "map m_target ms = map (\<lambda>d. (layer_path ctr @ ''/merged'') @ target d) (rev (hd mnt_dir_arr # mnt_dir_arr))"
  shows "umount_dirs K junk ctr h = Inr (h\<lparr>mounts := rest\<rparr>)"
proof -
  let ?root = "layer_path ctr @ ''/merged''"
  have root: "getMergedDir ctr None = Inr ?root" using path_results [of ctr] assms(1) by simp
  have fit: "length (?root @ target d) < 1024" if "d \<in> set mnt_dir_arr" for d
    using mnt_dir_arr_facts(2) that assms(1) by (auto simp: layer_path_def)
  from ms(2) obtain ms1 m1 where m1: "ms = ms1 @ [m1]" "map m_target ms1 = map (\<lambda>d. ?root @ target d) (rev mnt_dir_arr)"
    "m_target m1 = ?root @ target (hd mnt_dir_arr)" by (cases ms rule: rev_cases) auto
  have "host_has (rev mnt_dir_arr) h" using has by (simp add: host_has_def)
  from umount_loop_ok [OF this _ busy, of ?root ms1 "m1 # rest"] fit ms(1) m1(1,2) mnt_dir_arr_facts(1)
  have u: "umount_loop K ?root (rev mnt_dir_arr) junk h =
      Inr (?root @ target (last (rev mnt_dir_arr)), h\<lparr>mounts := m1 # rest\<rparr>)" by simp
  have "sys_umount K (?root @ target (hd mnt_dir_arr)) (h\<lparr>mounts := m1 # rest\<rparr>) = (0, h\<lparr>mounts := rest\<rparr>)"
    using umount_top [of "h\<lparr>mounts := m1 # rest\<rparr>" m1 rest] m1(3) busy by simp
  then show ?thesis using root u mnt_dir_arr_facts(1) by (simp add: umount_dirs_def last_rev)
qed

text \<open>C15 (functional): \<open>mount_container\<close> puts every entry of the table on the container's root, the first
  one twice, and \<open>umount_container\<close>'s pass with its final retry takes exactly these off again, so the
  mount table is what it was, provided every entry exists on the host, the kernel accepts the mounts
  and nothing is busy. (The retry is what removes the doubled first entry.)\<close>

theorem mount_umount_restores:
  assumes "tree_ok (hfs h)" and "length ctr < 900" and "host_has mnt_dir_arr h"
    and "\<And>m. mount_ok K m" and "\<And>t. \<not> busy K t"
  shows "\<exists>h' h'' ms. mount_container K ctr h = Inr h' \<and> mounts h' = ms @ mounts h \<and>
    map m_target ms = map (\<lambda>d. layer_path ctr @ ''/merged'' @ target d) (rev (hd mnt_dir_arr # mnt_dir_arr)) \<and>
    umount_dirs K junk ctr h' = Inr h'' \<and> mounts h'' = mounts h"
proof -
  from mount_container_ok [OF assms(1-4)] obtain h' ms where
    m: "mount_container K ctr h = Inr h'" "mounts h' = ms @ mounts h" "fs_ext h h'"
    "map m_target ms = map (\<lambda>d. (layer_path ctr @ ''/merged'') @ target d) (rev (hd mnt_dir_arr # mnt_dir_arr))" by blast
  have "host_has mnt_dir_arr h'" using assms(3) fs_ext_access [OF m(3)] by (simp add: host_has_def)
  from umount_dirs_ok [OF assms(2) this assms(5) m(2,4)] have "umount_dirs K junk ctr h' = Inr (h'\<lparr>mounts := mounts h\<rparr>)" .
  with m show ?thesis by (intro exI [of _ h'] exI [of _ "h'\<lparr>mounts := mounts h\<rparr>"] exI [of _ ms]) simp
qed

definition demo_host :: host where
  "demo_host = \<lparr>hfs = \<lparr>dirs = insert [] (set (map (\<lambda>d. comps (target d)) mnt_dir_arr)), files = {}, cwd = [],
     refused = (\<lambda>_. False)\<rparr>, mounts = []\<rparr>"

text \<open>A kernel that accepts everything, and a shell that does nothing and succeeds.\<close>

definition demo_kernel :: kernel where
  "demo_kernel = \<lparr>mount_ok = (\<lambda>_. True), busy = (\<lambda>_. False), shell = (\<lambda>_ h. (0, h)), mem_ok = (\<lambda>_. True)\<rparr>"

lemma demo_host_ok: "tree_ok (hfs demo_host)" "host_has mnt_dir_arr demo_host"
  by (simp_all add: tree_ok_def host_has_def sys_access_def demo_host_def mnt_dir_arr_def resolve_def comps_def)

theorem mount_umount_restores_witness:
  "\<exists>h' h''. mount_container demo_kernel ''a1'' demo_host = Inr h' \<and> length (mounts h') = 16 \<and>
    umount_dirs demo_kernel [] ''a1'' h' = Inr h'' \<and> mounts h'' = []"
proof -
  have l: "length ''a1'' < 900" by simp
  have k: "mount_ok demo_kernel m" "\<not> busy demo_kernel t" for m t by (simp_all add: demo_kernel_def)
  from mount_umount_restores [OF demo_host_ok(1) l demo_host_ok(2) k, of "[]"] obtain h' h'' ms where
    r: "mount_container demo_kernel ''a1'' demo_host = Inr h'" "mounts h' = ms @ mounts demo_host"
    "map m_target ms = map (\<lambda>d. layer_path ''a1'' @ ''/merged'' @ target d) (rev (hd mnt_dir_arr # mnt_dir_arr))"
    "umount_dirs demo_kernel [] ''a1'' h' = Inr h''" "mounts h'' = mounts demo_host" by blast
  have "length ms = 16" using arg_cong [OF r(3), of length] by (simp add: mnt_dir_arr_def)
  with r show ?thesis by (simp add: demo_host_def)
qed

text \<open>Whatever the kernel answers to the mounts, the tree only grows.\<close>

lemma fs_ext_refl: "tree_ok (hfs h) \<Longrightarrow> fs_ext h h"
  by (simp add: fs_ext_def)

lemma fs_ext_mounts [simp]: "fs_ext h (h'\<lparr>mounts := ms\<rparr>) = fs_ext h h'"
  by (simp add: fs_ext_def)

lemma mk_all_host_pair:
  "mk_all host_mkdir_r ps h = (fst (mk_all mkdir_r ps (hfs h)), h\<lparr>hfs := snd (mk_all mkdir_r ps (hfs h))\<rparr>)"
proof (induction ps arbitrary: h)
  case (Cons p ps)
  obtain r fs where m: "mkdir_r p (hfs h) = (r, fs)" by force
  obtain rs fs2 where "mk_all mkdir_r ps fs = (rs, fs2)" by force
  with Cons.IH [of "h\<lparr>hfs := fs\<rparr>"] m show ?case by (simp add: host_mkdir_r_def)
qed simp

lemma mk_all_host: "snd (mk_all host_mkdir_r ps h) = h\<lparr>hfs := snd (mk_all mkdir_r ps (hfs h))\<rparr>"
  by (simp add: mk_all_host_pair)

lemma mk_all_ext: "tree_ok (hfs h) \<Longrightarrow> fs_ext h (snd (mk_all host_mkdir_r ps h))"
proof (induction ps arbitrary: h)
  case (Cons p ps)
  obtain r h1 where m: "host_mkdir_r p h = (r, h1)" by force
  obtain rs h2 where n: "mk_all host_mkdir_r ps h1 = (rs, h2)" by force
  have "fs_ext h h1" using host_mkdir_r_ext(1) [OF Cons.prems, of p] m by simp
  moreover have "fs_ext h1 h2" using Cons.IH [of h1] \<open>fs_ext h h1\<close> n by (simp add: fs_ext_def)
  ultimately show ?case using m n fs_ext_trans by simp
qed (simp add: fs_ext_refl)

lemma create_ext:
  assumes "tree_ok (hfs h)"
  shows "create_repo h = Inr h' \<Longrightarrow> fs_ext h h'" "create_container ctr h = Inr h' \<Longrightarrow> fs_ext h h'"
  using mk_all_ext [OF assms] by (auto simp: create_repo_def create_container_def rbind_eq_Inr simp del: mk_all.simps)

text \<open>The constant paths always fit; the mounts stay.\<close>

lemma create_repo_ok: "\<exists>h'. create_repo h = Inr h' \<and> mounts h' = mounts h"
  using path_results(1) [of "[]"]
  by (simp add: create_repo_def sprintf_def hoststack_repo_def mk_all_host del: mk_all.simps)

lemma umount_dirs_total:
  assumes "length ctr < 900"
  shows "\<exists>h'. umount_dirs K junk ctr h = Inr h'"
proof -
  let ?root = "layer_path ctr @ ''/merged''"
  have "\<exists>r. umount_loop K ?root ds line h = Inr r" if "\<forall>d \<in> set ds. length (?root @ target d) < 1024" for ds line h
    using that by (induction ds arbitrary: line h) (auto simp: sprintf_def)
  moreover have "\<forall>d \<in> set (rev mnt_dir_arr). length (?root @ target d) < 1024"
    using mnt_dir_arr_facts(2) assms by (auto simp: layer_path_def)
  ultimately obtain line h1 where "umount_loop K ?root (rev mnt_dir_arr) junk h = Inr (line, h1)" by force
  then show ?thesis using path_results [of ctr] assms by (simp add: umount_dirs_def)
qed

definition grows :: "'a hcmd \<Rightarrow> bool" where
  "grows m \<longleftrightarrow> (\<forall>h. tree_ok (hfs h) \<longrightarrow> fs_ext h (snd (m h)))"

lemma grows_hbind: "grows m \<Longrightarrow> (\<And>x. grows (f x)) \<Longrightarrow> grows (hbind m f)"
  unfolding grows_def hbind_def
  by (auto simp: fs_ext_def split: prod.split sum.split) (metis snd_conv subset_iff)+

lemma grows_leaf [simp]:
  "grows (hret x)" "grows (hlift r)" "grows (hcall (host_mkdir_r p))" "grows (hcall (sys_mount K m))" "grows (hcall (\<lambda>h. (Q h, h)))"
  using host_mkdir_r_ext(1)
  by (auto simp: grows_def hret_def hlift_def hcall_def sys_mount_def fs_ext_refl split: prod.split) (metis snd_conv)

lemma mount_entry_grows: "grows (mount_entry_st K ctr rootfs d)"
  by (auto simp: mount_entry_st_def Let_def intro!: grows_hbind)

lemma mount_container_grows: "grows (mount_container_st K ctr)"
proof -
  have "grows (mount_seq_st K ctr rootfs ds)" for rootfs ds
    by (induction ds) (auto intro!: grows_hbind mount_entry_grows)
  moreover have "mount_loop_st K ctr rootfs 0 0 = mount_seq_st K ctr rootfs (hd mnt_dir_arr # mnt_dir_arr)" for rootfs
    using mount_loop_twice by blast
  ultimately show ?thesis unfolding mount_container_st_def by (auto intro!: grows_hbind simp del: mount_seq_st.simps)
qed

section \<open>The layout of a container\<close>

definition layout :: "string \<Rightarrow> string list" where
  "layout ctr = [''/data/hoststack/containers/'' @ ctr, layer_path ctr @ ''/diff'', layer_path ctr @ ''/work'',
     layer_path ctr @ ''/merged''] @ map (\<lambda>d. layer_path ctr @ ''/merged/'' @ d) fslist"

lemma print_all_ok: "\<forall>s \<in> set ss. length s < n \<Longrightarrow> print_all n ss = Inr ss"
  by (induction ss) (auto simp: sprintf_def)

lemma create_container_paths:
  assumes "length ctr < 900"
  shows "create_container ctr h = Inr (h\<lparr>hfs := snd (mk_all mkdir_r (layout ctr) (hfs h))\<rparr>)"
proof -
  let ?m = "layer_path ctr @ ''/merged''"
  have fit: "\<forall>s \<in> set (map (\<lambda>d. ?m @ ''/'' @ d) fslist). length s < 1024"
    using assms by (simp add: fslist_def layer_path_def)
  have line: "sprintf 1024 (hoststack_repo @ ''/containers/'' @ ctr) = Inr (''/data/hoststack/containers/'' @ ctr)"
    using assms by (simp add: sprintf_def hoststack_repo_def)
  have lay: "layout ctr = [''/data/hoststack/containers/'' @ ctr, layer_path ctr @ ''/diff'', layer_path ctr @ ''/work'', ?m] @
      map (\<lambda>d. ?m @ ''/'' @ d) fslist" by (simp add: layout_def)
  have "length ctr < 990" using assms by simp
  note dirs = path_results [OF this]
  have "create_container ctr h = Inr (snd (mk_all host_mkdir_r (layout ctr) h))"
    unfolding create_container_def line dirs rbind_Inr print_all_ok [OF fit] lay ..
  then show ?thesis by (simp only: mk_all_host)
qed

lemma clean_join: "clean p \<Longrightarrow> clean q \<Longrightarrow> [] \<notin> set (pieces q) \<Longrightarrow> clean (p @ CHR ''/'' # q)"
  by (auto simp: clean_def pieces_append)

lemma clean_name: "x \<noteq> [] \<Longrightarrow> CHR ''/'' \<notin> set x \<Longrightarrow> clean x \<and> [] \<notin> set (pieces x)"
  by (simp add: clean_def pieces_name)

lemma layout_clean:
  assumes "ctr \<noteq> []" and "CHR ''/'' \<notin> set ctr" and "p \<in> set (layout ctr)"
  shows "clean p"
proof -
  note nm = clean_name [OF assms(1,2)]
  have "clean ''/data/hoststack/containers''" "clean ''/data/hoststack/overlay2''" by (simp_all add: clean_def)
  from this [THEN clean_join, of ctr] nm
  have a: "clean (''/data/hoststack/containers/'' @ ctr)" and l: "clean (layer_path ctr)"
    by (simp_all add: layer_path_def)
  have sub: "clean (layer_path ctr @ CHR ''/'' # q)" if "[] \<notin> set (pieces q)" "q \<noteq> []" for q
  proof -
    have "clean q" using that list.set_sel(2) [of "pieces q"] pieces_nonempty by (auto simp: clean_def)
    from clean_join [OF l this that(1)] show ?thesis .
  qed
  have "\<forall>d \<in> set fslist. [] \<notin> set (pieces (''merged/'' @ d))" by (simp add: fslist_def)
  then have "clean (layer_path ctr @ ''/merged/'' @ d)" if "d \<in> set fslist" for d
    using sub [of "''merged/'' @ d"] that by simp
  moreover have "clean (layer_path ctr @ ''/diff'')" "clean (layer_path ctr @ ''/work'')" "clean (layer_path ctr @ ''/merged'')"
    using sub [of "''diff''"] sub [of "''work''"] sub [of "''merged''"] by simp_all
  ultimately show ?thesis using assms(3) a by (auto simp: layout_def)
qed

text \<open>C30 (functional): \<open>create_container\<close> leaves exactly the directory layout of the container behind: the
  socket directory, the diff, work and merged directories of its layer and the seventeen mount
  points, with all their parents, and nothing else changes.\<close>

theorem create_container_layout:
  assumes "tree_ok (hfs h)" and "ctr \<noteq> []" "CHR ''/'' \<notin> set ctr" "length ctr < 900"
    and "\<forall>p \<in> set (layout ctr). \<forall>x \<in> prefixes_of (comps p). x \<in> dirs (hfs h) \<or> x \<notin> files (hfs h) \<and> \<not> refused (hfs h) x"
  shows "\<exists>h'. create_container ctr h = Inr h' \<and> mounts h' = mounts h \<and> tree_ok (hfs h') \<and>
    dirs (hfs h') = dirs (hfs h) \<union> (\<Union>p \<in> set (layout ctr). prefixes_of (comps p))"
proof -
  have abs: "resolve b p = comps p" if "p \<in> set (layout ctr)" for b p
    using that by (auto simp: layout_def layer_path_def resolve_def)
  have "\<forall>p \<in> set (layout ctr). may_mk (hfs h) p"
    using assms(5) layout_clean [OF assms(2,3)] abs by (auto simp: may_mk_def)
  from host_dirs.mk_all_ok [OF assms(1) this] obtain fs' where
    m: "mk_all mkdir_r (layout ctr) (hfs h) = (replicate (length (layout ctr)) 0, fs')" "tree_ok fs'"
    "dirs fs' = dirs (hfs h) \<union> (\<Union>p \<in> set (layout ctr). prefixes_of (resolve (cwd (hfs h)) p))" by blast
  have "dirs fs' = dirs (hfs h) \<union> (\<Union>p \<in> set (layout ctr). prefixes_of (comps p))"
    using m(3) abs by auto
  with m(1,2) show ?thesis using create_container_paths [OF assms(4)] by simp
qed

theorem create_container_layout_witness:
  "\<exists>h'. create_container ''a1'' demo_host = Inr h' \<and>
    [''data'', ''hoststack'', ''overlay2'', ''a1'', ''merged'', ''dev'', ''pts''] \<in> dirs (hfs h')"
proof -
  have "\<forall>p \<in> set (layout ''a1''). \<forall>x \<in> prefixes_of (comps p).
      x \<in> dirs (hfs demo_host) \<or> x \<notin> files (hfs demo_host) \<and> \<not> refused (hfs demo_host) x"
    by (simp add: demo_host_def)
  from create_container_layout [OF demo_host_ok(1) _ _ _ this] obtain h' where
    h': "create_container ''a1'' demo_host = Inr h'"
    "dirs (hfs h') = dirs (hfs demo_host) \<union> (\<Union>p \<in> set (layout ''a1''). prefixes_of (comps p))" by auto
  have "layer_path ''a1'' @ ''/merged/'' @ ''dev/pts'' \<in> set (layout ''a1'')" by (simp add: layout_def fslist_def)
  moreover have "comps (layer_path ''a1'' @ ''/merged/'' @ ''dev/pts'') =
      [''data'', ''hoststack'', ''overlay2'', ''a1'', ''merged'', ''dev'', ''pts'']"
    by (simp add: comps_def layer_path_def)
  ultimately have "[''data'', ''hoststack'', ''overlay2'', ''a1'', ''merged'', ''dev'', ''pts''] \<in> dirs (hfs h')"
    unfolding h'(2) by (intro UnI2 UN_I) (assumption, simp only: self_prefix)
  with h'(1) show ?thesis by blast
qed

section \<open>Volumes\<close>

lemma strtok_colon:
  assumes "a \<noteq> []" and "CHR '':'' \<notin> set a"
  shows "strtok_next '':'' (a @ '':'' @ r) = Some (a, r)" and "strtok_next '':'' a = Some (a, [])"
proof -
  obtain x xs where a: "a = x # xs" using assms(1) by (cases a) auto
  have x: "x \<noteq> CHR '':''" and xs: "\<forall>y \<in> set xs. y \<noteq> CHR '':''" using assms(2) a by auto
  show "strtok_next '':'' (a @ '':'' @ r) = Some (a, r)"
    using x xs a by (simp add: strtok_next_def Let_def takeWhile_append2 dropWhile_append2)
  have "dropWhile (\<lambda>c. c \<noteq> CHR '':'') xs = []" using xs unfolding dropWhile_eq_Nil_conv by blast
  then have dw: "tl (dropWhile (\<lambda>c. c \<noteq> CHR '':'') xs) = []" by (simp only: list.sel(2))
  show "strtok_next '':'' a = Some (a, [])"
    using x xs a by (simp add: strtok_next_def Let_def takeWhile_eq_all_conv dw)
qed

lemma path_join_two:
  assumes "p \<noteq> []" and "\<And>n. alloc n"
  shows "path_join alloc (Some p) [q] = Inr (Some (path_cat p q))"
  using path_join_result [OF assms(1), of alloc "[q]"] assms(2) by (simp add: oom_def)

text \<open>C31 (functional): \<open>mount_volume\<close> binds the host directory of a volume \<open>src:dst\<close> with absolute paths
  to \<open>dst\<close> under the container's root, and \<open>umount_volume\<close> takes the same mount off again.\<close>

theorem volume_mount_umount:
  assumes "hd a = CHR ''/''" "hd b = CHR ''/''" "a \<noteq> []" "b \<noteq> []" "CHR '':'' \<notin> set a" "CHR '':'' \<notin> set b"
    and "length ctr < 900" "length a < 1000" "length b < 1000"
    and "\<And>n. mem_ok K n" "\<And>m. mount_ok K m" "\<And>t. \<not> busy K t" "\<And>l h. mounts (snd (shell K l h)) = mounts h"
  shows "\<exists>h' h''. mount_volume K ctr (a @ '':'' @ b) h = Inr h' \<and>
    mounts h' = \<lparr>m_src = a, m_target = path_cat (layer_path ctr @ ''/merged'') b, m_type = ''none'',
      m_flags = MS_BIND, m_data = []\<rparr> # mounts h \<and>
    umount_volume K ctr (Some (a @ '':'' @ b)) h' = Inr h'' \<and> mounts h'' = mounts h"
proof -
  let ?root = "layer_path ctr @ ''/merged''" and ?t = "path_cat (layer_path ctr @ ''/merged'') b"
  have root: "getMergedDir ctr None = Inr ?root" using path_results [of ctr] assms(7) by simp
  have join: "path_join (mem_ok K) (Some ?root) [b] = Inr (Some ?t)"
    using path_join_two [of ?root "mem_ok K" b] assms(10) by simp
  have len: "length ?t < 2000"
    using assms(7,9) length_dropWhile_le [of "\<lambda>c. c = CHR ''/''" b] by (simp add: path_cat_def layer_path_def)
  note tok = strtok_colon(1) [OF assms(3,5), of b] strtok_colon(2) [OF assms(4,6)]
  let ?m = "\<lparr>m_src = a, m_target = ?t, m_type = ''none'', m_flags = MS_BIND, m_data = []\<rparr>"
  have "\<exists>h'. done_host (bind_mount_st K ctr a b h) = Inr h' \<and> mounts h' = ?m # mounts h"
    using root join len assms(8,11,13) unfolding bind_mount_st_def
    by (simp add: sprintf_def sys_mount_def done_host_rules)
  then obtain h' where h': "mount_volume K ctr (a @ '':'' @ b) h = Inr h'" "mounts h' = ?m # mounts h"
    using tok assms(1,2) by (auto simp: mount_volume_def mount_volume_st_def)
  have "sys_umount K ?t h' = (0, h'\<lparr>mounts := mounts h\<rparr>)"
    using umount_top [OF h'(2), of ?t K] assms(12) by simp
  then have "umount_volume K ctr (Some (a @ '':'' @ b)) h' = Inr (h'\<lparr>mounts := mounts h\<rparr>)"
    using root join tok by (simp add: umount_volume_def)
  with h' show ?thesis by simp
qed

theorem volume_mount_umount_witness:
  "\<exists>h' h''. mount_volume demo_kernel ''a1'' ''/srv:/app'' demo_host = Inr h' \<and>
    map m_target (mounts h') = [''/data/hoststack/overlay2/a1/merged/app''] \<and>
    umount_volume demo_kernel ''a1'' (Some ''/srv:/app'') h' = Inr h'' \<and> mounts h'' = []"
proof -
  have "\<exists>h' h''. mount_volume demo_kernel ''a1'' (''/srv'' @ '':'' @ ''/app'') demo_host = Inr h' \<and>
    mounts h' = \<lparr>m_src = ''/srv'', m_target = path_cat (layer_path ''a1'' @ ''/merged'') ''/app'', m_type = ''none'',
      m_flags = MS_BIND, m_data = []\<rparr> # mounts demo_host \<and>
    umount_volume demo_kernel ''a1'' (Some (''/srv'' @ '':'' @ ''/app'')) h' = Inr h'' \<and> mounts h'' = mounts demo_host"
    by (rule volume_mount_umount) (simp_all add: demo_kernel_def)
  moreover have "path_cat (layer_path ''a1'' @ ''/merged'') ''/app'' = ''/data/hoststack/overlay2/a1/merged/app''"
    by (simp add: path_cat_def layer_path_def)
  ultimately show ?thesis by (auto simp: demo_host_def)
qed

end
