(* ===== verification/SemUtil.thy ===== *)
theory SemUtil
  imports Prelude
begin

text \<open>
  \<open>src/common/sem_util.cpp\<close>: System V semaphores. The IPC state maps the identifier of a set that
  exists to the value of its semaphore and to whether \<open>semop\<close> has been called on it (\<open>sem_otime\<close> is not
  0). Undo lists are not modelled.
\<close>

record sem =
  semval :: int
  otime :: bool

record ipc =
  keys :: "(int \<times> int) list"          \<comment> \<open>key and identifier of the sets with a key\<close>
  sems :: "int \<Rightarrow> sem option"
  next_id :: int

definition IPC_PRIVATE :: int where "IPC_PRIVATE = 0"
definition EINTR_sem :: int where "EINTR_sem = 4"
definition EEXIST :: int where "EEXIST = 17"
definition MAX_TRIES :: nat where "MAX_TRIES = 10"

text \<open>The largest value of a semaphore.\<close>

definition SEMVMX :: int where "SEMVMX = 32767"

text \<open>\<open>sem_op\<close> is a \<open>short\<close>.\<close>

definition to_short :: "int \<Rightarrow> int" where
  "to_short x = (x + 2 ^ 15) mod 2 ^ 16 - 2 ^ 15"

definition upd_sem :: "int \<Rightarrow> sem \<Rightarrow> ipc \<Rightarrow> ipc" where
  "upd_sem i v s = s\<lparr>sems := (sems s)(i \<mapsto> v)\<rparr>"

text \<open>One \<open>semop\<close> on a set: done, blocked for now, or failed (the set does not exist, or the value would
  exceed the limit). An operation \<open>op > 0\<close> adds, \<open>op < 0\<close> subtracts when the value allows it, 0 needs the
  value to be 0.\<close>

datatype sem_answer = Done ipc | Blocks | Fails

definition semop :: "int \<Rightarrow> int \<Rightarrow> ipc \<Rightarrow> sem_answer" where
  "semop i op s =
     (case sems s i of
        None \<Rightarrow> Fails
      | Some m \<Rightarrow>
          (let v = semval m in
           if op > 0 then (if v + op > SEMVMX then Fails else Done (upd_sem i \<lparr>semval = v + op, otime = True\<rparr> s))
           else if op < 0 then (if v + op \<ge> 0 then Done (upd_sem i \<lparr>semval = v + op, otime = True\<rparr> s) else Blocks)
           else if v = 0 then Done (upd_sem i \<lparr>semval = v, otime = True\<rparr> s) else Blocks))"

text \<open>How the kernel answers the calls of \<open>get\<close> that can fail otherwise: \<open>semget\<close> with \<open>IPC_CREAT\<close> refused
  for another reason than an existing set, the second \<open>semget\<close>, \<open>semctl\<close>, \<open>semop\<close>; and what the \<open>j\<close>th
  look at \<open>sem_otime\<close> of a set created by another process shows.\<close>

record sem_env =
  create_fails :: "int option"
  get_fails :: "int option"
  ctl_fails :: "int option"
  op_fails :: "int option"
  otime_at :: "nat \<Rightarrow> bool"

text \<open>The tries from \<open>j\<close> on; \<open>errnum\<close> is \<open>errno\<close> as the failed creation left it.\<close>

function wait_init :: "sem_env \<Rightarrow> int \<Rightarrow> nat \<Rightarrow> unit res" where
  "wait_init E errnum j =
     (if j < MAX_TRIES
      then (case ctl_fails E of
              Some e \<Rightarrow> Inl (Exit e)
            | None \<Rightarrow> if otime_at E j then Inr () else wait_init E errnum (j + 1))
      else Inl (Exit errnum))"
  by pat_completeness auto
termination
  by (relation "measure (\<lambda>(E, e, j). MAX_TRIES - j)") auto

declare wait_init.simps [simp del]

text \<open>\<open>None\<close>: the \<open>semop\<close> with a negative operand, which a \<open>value\<close> above 32767 becomes, waits for ever.\<close>

definition sem_get :: "sem_env \<Rightarrow> int \<Rightarrow> int \<Rightarrow> ipc \<Rightarrow> (int \<times> ipc) res option" where
  "sem_get E key v s =
     (case create_fails E of
        Some e \<Rightarrow> Some (Inl (Exit e))
      | None \<Rightarrow>
          if key \<noteq> IPC_PRIVATE \<and> map_of (keys s) key \<noteq> None
          then (case get_fails E of
                  Some e \<Rightarrow> Some (Inl (Exit e))
                | None \<Rightarrow> Some (rbind (wait_init E EEXIST 0) (\<lambda>_. Inr (the (map_of (keys s) key), s))))
          else (let i = next_id s;
                    s1 = s\<lparr>keys := (if key = IPC_PRIVATE then keys s else (key, i) # keys s), next_id := i + 1\<rparr> in
                case ctl_fails E of
                  Some e \<Rightarrow> Some (Inl (Exit e))
                | None \<Rightarrow>
                    (case op_fails E of
                       Some e \<Rightarrow> Some (Inl (Exit e))
                     | None \<Rightarrow>
                         (case semop i (to_short v) (upd_sem i \<lparr>semval = 0, otime = False\<rparr> s1) of
                            Done s2 \<Rightarrow> Some (Inr (i, s2))
                          | Blocks \<Rightarrow> None
                          | Fails \<Rightarrow> Some (Inl (Exit 34))))))"

definition sem_inc :: "int \<Rightarrow> ipc \<Rightarrow> int \<times> ipc" where
  "sem_inc i s = (case semop i 1 s of Done s' \<Rightarrow> (0, s') | _ \<Rightarrow> (-1, s))"

text \<open>What a blocked call meets, one event after the other: another process changes the set, a signal
  handler interrupts the call, or the call fails (the time is over).\<close>

datatype wait_ev = Others ipc | Interrupted | Failed int

text \<open>The loop that repeats an interrupted \<open>semop\<close>; \<open>None\<close> when the call is still blocked at the end of
  the events.\<close>

fun semop_retry :: "int \<Rightarrow> int \<Rightarrow> wait_ev list \<Rightarrow> ipc \<Rightarrow> (int \<times> ipc) option" where
  "semop_retry i op evs s =
     (case semop i op s of
        Done s' \<Rightarrow> Some (0, s')
      | Fails \<Rightarrow> Some (-1, s)
      | Blocks \<Rightarrow>
          (case evs of
             [] \<Rightarrow> None
           | Others s' # evs' \<Rightarrow> semop_retry i op evs' s'
           | Interrupted # evs' \<Rightarrow> semop_retry i op evs' s
           | Failed e # evs' \<Rightarrow> if e \<noteq> EINTR_sem then Some (-1, s) else semop_retry i op evs' s))"

declare semop_retry.simps [simp del]

definition sem_dec :: "int \<Rightarrow> wait_ev list \<Rightarrow> ipc \<Rightarrow> (int \<times> ipc) option" where
  "sem_dec i evs s = semop_retry i (-1) evs s"

definition sem_dec_nowait :: "int \<Rightarrow> ipc \<Rightarrow> int \<times> ipc" where
  "sem_dec_nowait i s = (case semop i (-1) s of Done s' \<Rightarrow> (0, s') | _ \<Rightarrow> (-1, s))"

text \<open>With a time limit the call ends by the event \<open>Failed EAGAIN\<close> at the latest.\<close>

definition sem_dec_timeout :: "int \<Rightarrow> wait_ev list \<Rightarrow> ipc \<Rightarrow> (int \<times> ipc) option" where
  "sem_dec_timeout i evs s = semop_retry i (-1) evs s"

definition sem_zero :: "int \<Rightarrow> wait_ev list \<Rightarrow> ipc \<Rightarrow> (int \<times> ipc) option" where
  "sem_zero i evs s = semop_retry i 0 evs s"

definition sem_zero_nowait :: "int \<Rightarrow> ipc \<Rightarrow> int \<times> ipc" where
  "sem_zero_nowait i s = (case semop i 0 s of Done s' \<Rightarrow> (0, s') | _ \<Rightarrow> (-1, s))"

definition sem_zero_timeout :: "int \<Rightarrow> wait_ev list \<Rightarrow> ipc \<Rightarrow> (int \<times> ipc) option" where
  "sem_zero_timeout i evs s = semop_retry i 0 evs s"

definition sem_set :: "int \<Rightarrow> int \<Rightarrow> ipc \<Rightarrow> int \<times> ipc" where
  "sem_set i v s =
     (case sems s i of
        None \<Rightarrow> (-1, s)
      | Some m \<Rightarrow> if v < 0 \<or> v > SEMVMX then (-1, s) else (0, upd_sem i (m\<lparr>semval := v\<rparr>) s))"

definition sem_remove :: "int \<Rightarrow> ipc \<Rightarrow> ipc" where
  "sem_remove i s =
     (if sems s i = None then s
      else s\<lparr>keys := filter (\<lambda>(k, j). j \<noteq> i) (keys s), sems := (sems s)(i := None)\<rparr>)"

section \<open>Properties\<close>

lemma wait_init_tries:
  assumes "ctl_fails E = None"
  shows "wait_init E e j = (if \<exists>k. j \<le> k \<and> k < MAX_TRIES \<and> otime_at E k then Inr () else Inl (Exit e))"
proof (induction "MAX_TRIES - j" arbitrary: j)
  case 0
  then show ?case by (auto simp: wait_init.simps [of E e j])
next
  case (Suc n)
  then have lt: "j < MAX_TRIES" and IH: "wait_init E e (j + 1) =
      (if \<exists>k. j + 1 \<le> k \<and> k < MAX_TRIES \<and> otime_at E k then Inr () else Inl (Exit e))" by auto
  show ?case
  proof (cases "otime_at E j")
    case True
    then show ?thesis using lt assms by (auto simp: wait_init.simps [of E e j])
  next
    case False
    then have "(\<exists>k. j + 1 \<le> k \<and> k < MAX_TRIES \<and> otime_at E k) = (\<exists>k. j \<le> k \<and> k < MAX_TRIES \<and> otime_at E k)"
      by (metis Suc_eq_plus1 Suc_leI le_neq_implies_less less_or_eq_imp_le nat_less_le Suc_le_eq)
    then show ?thesis using lt assms False IH by (simp add: wait_init.simps [of E e j])
  qed
qed

text \<open>\<open>SemUtil::get\<close> with a value that fits a \<open>short\<close> never blocks and returns a set that
  \<open>semop\<close> has been called on: a new one has the requested value, an existing one keeps its value; if its
  creator does not initialise it within ten tries the process exits.\<close>

theorem sem_get_initialised:
  assumes "create_fails E = None" "get_fails E = None" "ctl_fails E = None" "op_fails E = None"
    and v: "0 \<le> v" "v \<le> SEMVMX"
  shows "if key \<noteq> IPC_PRIVATE \<and> map_of (keys s) key \<noteq> None
     then sem_get E key v s =
       Some (if \<exists>k < 10. otime_at E k then Inr (the (map_of (keys s) key), s) else Inl (Exit EEXIST))
     else \<exists>i s'. sem_get E key v s = Some (Inr (i, s')) \<and> sems s' i = Some \<lparr>semval = v, otime = True\<rparr> \<and>
       (\<forall>j. j \<noteq> i \<longrightarrow> sems s' j = sems s j) \<and> (key \<noteq> IPC_PRIVATE \<longrightarrow> map_of (keys s') key = Some i)"
proof -
  have "to_short v = v" using v by (simp add: to_short_def SEMVMX_def)
  then show ?thesis
    using assms wait_init_tries [of E EEXIST 0]
    by (auto simp: sem_get_def Let_def upd_sem_def MAX_TRIES_def semop_def)
qed

definition demo_sem_env :: sem_env where
  "demo_sem_env = \<lparr>create_fails = None, get_fails = None, ctl_fails = None, op_fails = None, otime_at = (\<lambda>_. False)\<rparr>"

definition demo_ipc :: "int \<Rightarrow> ipc" where
  "demo_ipc v = \<lparr>keys = [], sems = [0 \<mapsto> \<lparr>semval = v, otime = True\<rparr>], next_id = 1\<rparr>"

theorem sem_get_initialised_witness:
  "\<exists>i s'. sem_get demo_sem_env IPC_PRIVATE 1 (demo_ipc 0) = Some (Inr (i, s')) \<and>
    sems s' i = Some \<lparr>semval = 1, otime = True\<rparr>"
proof -
  have "create_fails demo_sem_env = None" "get_fails demo_sem_env = None" "ctl_fails demo_sem_env = None"
    "op_fails demo_sem_env = None" "0 \<le> (1 :: int)" "1 \<le> SEMVMX" by (simp_all add: demo_sem_env_def SEMVMX_def)
  from sem_get_initialised [OF this, of IPC_PRIVATE "demo_ipc 0"] show ?thesis by auto
qed

definition sem_at_zero :: "int \<Rightarrow> ipc \<Rightarrow> bool" where
  "sem_at_zero i s \<longleftrightarrow> (case sems s i of None \<Rightarrow> False | Some m \<Rightarrow> semval m = 0)"

lemma semop_zero: "semop i 0 s = Done s' \<Longrightarrow> sem_at_zero i s'"
  by (auto simp: sem_at_zero_def semop_def upd_sem_def Let_def split: if_splits option.splits)

lemma semop_zero_fails: "semop i 0 s = Fails \<Longrightarrow> sems s i = None"
  by (auto simp: semop_def Let_def split: if_splits option.splits)

lemma semop_zero_ready: "sem_at_zero i s \<Longrightarrow> \<exists>s'. semop i 0 s = Done s'"
  by (auto simp: sem_at_zero_def semop_def split: option.splits)

lemma semop_retry_zero:
  "semop_retry i 0 evs s = Some (r, s') \<Longrightarrow>
    (r = 0 \<and> sem_at_zero i s') \<or>
    (r = -1 \<and> (sems s' i = None \<or> (\<exists>e. Failed e \<in> set evs \<and> e \<noteq> EINTR_sem)))"
proof (induction evs arbitrary: s)
  case Nil
  then show ?case using semop_zero [of i s] semop_zero_fails [of i s]
    by (auto simp: semop_retry.simps [of i 0 "[]" s] split: sem_answer.splits)
next
  case (Cons ev evs)
  show ?case
  proof (cases "semop i 0 s")
    case (Done s1)
    with Cons.prems semop_zero [OF Done] show ?thesis by (simp add: semop_retry.simps [of i 0 "ev # evs" s])
  next
    case Fails
    with Cons.prems semop_zero_fails [OF Fails] show ?thesis
      by (simp add: semop_retry.simps [of i 0 "ev # evs" s])
  next
    case Blocks
    note nxt = Cons.prems [unfolded semop_retry.simps [of i 0 "ev # evs" s] Blocks, simplified]
    show ?thesis
    proof (cases ev)
      case (Others s1)
      with nxt Cons.IH [of s1] show ?thesis by auto
    next
      case Interrupted
      with nxt Cons.IH [of s] show ?thesis by auto
    next
      case (Failed e)
      with nxt Cons.IH [of s] show ?thesis by (auto split: if_splits)
    qed
  qed
qed

text \<open>Events among which nothing fails and the set stays.\<close>

definition harmless :: "int \<Rightarrow> wait_ev \<Rightarrow> bool" where
  "harmless i ev = (case ev of Others s \<Rightarrow> sems s i \<noteq> None | Interrupted \<Rightarrow> True | Failed e \<Rightarrow> e = EINTR_sem)"

lemma semop_retry_zero_returns:
  "\<lbrakk>sems s i \<noteq> None; \<forall>ev \<in> set evs. harmless i ev; sem_at_zero i z\<rbrakk> \<Longrightarrow>
    \<exists>s'. semop_retry i 0 (evs @ Others z # evs') s = Some (0, s')"
proof (induction evs arbitrary: s)
  case Nil
  with semop_zero_ready [of i z] semop_zero_fails [of i s] show ?case
    by (auto simp: semop_retry.simps [of i 0 _ s] semop_retry.simps [of i 0 _ z] split: sem_answer.splits)
next
  case (Cons ev evs)
  note IH = Cons.IH [OF _ _ Cons.prems(3)]
  show ?case
  proof (cases "semop i 0 s")
    case Blocks
    then show ?thesis using Cons.prems(1,2) IH
      by (auto simp: semop_retry.simps [of i 0 "ev # evs @ Others z # evs'" s] harmless_def split: wait_ev.splits)
  qed (use Cons.prems(1) semop_zero_fails [of i s] in \<open>auto simp: semop_retry.simps [of i 0 _ s]\<close>)
qed

text \<open>C38 (safety): \<open>SemUtil::zero\<close> returns 0 only with the semaphore at zero, whatever signals interrupt
  it and whatever other processes do meanwhile, and -1 only when the set is gone or the call itself failed;
  and it does return once the semaphore has become zero, if the set stays and only signals interrupt it.\<close>

theorem sem_zero_waits:
  "(sem_zero i evs s = Some (r, s') \<longrightarrow>
      (r = 0 \<and> sem_at_zero i s') \<or>
      (r = -1 \<and> (sems s' i = None \<or> (\<exists>e. Failed e \<in> set evs \<and> e \<noteq> EINTR_sem)))) \<and>
   (sems s i \<noteq> None \<longrightarrow> (\<forall>ev \<in> set evs. harmless i ev) \<longrightarrow> sem_at_zero i z \<longrightarrow>
      (\<exists>s'. sem_zero i (evs @ Others z # evs') s = Some (0, s')))"
  unfolding sem_zero_def using semop_retry_zero semop_retry_zero_returns by meson

theorem sem_zero_waits_witness:
  "\<exists>s'. sem_zero 0 ([Interrupted] @ Others (demo_ipc 0) # []) (demo_ipc 1) = Some (0, s') \<and> sem_at_zero 0 s'"
proof -
  have "sems (demo_ipc 1) 0 \<noteq> None" "\<forall>ev \<in> set [Interrupted]. harmless 0 ev" "sem_at_zero 0 (demo_ipc 0)"
    by (simp_all add: demo_ipc_def harmless_def sem_at_zero_def)
  then obtain s' where s': "sem_zero 0 ([Interrupted] @ Others (demo_ipc 0) # []) (demo_ipc 1) = Some (0, s')"
    using sem_zero_waits [of 0 "[Interrupted]" "demo_ipc 1" 0 "demo_ipc 1" "demo_ipc 0" "[]"] by blast
  with sem_zero_waits [of 0 "[Interrupted] @ Others (demo_ipc 0) # []" "demo_ipc 1" 0 s' "demo_ipc 0" "[]"]
  show ?thesis by auto
qed

end
