(* ===== verification/Tty.thy ===== *)
theory Tty
  imports SysIo "HOL-Library.Word"
begin

text \<open>
  Terminals: \<open>src/pty/tty_functions.cpp\<close> (raw and cbreak mode), the saving and restoring of the terminal
  in \<open>src/pty/pty_exec_util.cpp\<close>, and the opening of a pseudo-terminal in \<open>src/pty/pty_master_open.cpp\<close>.
  The flag words have 32 bits and the values of \<open>asm-generic/termbits.h\<close>.
\<close>

unbundle bit_operations_syntax

section \<open>Terminal attributes\<close>

record termios =
  c_iflag :: "32 word"
  c_oflag :: "32 word"
  c_cflag :: "32 word"
  c_lflag :: "32 word"
  c_cc :: "nat \<Rightarrow> 8 word"

definition IGNBRK :: "32 word" where "IGNBRK = 0x1"
definition BRKINT :: "32 word" where "BRKINT = 0x2"
definition PARMRK :: "32 word" where "PARMRK = 0x8"
definition INPCK :: "32 word" where "INPCK = 0x10"
definition ISTRIP :: "32 word" where "ISTRIP = 0x20"
definition INLCR :: "32 word" where "INLCR = 0x40"
definition IGNCR :: "32 word" where "IGNCR = 0x80"
definition ICRNL :: "32 word" where "ICRNL = 0x100"
definition IXON :: "32 word" where "IXON = 0x400"
definition OPOST :: "32 word" where "OPOST = 0x1"
definition ISIG :: "32 word" where "ISIG = 0x1"
definition ICANON :: "32 word" where "ICANON = 0x2"
definition ECHO :: "32 word" where "ECHO = 0x8"
definition ECHONL :: "32 word" where "ECHONL = 0x40"
definition IEXTEN :: "32 word" where "IEXTEN = 0x8000"
definition CSIZE :: "32 word" where "CSIZE = 0x30"
definition CS8 :: "32 word" where "CS8 = 0x30"
definition PARENB :: "32 word" where "PARENB = 0x100"
definition VTIME :: nat where "VTIME = 5"
definition VMIN :: nat where "VMIN = 6"

lemmas flag_defs = IGNBRK_def BRKINT_def PARMRK_def INPCK_def ISTRIP_def INLCR_def IGNCR_def ICRNL_def IXON_def
  OPOST_def ISIG_def ICANON_def ECHO_def ECHONL_def IEXTEN_def CSIZE_def CS8_def PARENB_def VTIME_def VMIN_def

text \<open>The terminals of the process: \<open>None\<close> for a descriptor that is none. \<open>set_fails\<close> are those whose
  attributes cannot be set. Of the bytes still to be read from a terminal, the first \<open>queued\<close> ones have been typed
  by the time its attributes are set with \<open>TCSAFLUSH\<close>.\<close>

record ttys =
  tty_of :: "int \<Rightarrow> termios option"
  set_fails :: "int \<Rightarrow> bool"
  queued :: "int \<Rightarrow> nat"

text \<open>With \<open>TCSANOW\<close> only the attributes change; with \<open>TCSAFLUSH\<close> what has been typed and not been read is discarded.\<close>

definition tcsetattr :: "int \<Rightarrow> termios \<Rightarrow> ttys \<Rightarrow> int \<times> ttys" where
  "tcsetattr fd t s =
     (if tty_of s fd = None \<or> set_fails s fd then (-1, s) else (0, s\<lparr>tty_of := (tty_of s)(fd \<mapsto> t)\<rparr>))"

definition flush_input :: "int \<Rightarrow> nat \<Rightarrow> sys \<Rightarrow> sys" where
  "flush_input fd n u = set_port fd ((ports u fd)\<lparr>inq := drop n (inq (ports u fd))\<rparr>) u"

definition tcsetattr_flush :: "int \<Rightarrow> termios \<Rightarrow> ttys \<Rightarrow> sys \<Rightarrow> int \<times> ttys \<times> sys" where
  "tcsetattr_flush fd t s u =
     (let (r, s') = tcsetattr fd t s in (r, s', if r = 0 then flush_input fd (queued s fd) u else u))"

text \<open>The second component is what is stored at \<open>prevTermios\<close>, when the caller asks for it.\<close>

definition ttySetCbreak :: "int \<Rightarrow> bool \<Rightarrow> ttys \<Rightarrow> sys \<Rightarrow> int \<times> termios option \<times> ttys \<times> sys" where
  "ttySetCbreak fd want_prev s u =
     (case tty_of s fd of
        None \<Rightarrow> (-1, None, s, u)
      | Some t \<Rightarrow>
          (let prev = (if want_prev then Some t else None);
               t' = t\<lparr>c_lflag := (c_lflag t AND NOT (ICANON OR ECHO)) OR ISIG, c_iflag := c_iflag t AND NOT ICRNL,
                      c_cc := (c_cc t)(VMIN := 1, VTIME := 0)\<rparr>;
               (r, s', u') = tcsetattr_flush fd t' s u in
           if r = -1 then (-1, prev, s', u') else (0, prev, s', u')))"

definition raw_mode :: "termios \<Rightarrow> termios" where
  "raw_mode t =
     t\<lparr>c_lflag := c_lflag t AND NOT (ICANON OR ISIG OR IEXTEN OR ECHO),
       c_iflag := c_iflag t AND NOT (BRKINT OR ICRNL OR IGNBRK OR IGNCR OR INLCR OR INPCK OR ISTRIP OR IXON OR PARMRK),
       c_oflag := c_oflag t AND NOT OPOST,
       c_cc := (c_cc t)(VMIN := 1, VTIME := 0)\<rparr>"

definition ttySetRaw :: "int \<Rightarrow> bool \<Rightarrow> ttys \<Rightarrow> sys \<Rightarrow> int \<times> termios option \<times> ttys \<times> sys" where
  "ttySetRaw fd want_prev s u =
     (case tty_of s fd of
        None \<Rightarrow> (-1, None, s, u)
      | Some t \<Rightarrow>
          (let prev = (if want_prev then Some t else None); (r, s', u') = tcsetattr_flush fd (raw_mode t) s u in
           if r = -1 then (-1, prev, s', u') else (0, prev, s', u')))"

text \<open>\<open>cfmakeraw\<close> of the C library, which \<open>pty_client\<close> uses.\<close>

definition cfmakeraw :: "termios \<Rightarrow> termios" where
  "cfmakeraw t =
     t\<lparr>c_iflag := c_iflag t AND NOT (IGNBRK OR BRKINT OR PARMRK OR ISTRIP OR INLCR OR IGNCR OR ICRNL OR IXON),
       c_oflag := c_oflag t AND NOT OPOST,
       c_lflag := c_lflag t AND NOT (ECHO OR ECHONL OR ICANON OR ISIG OR IEXTEN),
       c_cflag := (c_cflag t AND NOT (CSIZE OR PARENB)) OR CS8,
       c_cc := (c_cc t)(VMIN := 1, VTIME := 0)\<rparr>"

definition STDIN_FILENO :: int where "STDIN_FILENO = 0"
definition STDOUT_FILENO :: int where "STDOUT_FILENO = 1"
definition STDERR_FILENO :: int where "STDERR_FILENO = 2"

text \<open>\<open>ttyReset\<close>, with the global \<open>ttyOrig\<close> as an argument.\<close>

definition ttyReset :: "termios \<Rightarrow> ttys \<Rightarrow> ttys" where
  "ttyReset ttyOrig s = snd (tcsetattr STDIN_FILENO ttyOrig s)"

section \<open>Properties\<close>

text \<open>Bits of a word that a mask clears.\<close>

lemma bit_and_not: "bit (x AND NOT m) n \<longleftrightarrow> bit x n \<and> \<not> bit m n" for x m :: "32 word"
  by (auto simp: bit_and_iff bit_not_iff dest: bit_imp_le_length)

lemma raw_mode_fields:
  "c_lflag (raw_mode t) = c_lflag t AND NOT (ICANON OR ISIG OR IEXTEN OR ECHO)"
  "c_iflag (raw_mode t) = c_iflag t AND
     NOT (BRKINT OR ICRNL OR IGNBRK OR IGNCR OR INLCR OR INPCK OR ISTRIP OR IXON OR PARMRK)"
  "c_oflag (raw_mode t) = c_oflag t AND NOT OPOST"
  by (simp_all add: raw_mode_def)

lemma raw_mode_bits:
  "bit (c_lflag (raw_mode t)) n \<longleftrightarrow> bit (c_lflag t) n \<and> \<not> bit (ICANON OR ISIG OR IEXTEN OR ECHO) n"
  "bit (c_iflag (raw_mode t)) n \<longleftrightarrow> bit (c_iflag t) n \<and>
     \<not> bit (BRKINT OR ICRNL OR IGNBRK OR IGNCR OR INLCR OR INPCK OR ISTRIP OR IXON OR PARMRK) n"
  "bit (c_oflag (raw_mode t)) n \<longleftrightarrow> bit (c_oflag t) n \<and> \<not> bit OPOST n"
  unfolding raw_mode_fields bit_and_not by (rule refl)+

text \<open>On a terminal, \<open>ttySetRaw\<close> saves the old attributes, discards the input queued, clears exactly the named bits
  of the three flag words, leaves every other bit, the control word and the other control characters
  alone, and sets VMIN to 1 and VTIME to 0.\<close>

theorem ttySetRaw_bits:
  assumes "tty_of s fd = Some t" and "\<not> set_fails s fd"
  shows "\<exists>t'. ttySetRaw fd True s u = (0, Some t, s\<lparr>tty_of := (tty_of s)(fd \<mapsto> t')\<rparr>, flush_input fd (queued s fd) u) \<and>
    (\<forall>n. bit (c_lflag t') n \<longleftrightarrow> bit (c_lflag t) n \<and> \<not> bit (ICANON OR ISIG OR IEXTEN OR ECHO) n) \<and>
    (\<forall>n. bit (c_iflag t') n \<longleftrightarrow> bit (c_iflag t) n \<and>
       \<not> bit (BRKINT OR ICRNL OR IGNBRK OR IGNCR OR INLCR OR INPCK OR ISTRIP OR IXON OR PARMRK) n) \<and>
    (\<forall>n. bit (c_oflag t') n \<longleftrightarrow> bit (c_oflag t) n \<and> \<not> bit OPOST n) \<and>
    c_cflag t' = c_cflag t \<and> c_cc t' VMIN = 1 \<and> c_cc t' VTIME = 0 \<and>
    (\<forall>k. k = VMIN \<or> k = VTIME \<or> c_cc t' k = c_cc t k)"
proof -
  have "ttySetRaw fd True s u = (0, Some t, s\<lparr>tty_of := (tty_of s)(fd \<mapsto> raw_mode t)\<rparr>, flush_input fd (queued s fd) u)"
    using assms by (simp add: ttySetRaw_def tcsetattr_flush_def tcsetattr_def Let_def)
  moreover have "VMIN \<noteq> VTIME" by (simp add: flag_defs)
  moreover note raw_mode_bits [of t]
  ultimately show ?thesis
    by (intro exI [of _ "raw_mode t"]) (auto simp: raw_mode_def)
qed

definition demo_termios :: termios where
  "demo_termios = \<lparr>c_iflag = 0x500, c_oflag = 0x5, c_cflag = 0xBF, c_lflag = 0x8A3B, c_cc = (\<lambda>_. 4)\<rparr>"

definition demo_ttys :: ttys where
  "demo_ttys = \<lparr>tty_of = [0 \<mapsto> demo_termios], set_fails = (\<lambda>_. False), queued = (\<lambda>_. 2)\<rparr>"

theorem ttySetRaw_bits_witness:
  "\<exists>t'. ttySetRaw 0 True demo_ttys u = (0, Some demo_termios, demo_ttys\<lparr>tty_of := (tty_of demo_ttys)(0 \<mapsto> t')\<rparr>, flush_input 0 2 u) \<and>
    c_cc t' VMIN = 1"
proof -
  have "tty_of demo_ttys 0 = Some demo_termios" "\<not> set_fails demo_ttys 0" by (simp_all add: demo_ttys_def)
  from ttySetRaw_bits [OF this] show ?thesis by (force simp: demo_ttys_def)
qed

text \<open>Putting a terminal into raw mode and resetting it with the attributes saved before
  gives back exactly the terminal it was, and raw mode set twice is raw mode.\<close>

theorem raw_then_reset:
  assumes "tty_of s STDIN_FILENO = Some t"
  shows "ttyReset t (fst (snd (snd (ttySetRaw STDIN_FILENO prev s u)))) = s \<and> raw_mode (raw_mode t) = raw_mode t"
proof -
  have "(tty_of s)(STDIN_FILENO \<mapsto> t) = tty_of s" using assms by (simp add: fun_upd_idem)
  then have "ttyReset t (fst (snd (snd (ttySetRaw STDIN_FILENO prev s u)))) = s"
    using assms by (simp add: ttyReset_def ttySetRaw_def tcsetattr_flush_def tcsetattr_def Let_def)
  moreover have "raw_mode (raw_mode t) = raw_mode t"
    by (simp add: raw_mode_def and.assoc fun_upd_twist)
  ultimately show ?thesis ..
qed

theorem raw_then_reset_witness:
  "ttyReset demo_termios (fst (snd (snd (ttySetRaw STDIN_FILENO False demo_ttys u)))) = demo_ttys"
proof -
  have "tty_of demo_ttys STDIN_FILENO = Some demo_termios" by (simp add: demo_ttys_def STDIN_FILENO_def)
  from raw_then_reset [OF this, of False u] show ?thesis by blast
qed

end
