(* ===== verification/PtyPool.thy ===== *)
theory PtyPool
  imports RioIo
begin

text \<open>
  The server side of \<open>src/pty/pty_exec_util.cpp\<close>: the pool of terminal clients of one container
  (\<open>init_pool\<close>, \<open>add_client\<close>, \<open>check_clients_and_master\<close>) and the \<open>select\<close> loop of
  \<open>pty_run_container\<close>. Input of every client goes to the pseudo-terminal's master, output of the master to
  every client.
\<close>

section \<open>The pool\<close>

definition FD_SETSIZE :: nat where
  "FD_SETSIZE = 1024"

definition BUF_SIZE :: nat where
  "BUF_SIZE = 4096"

record pool =
  maxfd :: int
  read_set :: "int set"
  ready_set :: "int set"
  nready :: int
  maxi :: int
  clientfd :: "int list"
  masterfd :: int

text \<open>\<open>FD_SET\<close> writes outside the set for a descriptor it has no bit for.\<close>

definition FD_SET :: "int \<Rightarrow> int set \<Rightarrow> int set res" where
  "FD_SET fd S = (if 0 \<le> fd \<and> fd < int FD_SETSIZE then Inr (insert fd S) else Inl OutOfBounds)"

definition init_pool :: "int \<Rightarrow> int \<Rightarrow> pool \<Rightarrow> pool res" where
  "init_pool listenfd mfd p =
     rbind (FD_SET listenfd {}) (\<lambda>S.
     rbind (FD_SET mfd S) (\<lambda>S'.
     Inr (p\<lparr>maxi := -1, clientfd := replicate FD_SETSIZE (-1), maxfd := listenfd, read_set := S',
            masterfd := mfd\<rparr>)))"

text \<open>The first index from \<open>i\<close> on whose slot is free.\<close>

fun free_slot :: "nat \<Rightarrow> int list \<Rightarrow> nat option" where
  "free_slot i [] = None"
| "free_slot i (c # cs) = (if c < 0 then Some i else free_slot (Suc i) cs)"

definition add_client :: "int \<Rightarrow> pool \<Rightarrow> pool res" where
  "add_client connfd p0 =
     (let p = p0\<lparr>nready := nready p0 - 1\<rparr> in
      case free_slot 0 (clientfd p) of
        None \<Rightarrow> Inr p
      | Some i \<Rightarrow>
          rbind (FD_SET connfd (read_set p)) (\<lambda>S.
          Inr (p\<lparr>clientfd := (clientfd p)[i := connfd], read_set := S,
                 maxfd := (if connfd > maxfd p then connfd else maxfd p),
                 maxi := (if int i > maxi p then int i else maxi p)\<rparr>)))"

text \<open>\<open>FD_CLR\<close> and the freeing of the slot, done whenever a client is given up.\<close>

definition drop_client :: "nat \<Rightarrow> pool \<Rightarrow> pool" where
  "drop_client i p = p\<lparr>read_set := read_set p - {clientfd p ! i}, clientfd := (clientfd p)[i := -1]\<rparr>"

text \<open>The first loop of \<open>check_clients_and_master\<close>: \<open>True\<close> when it returns 1 because the master does
  not take the input any more.\<close>

function check_clients :: "nat \<Rightarrow> pool \<Rightarrow> sys \<Rightarrow> (bool \<times> pool \<times> sys) res" where
  "check_clients i p s =
     (if int i \<le> maxi p \<and> nready p > 0 then
        (if \<not> i < length (clientfd p) then Inl OutOfBounds
         else (let connfd = clientfd p ! i in
           if connfd > 0 \<and> connfd \<in> ready_set p then
             (let p1 = p\<lparr>nready := nready p - 1\<rparr>; (n, bs, s1) = sys_read connfd BUF_SIZE s in
              if n \<le> 0 then
                (if errno s1 \<noteq> EINTR then check_clients (Suc i) (drop_client i p1) (sys_close connfd s1)
                 else check_clients (Suc i) p1 s1)
              else (let (w, s2) = rio_writen (masterfd p1) bs s1 in
                    if w \<le> 0 then Inr (True, p1, s2) else check_clients (Suc i) p1 s2))
           else check_clients (Suc i) p s))
      else Inr (False, p, s))"
  by pat_completeness auto
termination
  by (relation "measure (\<lambda>(i, p, s). nat (maxi p + 1 - int i))") (auto simp: drop_client_def)

declare check_clients.simps [simp del]

text \<open>The second loop: the bytes read from the master go to every client; a client that does not take
  them all is given up.\<close>

function send_clients :: "string \<Rightarrow> nat \<Rightarrow> pool \<Rightarrow> sys \<Rightarrow> (pool \<times> sys) res" where
  "send_clients bs i p s =
     (if int i \<le> maxi p then
        (if \<not> i < length (clientfd p) then Inl OutOfBounds
         else (let connfd = clientfd p ! i in
           if connfd > 0 then
             (let (w, s1) = rio_writen connfd bs s in
              if w \<noteq> int (length bs) then send_clients bs (Suc i) (drop_client i p) (sys_close connfd s1)
              else send_clients bs (Suc i) p s1)
           else send_clients bs (Suc i) p s))
      else Inr (p, s))"
  by pat_completeness auto
termination
  by (relation "measure (\<lambda>(bs, i, p, s). nat (maxi p + 1 - int i))") (auto simp: drop_client_def)

declare send_clients.simps [simp del]

definition check_clients_and_master :: "pool \<Rightarrow> sys \<Rightarrow> (int \<times> pool \<times> sys) res" where
  "check_clients_and_master p s =
     rbind (check_clients 0 p s) (\<lambda>(gone, p1, s1).
     if gone then Inr (1, p1, s1)
     else if masterfd p1 \<noteq> -1 \<and> masterfd p1 \<in> ready_set p1 then
       (let p2 = p1\<lparr>nready := nready p1 - 1\<rparr>; (n, bs, s2) = sys_read (masterfd p2) BUF_SIZE s1 in
        if n \<le> 0 then (if errno s2 \<noteq> EINTR then Inr (1, p2, s2) else Inr (0, p2, s2))
        else rbind (send_clients bs 0 p2 s2) (\<lambda>(p3, s3). Inr (0, p3, s3)))
     else Inr (0, p1, s1))"

section \<open>The server loop\<close>

text \<open>What the kernel answers in one round: \<open>select\<close> fails, or some descriptors are ready; \<open>accept\<close> fails, or it
  returns a descriptor, and that number is then a new connection.\<close>

datatype sel = Sel_fail int | Sel_ready "int set"

type_synonym acc = "int + (int \<times> port)"

definition select_pool :: "sel \<Rightarrow> pool \<Rightarrow> sys \<Rightarrow> bool \<times> pool \<times> sys" where
  "select_pool sl p0 s =
     (let p = p0\<lparr>ready_set := read_set p0\<rparr> in
      case sl of
        Sel_fail e \<Rightarrow> (e = EINTR, p\<lparr>nready := -1\<rparr>, s\<lparr>errno := e\<rparr>)
      | Sel_ready R \<Rightarrow>
          (let S = Set.filter (\<lambda>fd. fd < maxfd p + 1 \<and> fd \<in> R) (ready_set p) in
           (False, p\<lparr>ready_set := S, nready := int (card S)\<rparr>, s)))"

text \<open>One round of the loop: \<open>True\<close> when it leaves the loop. \<open>header\<close> is what the first \<open>read\<close> of
  the master returned; a failed read gives a negative length, with which nothing is written.\<close>

definition server_iter :: "int \<Rightarrow> (int \<times> string) \<Rightarrow> sel \<times> acc \<Rightarrow> pool \<Rightarrow> sys \<Rightarrow> (bool \<times> pool \<times> sys) res" where
  "server_iter listenfd header inp p0 s0 =
     (let (again, p, s) = select_pool (fst inp) p0 s0 in
      if again then Inr (False, p, s)
      else rbind (if listenfd \<in> ready_set p
                  then (case snd inp of
                          Inl e \<Rightarrow> Inr (p, s\<lparr>errno := e\<rparr>)
                        | Inr (connfd, conn) \<Rightarrow>
                            rbind (add_client connfd p) (\<lambda>p1.
                            Inr (p1, snd (rio_writen_len connfd (fst header) (snd header) (set_port connfd conn s)))))
                  else Inr (p, s)) (\<lambda>(p1, s1).
           rbind (check_clients_and_master p1 s1) (\<lambda>(rc, p2, s2). Inr (rc = 1, p2, s2))))"

fun server_loop :: "int \<Rightarrow> (int \<times> string) \<Rightarrow> (sel \<times> acc) list \<Rightarrow> pool \<Rightarrow> sys \<Rightarrow> (bool \<times> pool \<times> sys) res" where
  "server_loop listenfd header [] p s = Inr (False, p, s)"
| "server_loop listenfd header (inp # inps) p s =
     rbind (server_iter listenfd header inp p s) (\<lambda>(done, p', s').
     if done then Inr (True, p', s') else server_loop listenfd header inps p' s')"

section \<open>The invariant of the pool\<close>

definition clients :: "pool \<Rightarrow> int set" where
  "clients p = {c \<in> set (clientfd p). 0 < c}"

text \<open>\<open>L\<close> and \<open>M\<close> are the listening descriptor and the master: a slot is free or holds a client that
  is watched, below the high-water marks and held by no other slot; nothing else is watched but \<open>L\<close>
  and \<open>M\<close>.\<close>

definition slot_ok :: "int \<Rightarrow> int \<Rightarrow> pool \<Rightarrow> nat \<Rightarrow> bool" where
  "slot_ok L M p i \<longleftrightarrow>
     (let c = clientfd p ! i in
      c = -1 \<or> (0 < c \<and> c < int FD_SETSIZE \<and> c \<le> maxfd p \<and> int i \<le> maxi p \<and> c \<noteq> L \<and> c \<noteq> M))"

definition pool_ok :: "int \<Rightarrow> int \<Rightarrow> pool \<Rightarrow> bool" where
  "pool_ok L M p \<longleftrightarrow>
     length (clientfd p) = FD_SETSIZE \<and> -1 \<le> maxi p \<and> maxi p < int FD_SETSIZE \<and> masterfd p = M \<and>
     (\<forall>i < FD_SETSIZE. slot_ok L M p i) \<and>
     (\<forall>i < FD_SETSIZE. \<forall>j < FD_SETSIZE. 0 < clientfd p ! i \<and> clientfd p ! i = clientfd p ! j \<longrightarrow> i = j) \<and>
     read_set p = {L, M} \<union> clients p \<and> L \<le> maxfd p \<and> M \<le> maxfd p \<and> 0 \<le> L \<and> 0 \<le> M"

text \<open>Every watched descriptor is open.\<close>

definition fds_open :: "pool \<Rightarrow> sys \<Rightarrow> bool" where
  "fds_open p s \<longleftrightarrow> (\<forall>fd \<in> read_set p. is_open (ports s fd))"

lemma clients_nth: "c \<in> clients p \<longleftrightarrow> (\<exists>i < length (clientfd p). clientfd p ! i = c \<and> 0 < c)"
  by (auto simp: clients_def in_set_conv_nth)

lemma clients_update:
  assumes "i < length (clientfd p)"
  shows "x \<in> clients (p\<lparr>clientfd := (clientfd p)[i := v]\<rparr>) \<longleftrightarrow>
    0 < x \<and> (x = v \<or> (\<exists>j < length (clientfd p). j \<noteq> i \<and> clientfd p ! j = x))"
proof
  assume "x \<in> clients (p\<lparr>clientfd := (clientfd p)[i := v]\<rparr>)"
  then obtain j where "j < length (clientfd p)" "(clientfd p)[i := v] ! j = x" "0 < x"
    by (auto simp: clients_nth)
  then show "0 < x \<and> (x = v \<or> (\<exists>j < length (clientfd p). j \<noteq> i \<and> clientfd p ! j = x))"
    using assms by (cases "j = i") auto
next
  assume "0 < x \<and> (x = v \<or> (\<exists>j < length (clientfd p). j \<noteq> i \<and> clientfd p ! j = x))"
  then show "x \<in> clients (p\<lparr>clientfd := (clientfd p)[i := v]\<rparr>)"
    using assms nth_list_update_eq [OF assms, of v] nth_list_update_neq [of i _ "clientfd p" v]
    by (auto simp: clients_nth intro: exI [of _ i])
qed

lemma pool_ok_cong:
  assumes "clientfd p' = clientfd p" "maxi p' = maxi p" "masterfd p' = masterfd p" "read_set p' = read_set p"
    "maxfd p' = maxfd p"
  shows "pool_ok L M p' = pool_ok L M p" "fds_open p' s = fds_open p s" "clients p' = clients p"
  using assms by (simp_all add: pool_ok_def slot_ok_def clients_def fds_open_def)

lemma pool_ok_upd [simp]:
  "pool_ok L M (p\<lparr>nready := x\<rparr>) = pool_ok L M p" "pool_ok L M (p\<lparr>ready_set := R\<rparr>) = pool_ok L M p"
  "fds_open (p\<lparr>nready := x\<rparr>) s = fds_open p s" "fds_open (p\<lparr>ready_set := R\<rparr>) s = fds_open p s"
  "clients (p\<lparr>nready := x\<rparr>) = clients p" "clients (p\<lparr>ready_set := R\<rparr>) = clients p"
  by (simp_all add: pool_ok_def slot_ok_def clients_def fds_open_def)

lemma init_pool_ok:
  assumes "0 \<le> L" "L < int FD_SETSIZE" "0 \<le> M" "M \<le> L"
  shows "\<exists>p'. init_pool L M p = Inr p' \<and> pool_ok L M p' \<and> clients p' = {}"
  using assms by (auto simp: init_pool_def FD_SET_def pool_ok_def slot_ok_def clients_def Let_def)

lemma free_slot_Some: "free_slot i cs = Some j \<Longrightarrow> i \<le> j \<and> j < i + length cs \<and> cs ! (j - i) < 0"
proof (induction i cs rule: free_slot.induct)
  case (2 i c cs)
  then show ?case by (auto split: if_splits simp: nth_Cons')
qed simp

lemma free_slot_None: "free_slot i cs = None \<longleftrightarrow> (\<forall>c \<in> set cs. 0 \<le> c)"
  by (induction i cs rule: free_slot.induct) auto

lemma add_client_ok:
  assumes "pool_ok L M p" and "0 < c" "c < int FD_SETSIZE" "c \<noteq> L" "c \<noteq> M" "c \<notin> clients p"
  shows "\<exists>p'. add_client c p = Inr p' \<and> pool_ok L M p' \<and> ready_set p' = ready_set p \<and>
    (if free_slot 0 (clientfd p) = None then clients p' = clients p
     else clients p' = insert c (clients p))"
proof (cases "free_slot 0 (clientfd p)")
  case None
  then show ?thesis using assms(1) by (simp add: add_client_def Let_def)
next
  case (Some i)
  let ?p = "p\<lparr>nready := nready p - 1, clientfd := (clientfd p)[i := c], read_set := insert c (read_set p),
                 maxfd := (if c > maxfd p then c else maxfd p),
                 maxi := (if int i > maxi p then int i else maxi p)\<rparr>"
  from free_slot_Some [OF Some] have i: "i < length (clientfd p)" "clientfd p ! i < 0" by auto
  have eq: "add_client c p = Inr ?p"
    using assms(2,3) Some by (auto simp: add_client_def FD_SET_def Let_def)
  have cl: "clients ?p = insert c (clients p)"
  proof (rule set_eqI)
    fix x
    have "x \<in> clients ?p \<longleftrightarrow> x \<in> clients (p\<lparr>clientfd := (clientfd p)[i := c]\<rparr>)" by (simp add: clients_def)
    also have "\<dots> \<longleftrightarrow> x \<in> insert c (clients p)"
      using clients_update [OF i(1)] i(2) assms(2) by (auto simp: clients_nth)
    finally show "x \<in> clients ?p \<longleftrightarrow> x \<in> insert c (clients p)" .
  qed
  have "slot_ok L M ?p j" if "j < FD_SETSIZE" for j
    using assms(1) that i(1) assms(2-5)
    by (cases "j = i") (auto simp: pool_ok_def slot_ok_def Let_def)
  moreover have "\<forall>j < FD_SETSIZE. \<forall>k < FD_SETSIZE.
      0 < clientfd ?p ! j \<and> clientfd ?p ! j = clientfd ?p ! k \<longrightarrow> j = k"
    using assms(1,6) i by (auto simp: pool_ok_def clients_nth nth_list_update)
  ultimately have "pool_ok L M ?p" using assms(1) i cl by (auto simp: pool_ok_def)
  with eq cl Some show ?thesis by simp
qed

lemma drop_client_ok:
  assumes "pool_ok L M p" and "i < FD_SETSIZE" and "0 < clientfd p ! i"
  shows "pool_ok L M (drop_client i p)" and "clients (drop_client i p) = clients p - {clientfd p ! i}"
proof -
  have inj: "\<forall>j < FD_SETSIZE. clientfd p ! j = clientfd p ! i \<longrightarrow> j = i"
    using assms by (auto simp: pool_ok_def)
  have len: "length (clientfd p) = FD_SETSIZE" using assms(1) by (simp add: pool_ok_def)
  show cl: "clients (drop_client i p) = clients p - {clientfd p ! i}"
  proof (rule set_eqI)
    fix x
    have "x \<in> clients (drop_client i p) \<longleftrightarrow> x \<in> clients (p\<lparr>clientfd := (clientfd p)[i := -1]\<rparr>)"
      by (simp add: clients_def drop_client_def)
    also have "\<dots> \<longleftrightarrow> x \<in> clients p - {clientfd p ! i}"
      using clients_update [of i p x "-1"] inj assms(2) len by (auto simp: clients_nth)
    finally show "x \<in> clients (drop_client i p) \<longleftrightarrow> x \<in> clients p - {clientfd p ! i}" .
  qed
  have s: "slot_ok L M (drop_client i p) j" if "j < FD_SETSIZE" for j
    using assms(1) that assms(2) len
    by (cases "j = i") (auto simp: pool_ok_def slot_ok_def drop_client_def Let_def)
  have "clientfd p ! i \<noteq> L \<and> clientfd p ! i \<noteq> M"
    using assms by (auto simp: pool_ok_def slot_ok_def Let_def)
  then have "read_set (drop_client i p) = {L, M} \<union> clients (drop_client i p)"
    using cl assms(1) by (auto simp: pool_ok_def drop_client_def)
  moreover have "\<forall>j < FD_SETSIZE. \<forall>k < FD_SETSIZE. 0 < clientfd (drop_client i p) ! j \<and>
      clientfd (drop_client i p) ! j = clientfd (drop_client i p) ! k \<longrightarrow> j = k"
    using assms(1,2) len by (auto simp: pool_ok_def drop_client_def nth_list_update)
  ultimately show "pool_ok L M (drop_client i p)" using assms(1) s by (simp add: pool_ok_def drop_client_def)
qed

lemma drop_client_sel [simp]:
  "ready_set (drop_client i p) = ready_set p" "maxi (drop_client i p) = maxi p"
  "masterfd (drop_client i p) = masterfd p" "nready (drop_client i p) = nready p"
  by (simp_all add: drop_client_def)

lemma distinct_filter_pos:
  fixes cs :: "int list"
  assumes "\<And>i j. i < length cs \<Longrightarrow> j < length cs \<Longrightarrow> 0 < cs ! i \<Longrightarrow> cs ! j = cs ! i \<Longrightarrow> j = i"
  shows "distinct (filter (\<lambda>c. 0 < c) cs)"
  using assms
proof (induction cs)
  case (Cons c cs)
  have "distinct (filter (\<lambda>c. 0 < c) cs)"
  proof (rule Cons.IH)
    fix i j
    assume "i < length cs" "j < length cs" "0 < cs ! i" "cs ! j = cs ! i"
    with Cons.prems [of "Suc i" "Suc j"] show "j = i" by simp
  qed
  moreover have "c \<notin> set cs" if "0 < c"
  proof
    assume "c \<in> set cs"
    then obtain k where "k < length cs" "cs ! k = c" by (auto simp: in_set_conv_nth)
    with Cons.prems [of 0 "Suc k"] that show False by simp
  qed
  ultimately show ?case by auto
qed simp

section \<open>The two loops\<close>

lemma rio_writen_frame:
  assumes "rio_writen fd bs s = (w, s')"
  shows "\<And>fd'. fd' \<noteq> fd \<Longrightarrow> ports s' fd' = ports s fd'"
    and "inq (ports s' fd') = inq (ports s fd')" and "is_open (ports s' fd') = is_open (ports s fd')"
    and "w = int (length bs) \<Longrightarrow> outq (ports s' fd) = outq (ports s fd) @ bs"
    and "w = int (length bs) \<or> w = -1"
  using rio_writen_loop_prefix [where fd = fd and n = "length bs" and bs = bs and s = s] assms
  by (auto simp: rio_writen_def)

text \<open>The clients in the slots below \<open>i\<close>.\<close>

definition before :: "nat \<Rightarrow> pool \<Rightarrow> int set" where
  "before i p = {c. \<exists>j < i. j < length (clientfd p) \<and> clientfd p ! j = c \<and> 0 < c}"

lemma before_0 [simp]: "before 0 p = {}"
  by (simp add: before_def)

lemma before_Suc:
  "i < length (clientfd p) \<Longrightarrow> before (Suc i) p = (if 0 < clientfd p ! i then insert (clientfd p ! i) (before i p) else before i p)"
  by (auto simp: before_def less_Suc_eq)

lemma pool_ok_slot:
  assumes "pool_ok L M p" and "i < length (clientfd p)" and "0 < clientfd p ! i"
  shows "int i \<le> maxi p" "clientfd p ! i \<noteq> L" "clientfd p ! i \<noteq> M"
proof -
  from assms(1,2) have "slot_ok L M p i" by (simp add: pool_ok_def)
  with assms(3) show "int i \<le> maxi p" "clientfd p ! i \<noteq> L" "clientfd p ! i \<noteq> M"
    by (auto simp: slot_ok_def Let_def)
qed

lemma pool_ok_inj:
  "pool_ok L M p \<Longrightarrow> i < length (clientfd p) \<Longrightarrow> j < length (clientfd p) \<Longrightarrow> 0 < clientfd p ! i \<Longrightarrow>
   clientfd p ! j = clientfd p ! i \<Longrightarrow> j = i"
  unfolding pool_ok_def by metis

lemma pool_ok_length: "pool_ok L M p \<Longrightarrow> length (clientfd p) = FD_SETSIZE"
  by (simp add: pool_ok_def)

lemma before_all:
  assumes "pool_ok L M p" and "maxi p < int i"
  shows "before i p = clients p"
proof -
  have "j < i" if "j < length (clientfd p)" "0 < clientfd p ! j" for j
    using pool_ok_slot(1) [OF assms(1) that] assms(2) by linarith
  then show ?thesis by (fastforce simp: before_def clients_nth)
qed

lemma before_not:
  assumes "pool_ok L M p" and "i < FD_SETSIZE" and "0 < clientfd p ! i"
  shows "clientfd p ! i \<notin> before i p"
proof
  assume "clientfd p ! i \<in> before i p"
  then obtain j where "j < i" "j < length (clientfd p)" "clientfd p ! j = clientfd p ! i"
    by (auto simp: before_def)
  with pool_ok_inj [OF assms(1), of i j] assms(2,3) pool_ok_length [OF assms(1)] show False by simp
qed

lemma before_drop:
  "pool_ok L M p \<Longrightarrow> i < FD_SETSIZE \<Longrightarrow> before (Suc i) (drop_client i p) = before i p"
  by (auto simp: before_def drop_client_def pool_ok_def less_Suc_eq nth_list_update)

lemma before_clients: "before i p \<subseteq> clients p"
  by (auto simp: before_def clients_nth)

lemma slot_facts:
  assumes "pool_ok L M p" and "int i \<le> maxi p"
  shows "i < length (clientfd p)" "i < FD_SETSIZE"
    "0 < clientfd p ! i \<Longrightarrow> clientfd p ! i \<in> clients p \<and> clientfd p ! i \<noteq> L \<and> clientfd p ! i \<noteq> M"
proof -
  from assms show l: "i < length (clientfd p)" and "i < FD_SETSIZE" by (auto simp: pool_ok_def)
  then show "clientfd p ! i \<in> clients p \<and> clientfd p ! i \<noteq> L \<and> clientfd p ! i \<noteq> M" if "0 < clientfd p ! i"
    using that pool_ok_slot [OF assms(1) l that] by (auto simp: clients_nth)
qed

lemma fds_open_drop:
  assumes "pool_ok L M p" and "fds_open p s" and "i < FD_SETSIZE" and "0 < clientfd p ! i"
    and "\<And>fd. is_open (ports s' fd) = is_open (ports s fd)"
  shows "fds_open (drop_client i p) (sys_close (clientfd p ! i) s')"
  using assms by (auto simp: fds_open_def drop_client_def)

text \<open>What the loop that sends \<open>bs\<close> does from slot \<open>i\<close> on: a client before \<open>i\<close> is left alone, any other
  has got \<open>bs\<close> or is closed and gone.\<close>

definition sent :: "int \<Rightarrow> int \<Rightarrow> string \<Rightarrow> nat \<Rightarrow> pool \<Rightarrow> sys \<Rightarrow> pool \<Rightarrow> sys \<Rightarrow> bool" where
  "sent L M bs i p s p' s' \<longleftrightarrow>
     pool_ok L M p' \<and> fds_open p' s' \<and> clients p' \<subseteq> clients p \<and>
     (\<forall>fd. fd \<notin> clients p \<longrightarrow> ports s' fd = ports s fd) \<and> (\<forall>fd. inq (ports s' fd) = inq (ports s fd)) \<and>
     (\<forall>c \<in> before i p. c \<in> clients p' \<and> ports s' c = ports s c) \<and>
     (\<forall>c \<in> clients p - before i p.
        c \<in> clients p' \<and> outq (ports s' c) = outq (ports s c) @ bs \<or> c \<notin> clients p' \<and> \<not> is_open (ports s' c))"

lemma sent_others:
  "sent L M bs i p s p' s' \<Longrightarrow> x \<in> clients p \<Longrightarrow> x \<notin> before i p \<Longrightarrow>
    x \<in> clients p' \<and> outq (ports s' x) = outq (ports s x) @ bs \<or> x \<notin> clients p' \<and> \<not> is_open (ports s' x)"
  unfolding sent_def by blast

lemma sent_written:
  assumes "pool_ok L M p" "int i \<le> maxi p" "0 < clientfd p ! i" and r: "sent L M bs (Suc i) p s1 p' s'"
    and fr: "\<And>fd. fd \<noteq> clientfd p ! i \<Longrightarrow> ports s1 fd = ports s fd" "\<And>fd. inq (ports s1 fd) = inq (ports s fd)"
      "outq (ports s1 (clientfd p ! i)) = outq (ports s (clientfd p ! i)) @ bs"
  shows "sent L M bs i p s p' s'"
proof -
  let ?c = "clientfd p ! i"
  note i = slot_facts [OF assms(1,2)]
  have c: "?c \<in> clients p" "?c \<notin> before i p" "before (Suc i) p = insert ?c (before i p)"
    using i(3) before_not [OF assms(1) i(2)] before_Suc [OF i(1)] assms(3) by auto
  have b: "ports s1 x = ports s x" if "x \<in> before i p" for x using fr(1) [of x] c(2) that by auto
  have "x \<in> clients p' \<and> outq (ports s' x) = outq (ports s x) @ bs \<or> x \<notin> clients p' \<and> \<not> is_open (ports s' x)"
    if "x \<in> clients p - before i p" for x
  proof (cases "x = ?c")
    case True
    then show ?thesis using r c(3) fr(3) by (simp add: sent_def)
  next
    case False
    then show ?thesis using sent_others [OF r, of x] that c(3) fr(1) [OF False] by simp
  qed
  moreover have "ports s1 fd = ports s fd" if "fd \<notin> clients p" for fd using fr(1) [of fd] that c(1) by auto
  ultimately show ?thesis using r b c(3) fr(2) unfolding sent_def by simp
qed

lemma sent_dropped:
  assumes "pool_ok L M p" "int i \<le> maxi p" "0 < clientfd p ! i"
    and r: "sent L M bs (Suc i) (drop_client i p) (sys_close (clientfd p ! i) s1) p' s'"
    and fr: "\<And>fd. fd \<noteq> clientfd p ! i \<Longrightarrow> ports s1 fd = ports s fd" "\<And>fd. inq (ports s1 fd) = inq (ports s fd)"
  shows "sent L M bs i p s p' s'"
proof -
  let ?c = "clientfd p ! i" and ?p = "drop_client i p" and ?s = "sys_close (clientfd p ! i) s1"
  note i = slot_facts [OF assms(1,2)]
  have d: "clients ?p = clients p - {?c}" by (rule drop_client_ok(2) [OF assms(1) i(2) assms(3)])
  have c: "?c \<notin> before i p" "before (Suc i) ?p = before i p"
    using before_not [OF assms(1) i(2)] assms(3) before_drop [OF assms(1) i(2)] by auto
  have p: "ports ?s x = ports s x" if "x \<noteq> ?c" for x using fr(1) [OF that] that by simp
  have "?c \<notin> clients p'" "\<not> is_open (ports s' ?c)" using r d by (auto simp: sent_def)
  moreover have "x \<in> clients p' \<and> outq (ports s' x) = outq (ports s x) @ bs \<or> x \<notin> clients p' \<and> \<not> is_open (ports s' x)"
    if "x \<in> clients p - before i p" "x \<noteq> ?c" for x
    using sent_others [OF r, of x] that c(2) d p [OF that(2)] by simp
  ultimately have o: "x \<in> clients p' \<and> outq (ports s' x) = outq (ports s x) @ bs \<or> x \<notin> clients p' \<and> \<not> is_open (ports s' x)"
    if "x \<in> clients p - before i p" for x using that by (cases "x = ?c") blast+
  have "ports s' fd = ports s fd" if "fd \<notin> clients p" for fd
  proof -
    have "fd \<noteq> ?c" "fd \<notin> clients ?p" using that i(3) [OF assms(3)] d by auto
    then show ?thesis using r p [of fd] unfolding sent_def by metis
  qed
  moreover have "ports s' x = ports s x \<and> x \<in> clients p'" if "x \<in> before i p" for x
  proof -
    have "x \<noteq> ?c" using that c(1) by auto
    then show ?thesis using r that c(2) p [of x] unfolding sent_def by metis
  qed
  moreover have "inq (ports s' fd) = inq (ports s fd)" for fd using r fr(2) by (cases "fd = ?c") (simp_all add: sent_def)
  ultimately show ?thesis using r d o unfolding sent_def by auto
qed

lemma send_clients_ok:
  assumes "pool_ok L M p" and "fds_open p s"
  shows "\<exists>p' s'. send_clients bs i p s = Inr (p', s') \<and> sent L M bs i p s p' s'"
  using assms
proof (induction bs i p s rule: send_clients.induct)
  case (1 bs i p s)
  show ?case
  proof (cases "int i \<le> maxi p")
    case False
    then have "before i p = clients p" using before_all "1.prems"(1) by simp
    with False "1.prems" show ?thesis by (simp add: send_clients.simps sent_def)
  next
    case True
    note i = slot_facts [OF "1.prems"(1) True]
    let ?c = "clientfd p ! i"
    show ?thesis
    proof (cases "0 < ?c")
      case False
      with "1.IH"(3) [OF True _ refl False "1.prems"] True i before_Suc [OF i(1)] show ?thesis
        by (simp add: send_clients.simps [of bs i p s] Let_def sent_def)
    next
      case pos: True
      obtain w s1 where w: "rio_writen ?c bs s = (w, s1)" by fastforce
      note fr = rio_writen_frame [OF w]
      show ?thesis
      proof (cases "w = int (length bs)")
        case ok: True
        have "fds_open p s1" using "1.prems"(2) fr(3) by (simp add: fds_open_def)
        with "1.IH"(2) [OF True _ refl pos w [symmetric] refl _ "1.prems"(1)] i(1) ok
        obtain p' s' where r: "send_clients bs (Suc i) p s1 = Inr (p', s')" "sent L M bs (Suc i) p s1 p' s'" by auto
        have "send_clients bs i p s = Inr (p', s')"
          using True pos ok w i(1) r(1) by (simp add: send_clients.simps [of bs i p s] Let_def)
        with sent_written [OF "1.prems"(1) True pos r(2) fr(1,2) fr(4) [OF ok]] show ?thesis by blast
      next
        case bad: False
        note d = drop_client_ok [OF "1.prems"(1) i(2) pos]
        have "fds_open (drop_client i p) (sys_close ?c s1)" using fds_open_drop [OF "1.prems" i(2) pos] fr(3) by simp
        with "1.IH"(1) [OF True _ refl pos w [symmetric] refl bad d(1)] i(1)
        obtain p' s' where r: "send_clients bs (Suc i) (drop_client i p) (sys_close ?c s1) = Inr (p', s')"
          "sent L M bs (Suc i) (drop_client i p) (sys_close ?c s1) p' s'" by auto
        have "send_clients bs i p s = Inr (p', s')"
          using True pos bad w i(1) r(1) by (simp add: send_clients.simps [of bs i p s] Let_def)
        with sent_dropped [OF "1.prems"(1) True pos r(2) fr(1,2)] show ?thesis by blast
      qed
    qed
  qed
qed

text \<open>What the first loop does from slot \<open>i\<close> on: only clients and the master are touched, clients
  given up are closed, nothing is written to a client, and the bytes \<open>d c\<close> taken from each client
  have been written to the master in the order of the slots.\<close>

definition input_relayed :: "int \<Rightarrow> int list \<Rightarrow> sys \<Rightarrow> sys \<Rightarrow> bool" where
  "input_relayed M cs s s' \<longleftrightarrow>
     (\<exists>d. (\<forall>c. inq (ports s c) = d c @ inq (ports s' c)) \<and> (\<forall>c. c \<notin> set (filter ((<) 0) cs) \<longrightarrow> d c = []) \<and>
          outq (ports s' M) = outq (ports s M) @ concat (map d (filter ((<) 0) cs)))"

definition checked :: "int \<Rightarrow> int \<Rightarrow> nat \<Rightarrow> pool \<Rightarrow> sys \<Rightarrow> bool \<times> pool \<times> sys \<Rightarrow> bool" where
  "checked L M i p s = (\<lambda>(gone, p', s').
     pool_ok L M p' \<and> fds_open p' s' \<and> clients p' \<subseteq> clients p \<and> ready_set p' = ready_set p \<and>
     (\<forall>fd. fd \<noteq> M \<longrightarrow> outq (ports s' fd) = outq (ports s fd)) \<and>
     (\<forall>fd. fd \<notin> clients p \<and> fd \<noteq> M \<longrightarrow> ports s' fd = ports s fd) \<and>
     inq (ports s' M) = inq (ports s M) \<and> is_open (ports s' M) = is_open (ports s M) \<and>
     (\<forall>c \<in> clients p - clients p'. \<not> is_open (ports s' c)) \<and>
     (\<not> gone \<longrightarrow> input_relayed M (drop i (clientfd p)) s s'))"

lemma input_relayed_refl: "input_relayed M cs s s"
  by (auto simp: input_relayed_def intro: exI [of _ "\<lambda>_. []"])

text \<open>A client that gave nothing, and one whose bytes went to the master.\<close>

lemma input_relayed_skip:
  assumes "input_relayed M cs s1 s'" and "\<And>c. inq (ports s1 c) = inq (ports s c)"
    and "outq (ports s1 M) = outq (ports s M)" and "0 < c \<Longrightarrow> c \<notin> set cs"
  shows "input_relayed M (c # cs) s s'"
proof -
  from assms(1) obtain d where d: "\<forall>c. inq (ports s1 c) = d c @ inq (ports s' c)"
    "\<forall>c. c \<notin> set (filter ((<) 0) cs) \<longrightarrow> d c = []" "outq (ports s' M) = outq (ports s1 M) @ concat (map d (filter ((<) 0) cs))"
    by (auto simp: input_relayed_def)
  then show ?thesis
    unfolding input_relayed_def using assms(2-4) by (intro exI [of _ d]) auto
qed

lemma input_relayed_data:
  assumes "input_relayed M cs s2 s'" and "0 < c" and "c \<notin> set cs"
    and "inq (ports s c) = bs @ inq (ports s2 c)" and "\<And>fd. fd \<noteq> c \<Longrightarrow> inq (ports s2 fd) = inq (ports s fd)"
    and "outq (ports s2 M) = outq (ports s M) @ bs"
  shows "input_relayed M (c # cs) s s'"
proof -
  from assms(1) obtain d where d: "\<forall>c. inq (ports s2 c) = d c @ inq (ports s' c)"
    "\<forall>c. c \<notin> set (filter ((<) 0) cs) \<longrightarrow> d c = []" "outq (ports s' M) = outq (ports s2 M) @ concat (map d (filter ((<) 0) cs))"
    by (auto simp: input_relayed_def)
  have "map (d(c := bs)) (filter ((<) 0) cs) = map d (filter ((<) 0) cs)" using assms(3) by auto
  with d show ?thesis
    unfolding input_relayed_def using assms(2-6) by (intro exI [of _ "d(c := bs)"]) auto
qed

lemma sys_read_none:
  assumes "sys_read fd n s = (r, bs, s')" and "0 < n" and "r \<le> 0"
  shows "inq (ports s' fd') = inq (ports s fd')"
proof (cases "fd' = fd")
  case False
  then show ?thesis using sys_read_frame(1) [OF assms(1)] by simp
next
  case True
  from assms(1,2) show ?thesis by (cases rule: sys_read_cases) (use assms(3) True in auto)
qed

lemma slot_not_later:
  assumes "pool_ok L M p" and "i < FD_SETSIZE" and "0 < clientfd p ! i"
  shows "clientfd p ! i \<notin> set (drop (Suc i) (clientfd p))"
proof
  assume "clientfd p ! i \<in> set (drop (Suc i) (clientfd p))"
  then obtain k where k: "k < length (clientfd p) - Suc i" "clientfd p ! (Suc i + k) = clientfd p ! i"
    by (auto simp: in_set_conv_nth)
  from k(1) have "Suc i + k < length (clientfd p)" by linarith
  with pool_ok_inj [OF assms(1), of i "Suc i + k"] k(2) assms(2,3) pool_ok_length [OF assms(1)] show False by simp
qed

lemma client_read:
  assumes "sys_read c BUF_SIZE s = (n, bs, s1)"
  shows "is_open (ports s1 fd) = is_open (ports s fd)" and "outq (ports s1 fd) = outq (ports s fd)"
    and "fd \<noteq> c \<Longrightarrow> ports s1 fd = ports s fd" and "n \<le> 0 \<Longrightarrow> inq (ports s1 fd) = inq (ports s fd)"
    and "\<not> n \<le> 0 \<Longrightarrow> inq (ports s c) = bs @ inq (ports s1 c) \<and> n = int (length bs) \<and> bs \<noteq> []"
proof -
  note fr = sys_read_frame [OF assms]
  have B: "0 < BUF_SIZE" by (simp add: BUF_SIZE_def)
  show "is_open (ports s1 fd) = is_open (ports s fd)" using fr(1,4) by (cases "fd = c") auto
  show "outq (ports s1 fd) = outq (ports s fd)" using fr(1,2) by (cases "fd = c") auto
  show "fd \<noteq> c \<Longrightarrow> ports s1 fd = ports s fd" by (rule fr(1))
  show "n \<le> 0 \<Longrightarrow> inq (ports s1 fd) = inq (ports s fd)" by (rule sys_read_none [OF assms B])
  from assms B show "\<not> n \<le> 0 \<Longrightarrow> inq (ports s c) = bs @ inq (ports s1 c) \<and> n = int (length bs) \<and> bs \<noteq> []"
    by (cases rule: sys_read_cases) auto
qed

lemma checked_step:
  assumes "checked L M (Suc i) p1 s1 x" and "clients p1 \<subseteq> clients p" and "ready_set p1 = ready_set p"
    and "\<And>fd. fd \<noteq> M \<Longrightarrow> outq (ports s1 fd) = outq (ports s fd)"
    and "\<And>fd. fd \<notin> clients p \<Longrightarrow> fd \<noteq> M \<Longrightarrow> ports s1 fd = ports s fd"
    and "inq (ports s1 M) = inq (ports s M)" and "is_open (ports s1 M) = is_open (ports s M)"
    and "\<And>c. c \<in> clients p \<Longrightarrow> c \<notin> clients p1 \<Longrightarrow> \<not> is_open (ports s1 c) \<and> c \<noteq> M"
    and "\<And>s'. input_relayed M (drop (Suc i) (clientfd p1)) s1 s' \<Longrightarrow> input_relayed M (drop i (clientfd p)) s s'"
  shows "checked L M i p s x"
proof -
  obtain g p' s' where x: "x = (g, p', s')" using prod_cases3 by blast
  have "\<not> is_open (ports s' c)" if "c \<in> clients p" "c \<notin> clients p'" for c
    using assms(1,8) that x by (cases "c \<in> clients p1") (auto simp: checked_def)
  moreover have "ports s' fd = ports s fd" if "fd \<notin> clients p" "fd \<noteq> M" for fd
    using assms(1,2,5) that x by (auto simp: checked_def)
  ultimately show ?thesis using assms x by (auto simp: checked_def)
qed

text \<open>One slot: the loop either goes on with the next one, having done its part, or ends there.\<close>

definition slot_done :: "int \<Rightarrow> int \<Rightarrow> nat \<Rightarrow> pool \<Rightarrow> sys \<Rightarrow> bool" where
  "slot_done L M i p s \<longleftrightarrow>
     (\<exists>p1 s1. check_clients i p s = check_clients (Suc i) p1 s1 \<and> pool_ok L M p1 \<and> fds_open p1 s1 \<and> maxi p1 = maxi p \<and>
        (\<forall>x. checked L M (Suc i) p1 s1 x \<longrightarrow> checked L M i p s x)) \<or>
     (\<exists>x. check_clients i p s = Inr x \<and> checked L M i p s x)"

lemma slot_doneI:
  assumes "check_clients i p s = check_clients (Suc i) p1 s1" "pool_ok L M p1" "fds_open p1 s1" "maxi p1 = maxi p"
    and "\<And>x. checked L M (Suc i) p1 s1 x \<Longrightarrow> checked L M i p s x"
  shows "slot_done L M i p s"
  using assms unfolding slot_done_def by blast

lemma slot_drop:
  assumes "pool_ok L M p" "int i \<le> maxi p"
  shows "drop i (clientfd p) = clientfd p ! i # drop (Suc i) (clientfd p)"
  using slot_facts(1) [OF assms] by (simp add: Cons_nth_drop_Suc)

lemma slot_idle:
  assumes ok: "pool_ok L M p" "fds_open p s" and run: "int i \<le> maxi p" "nready p > 0"
    and idle: "\<not> (clientfd p ! i > 0 \<and> clientfd p ! i \<in> ready_set p)"
  shows "slot_done L M i p s"
proof (rule slot_doneI [OF _ ok refl])
  note i = slot_facts [OF ok(1) run(1)]
  show "check_clients i p s = check_clients (Suc i) p s"
    using run idle i(1) by (auto simp: check_clients.simps [of i p s] Let_def)
  have "input_relayed M (drop i (clientfd p)) s s'" if "input_relayed M (drop (Suc i) (clientfd p)) s s'" for s'
    unfolding slot_drop [OF ok(1) run(1)] using slot_not_later [OF ok(1) i(2)]
    by (intro input_relayed_skip [OF that]) simp_all
  then show "checked L M i p s x" if "checked L M (Suc i) p s x" for x
    using that by (auto intro!: checked_step [of L M i p s])
qed

text \<open>A client that is ready but gives nothing: interrupted, it stays; otherwise it is dropped.\<close>

lemma slot_empty:
  assumes ok: "pool_ok L M p" "fds_open p s" and run: "int i \<le> maxi p" "nready p > 0"
    and pos: "clientfd p ! i > 0 \<and> clientfd p ! i \<in> ready_set p"
    and r: "sys_read (clientfd p ! i) BUF_SIZE s = (n, bs, s1)" and none: "n \<le> 0"
  shows "slot_done L M i p s"
proof -
  let ?c = "clientfd p ! i" and ?p = "p\<lparr>nready := nready p - 1\<rparr>"
  note i = slot_facts [OF ok(1) run(1)]
  note c = i(3) [OF conjunct1 [OF pos]] and rd = client_read [OF r]
    and later = slot_not_later [OF ok(1) i(2)] and dr = slot_drop [OF ok(1) run(1)]
  have oth: "ports s1 fd = ports s fd" if "fd \<notin> clients p" for fd using rd(3) [of fd] that c by auto
  have inM: "inq (ports s1 M) = inq (ports s M)" by (rule rd(4) [OF none])
  show ?thesis
  proof (cases "errno s1 = EINTR")
    case True
    have "check_clients i p s = check_clients (Suc i) ?p s1"
      using run pos r none True i(1) by (simp add: check_clients.simps [of i p s] Let_def)
    moreover have "fds_open ?p s1" using ok(2) rd(1) by (simp add: fds_open_def)
    ultimately show ?thesis
      using ok(1) rd(2,4) none c later pos dr oth inM
      by (auto intro!: slot_doneI [of i p s ?p s1] checked_step [of L M i ?p s1] input_relayed_skip [of _ _ s1] simp: rd(1))
  next
    case False
    let ?q = "drop_client i ?p" and ?s = "sys_close ?c s1"
    have "check_clients i p s = check_clients (Suc i) ?q ?s"
      using run pos r none False i(1) by (simp add: check_clients.simps [of i p s] Let_def)
    moreover have "pool_ok L M ?q" "clients ?q = clients p - {?c}" "maxi ?q = maxi p"
      using drop_client_ok [of L M ?p i] ok(1) i(2) pos by (simp_all add: drop_client_def)
    moreover have "fds_open ?q ?s"
      using fds_open_drop [of L M ?p s i s1] ok i(2) pos rd(1) by simp
    moreover have "drop (Suc i) (clientfd ?q) = drop (Suc i) (clientfd p)" by (simp add: drop_client_def)
    moreover have "ports ?s fd = ports s fd" if "fd \<notin> clients p" for fd
      using oth [OF that] that c by (cases "fd = ?c") auto
    ultimately show ?thesis
      using rd(2,4) none c later pos dr oth inM
      by (auto intro!: slot_doneI [of i p s ?q ?s] checked_step [of L M i ?q ?s] input_relayed_skip [of _ _ ?s] simp: rd(1))
  qed
qed

text \<open>A client that gives something, which the master takes or does not take.\<close>

lemma slot_data:
  assumes ok: "pool_ok L M p" "fds_open p s" and run: "int i \<le> maxi p" "nready p > 0"
    and pos: "clientfd p ! i > 0 \<and> clientfd p ! i \<in> ready_set p"
    and r: "sys_read (clientfd p ! i) BUF_SIZE s = (n, bs, s1)" and some: "\<not> n \<le> 0"
  shows "slot_done L M i p s"
proof -
  let ?c = "clientfd p ! i" and ?p = "p\<lparr>nready := nready p - 1\<rparr>"
  note i = slot_facts [OF ok(1) run(1)]
  note c = i(3) [OF conjunct1 [OF pos]] and rd = client_read [OF r]
  have M: "masterfd p = M" using ok(1) by (simp add: pool_ok_def)
  obtain w s2 where w: "rio_writen M bs s1 = (w, s2)" by fastforce
  note wf = rio_writen_frame [OF w]
  have op: "is_open (ports s2 fd) = is_open (ports s fd)" for fd using wf(3) rd(1) by simp
  have out: "outq (ports s2 fd) = outq (ports s fd)" if "fd \<noteq> M" for fd using wf(1) [OF that] rd(2) by simp
  have oth: "ports s2 fd = ports s fd" if "fd \<notin> clients p" "fd \<noteq> M" for fd
    using wf(1) [OF that(2)] rd(3) [of fd] that c by auto
  have o: "fds_open ?p s2" using ok(2) op by (simp add: fds_open_def)
  have inM: "inq (ports s2 M) = inq (ports s M)" using wf(2) rd(3) [of M] c by auto
  show ?thesis
  proof (cases "w \<le> 0")
    case True
    then have "check_clients i p s = Inr (True, ?p, s2)"
      using run pos r some w M i(1) by (simp add: check_clients.simps [of i p s] Let_def)
    then show ?thesis using ok(1) o out oth inM op by (simp add: slot_done_def checked_def)
  next
    case False
    then have full: "w = int (length bs)" using wf(5) by auto
    have "check_clients i p s = check_clients (Suc i) ?p s2"
      using run pos r some w M i(1) False by (simp add: check_clients.simps [of i p s] Let_def)
    moreover have "input_relayed M (drop i (clientfd p)) s s'" if "input_relayed M (drop (Suc i) (clientfd p)) s2 s'" for s'
      unfolding slot_drop [OF ok(1) run(1)]
      using that pos slot_not_later [OF ok(1) i(2)] rd(5) [OF some] wf(1,2) wf(4) [OF full] rd(2,3) c
      by (intro input_relayed_data [OF that]) auto
    ultimately show ?thesis
      using ok(1) o out oth inM op by (auto intro!: slot_doneI [of i p s ?p s2] checked_step [of L M i ?p s2])
  qed
qed

lemma check_clients_ok:
  assumes "pool_ok L M p" and "fds_open p s"
  shows "\<exists>r. check_clients i p s = Inr r \<and> checked L M i p s r"
  using assms
proof (induction "nat (maxi p + 1 - int i)" arbitrary: i p s rule: less_induct)
  case less
  show ?case
  proof (cases "int i \<le> maxi p \<and> nready p > 0")
    case False
    with less.prems show ?thesis
      by (auto simp: check_clients.simps checked_def input_relayed_refl)
  next
    case True
    obtain n bs s1 where "sys_read (clientfd p ! i) BUF_SIZE s = (n, bs, s1)" using prod_cases3 by blast
    then have "slot_done L M i p s"
      using slot_idle [of L M p s i] slot_empty [of L M p s i n bs s1] slot_data [of L M p s i n bs s1] less.prems True by blast
    then show ?thesis
    proof (unfold slot_done_def, elim disjE exE conjE)
      fix p1 s1
      assume "check_clients i p s = check_clients (Suc i) p1 s1" "pool_ok L M p1" "fds_open p1 s1" "maxi p1 = maxi p"
        "\<forall>x. checked L M (Suc i) p1 s1 x \<longrightarrow> checked L M i p s x"
      with less.hyps [of p1 "Suc i" s1] True show ?thesis by auto
    qed blast
  qed
qed

end
