(* ===== verification/PtyOpen.thy ===== *)
theory PtyOpen
  imports Tty
begin

text \<open>
  Opening a pseudo-terminal and starting a child on its slave: \<open>src/pty/pty_master_open.cpp\<close> and
  \<open>src/pty/pty_fork.cpp\<close>. A process has a table of descriptors (what each refers to), \<open>errno\<close>, a controlling
  terminal and the stacks it has mapped for \<open>clone\<close>. How the kernel answers each call is an argument.
\<close>

section \<open>Processes and the answers of the kernel\<close>

type_synonym winsize = "16 word \<times> 16 word"

record proc =
  p_fds :: "int \<Rightarrow> string option"
  p_errno :: int
  p_ctty :: "string option"
  p_attr :: "string \<Rightarrow> termios option"
  p_wins :: "string \<Rightarrow> winsize option"
  p_stacks :: nat

text \<open>A call that may fail with an \<open>errno\<close> is an \<open>int option\<close> (\<open>None\<close>: it succeeds) or an \<open>Inl\<close>.
  \<open>close_errno\<close> is the \<open>errno\<close> that \<open>close\<close> leaves, when it changes it.\<close>

datatype fork_ans = Fork_fail int | In_parent int | In_child

record pty_env =
  openpt :: "int + int"
  grantpt_fails :: "int option"
  unlockpt_fails :: "int option"
  pts_name :: "int + string"
  close_errno :: "int option"
  forks :: fork_ans
  setsid_fails :: "int option"
  open_slave :: "int + int"
  ctty_fails :: "int option"
  attr_fails :: "int option"
  wins_fails :: "int option"
  dup2_fails :: "int \<Rightarrow> int option"
  mmap_fails :: bool

definition EOVERFLOW :: int where "EOVERFLOW = 75"
definition MAX_SNAME :: nat where "MAX_SNAME = 1000"

definition fd_close :: "pty_env \<Rightarrow> int \<Rightarrow> proc \<Rightarrow> proc" where
  "fd_close K fd p =
     p\<lparr>p_fds := (p_fds p)(fd := None),
       p_errno := (case close_errno K of None \<Rightarrow> p_errno p | Some e \<Rightarrow> e)\<rparr>"

definition fd_dup2 :: "int \<Rightarrow> int \<Rightarrow> proc \<Rightarrow> proc" where
  "fd_dup2 old new p = p\<lparr>p_fds := (p_fds p)(new := p_fds p old)\<rparr>"

section \<open>\<open>ptyMasterOpen\<close>\<close>

text \<open>The idiom \<open>savedErrno = errno; close(fd); errno = savedErrno\<close> after a call failed with \<open>e\<close>.\<close>

definition close_saving :: "pty_env \<Rightarrow> int \<Rightarrow> int \<Rightarrow> proc \<Rightarrow> proc" where
  "close_saving K e fd p =
     (let p1 = p\<lparr>p_errno := e\<rparr>; savedErrno = p_errno p1 in (fd_close K fd p1)\<lparr>p_errno := savedErrno\<rparr>)"

text \<open>The descriptor or -1, and what is stored at \<open>slaveName\<close>.\<close>

definition ptyMasterOpen :: "pty_env \<Rightarrow> nat \<Rightarrow> proc \<Rightarrow> int \<times> string option \<times> proc" where
  "ptyMasterOpen K snLen p =
     (case openpt K of
        Inl e \<Rightarrow> (-1, None, p\<lparr>p_errno := e\<rparr>)
      | Inr masterFd \<Rightarrow>
          (let p1 = p\<lparr>p_fds := (p_fds p)(masterFd \<mapsto> ''/dev/ptmx'')\<rparr> in
           case grantpt_fails K of
             Some e \<Rightarrow> (-1, None, close_saving K e masterFd p1)
           | None \<Rightarrow>
               (case unlockpt_fails K of
                  Some e \<Rightarrow> (-1, None, close_saving K e masterFd p1)
                | None \<Rightarrow>
                    (case pts_name K of
                       Inl e \<Rightarrow> (-1, None, close_saving K e masterFd p1)
                     | Inr nm \<Rightarrow>
                         if length nm < snLen then (masterFd, Some nm, p1)
                         else (-1, None, (fd_close K masterFd p1)\<lparr>p_errno := EOVERFLOW\<rparr>)))))"

section \<open>The child: \<open>ptyFork\<close> and \<open>_ptyCloneRun\<close>\<close>

definition err_exit_if :: "int option \<Rightarrow> 'a res \<Rightarrow> 'a res" where
  "err_exit_if f k = (case f of Some e \<Rightarrow> Inl (Exit e) | None \<Rightarrow> k)"

text \<open>What follows \<open>fork\<close> in the child, up to \<open>return 0\<close>.\<close>

definition ptyFork_child ::
  "pty_env \<Rightarrow> int \<Rightarrow> string \<Rightarrow> termios option \<Rightarrow> winsize option \<Rightarrow> proc \<Rightarrow> proc res" where
  "ptyFork_child K mfd slname slaveTermios slaveWS p =
     err_exit_if (setsid_fails K)
      (let p1 = fd_close K mfd (p\<lparr>p_ctty := None\<rparr>) in
       case open_slave K of
         Inl e \<Rightarrow> Inl (Exit e)
       | Inr slaveFd \<Rightarrow>
           (let p2 = p1\<lparr>p_fds := (p_fds p1)(slaveFd \<mapsto> slname), p_ctty := Some slname\<rparr> in
            err_exit_if (ctty_fails K)
             (err_exit_if (if slaveTermios \<noteq> None then attr_fails K else None)
               (let p3 = (case slaveTermios of None \<Rightarrow> p2
                          | Some t \<Rightarrow> p2\<lparr>p_attr := (p_attr p2)(slname \<mapsto> t)\<rparr>) in
                err_exit_if (if slaveWS \<noteq> None then wins_fails K else None)
                 (let p4 = (case slaveWS of None \<Rightarrow> p3
                            | Some w \<Rightarrow> p3\<lparr>p_wins := (p_wins p3)(slname \<mapsto> w)\<rparr>) in
                  err_exit_if (dup2_fails K STDIN_FILENO)
                   (let p5 = fd_dup2 slaveFd STDIN_FILENO p4 in
                    err_exit_if (dup2_fails K STDOUT_FILENO)
                     (let p6 = fd_dup2 slaveFd STDOUT_FILENO p5 in
                      err_exit_if (dup2_fails K STDERR_FILENO)
                       (let p7 = fd_dup2 slaveFd STDERR_FILENO p6 in
                        Inr (if slaveFd > STDERR_FILENO then fd_close K slaveFd p7 else p7)))))))))"

text \<open>The value returned, \<open>*masterFd\<close> and \<open>slaveName\<close> when they are stored, and the process: the parent
  or the child, as the answer of \<open>fork\<close> says.\<close>

definition ptyFork ::
  "pty_env \<Rightarrow> nat option \<Rightarrow> termios option \<Rightarrow> winsize option \<Rightarrow> proc \<Rightarrow>
   (int \<times> int option \<times> string option \<times> proc) res" where
  "ptyFork K snLen slaveTermios slaveWS p =
     (case ptyMasterOpen K MAX_SNAME p of
        (mfd, sl, p1) \<Rightarrow>
          if mfd = -1 then Inr (-1, None, None, p1)
          else
            (let slname = the sl in
             if (case snLen of None \<Rightarrow> False | Some n \<Rightarrow> \<not> length slname < n)
             then Inr (-1, None, None, (fd_close K mfd p1)\<lparr>p_errno := EOVERFLOW\<rparr>)
             else
               (let out = (case snLen of None \<Rightarrow> None | Some n \<Rightarrow> Some slname) in
                case forks K of
                  Fork_fail e \<Rightarrow> Inr (-1, None, out, close_saving K e mfd p1)
                | In_parent childPid \<Rightarrow> Inr (childPid, Some mfd, out, p1)
                | In_child \<Rightarrow>
                    rbind (ptyFork_child K mfd slname slaveTermios slaveWS p1) (\<lambda>p2. Inr (0, None, out, p2)))))"

text \<open>\<open>PtyRunArg\<close>; \<open>fnArg\<close> is never set.\<close>

record ptyRunArg =
  mfd :: int
  slname :: string
  slaveTermios :: "termios option"
  slaveWS :: "winsize option"
  fn :: "proc \<Rightarrow> (int \<times> proc) res"

definition err_return_if :: "int option \<Rightarrow> proc \<Rightarrow> (int \<times> proc) res \<Rightarrow> (int \<times> proc) res" where
  "err_return_if f p k = (case f of Some e \<Rightarrow> Inr (-1, p\<lparr>p_errno := e\<rparr>) | None \<Rightarrow> k)"

definition ptyCloneRun :: "pty_env \<Rightarrow> ptyRunArg \<Rightarrow> proc \<Rightarrow> (int \<times> proc) res" where
  "ptyCloneRun K arg p =
     err_exit_if (setsid_fails K)
      (let p1 = fd_close K (mfd arg) (p\<lparr>p_ctty := None\<rparr>) in
       case open_slave K of
         Inl e \<Rightarrow> Inr (-1, p1\<lparr>p_errno := e\<rparr>)
       | Inr slaveFd \<Rightarrow>
           (let p2 = p1\<lparr>p_fds := (p_fds p1)(slaveFd \<mapsto> slname arg), p_ctty := Some (slname arg)\<rparr> in
            err_return_if (ctty_fails K) p2
             (err_return_if (if slaveTermios arg \<noteq> None then attr_fails K else None) p2
               (let p3 = (case slaveTermios arg of None \<Rightarrow> p2
                          | Some t \<Rightarrow> p2\<lparr>p_attr := (p_attr p2)(slname arg \<mapsto> t)\<rparr>) in
                err_return_if (if slaveWS arg \<noteq> None then wins_fails K else None) p3
                 (let p4 = (case slaveWS arg of None \<Rightarrow> p3
                            | Some w \<Rightarrow> p3\<lparr>p_wins := (p_wins p3)(slname arg \<mapsto> w)\<rparr>) in
                  err_return_if (dup2_fails K STDIN_FILENO) p4
                   (let p5 = fd_dup2 slaveFd STDIN_FILENO p4 in
                    err_return_if (dup2_fails K STDOUT_FILENO) p5
                     (let p6 = fd_dup2 slaveFd STDOUT_FILENO p5 in
                      err_return_if (dup2_fails K STDERR_FILENO) p6
                       (let p7 = fd_dup2 slaveFd STDERR_FILENO p6 in
                        fn arg (if slaveFd > STDERR_FILENO then fd_close K slaveFd p7 else p7)))))))))"

section \<open>\<open>ptyClone\<close>\<close>

text \<open>What the call does in one process: the parent gets the value returned and \<open>*mfd\<close>, the child the
  result of \<open>_ptyCloneRun\<close>, which is its exit status. A failed \<open>mmap\<close> ends in \<open>err_exit(0, ...)\<close>.\<close>

datatype clone_ret = Parent_ret int "int option" proc | Child_ret "(int \<times> proc) res"

definition ptyClone ::
  "pty_env \<Rightarrow> termios option \<Rightarrow> winsize option \<Rightarrow> (proc \<Rightarrow> (int \<times> proc) res) \<Rightarrow> proc \<Rightarrow> clone_ret res" where
  "ptyClone K tios ws f p =
     (case ptyMasterOpen K MAX_SNAME p of
        (masterFd, sl, p1) \<Rightarrow>
          if masterFd = -1 then Inr (Parent_ret (-1) None p1)
          else
            (let arg = \<lparr>mfd = masterFd, slname = the sl, slaveTermios = tios, slaveWS = ws, fn = f\<rparr> in
             if mmap_fails K then Inl (Exit 0)
             else
               (let p2 = p1\<lparr>p_stacks := p_stacks p1 + 1\<rparr> in
                case forks K of
                  Fork_fail e \<Rightarrow> Inr (Parent_ret (-1) None (close_saving K e masterFd p2))
                | In_parent childPid \<Rightarrow> Inr (Parent_ret childPid (Some masterFd) p2)
                | In_child \<Rightarrow> Inr (Child_ret (ptyCloneRun K arg p2)))))"

section \<open>Properties\<close>

text \<open>The descriptors the kernel hands out are not in use, and no child has the number 0 or below.\<close>

definition kernel_ok :: "pty_env \<Rightarrow> proc \<Rightarrow> bool" where
  "kernel_ok K p \<longleftrightarrow>
     (case openpt K of Inl e \<Rightarrow> True | Inr fd \<Rightarrow> 0 \<le> fd \<and> p_fds p fd = None) \<and>
     (case open_slave K of Inl e \<Rightarrow> True
      | Inr fd \<Rightarrow> 0 \<le> fd \<and> (p_fds p fd = None \<or> openpt K = Inr fd)) \<and>
     (case forks K of In_parent pid \<Rightarrow> 0 < pid | _ \<Rightarrow> True)"

text \<open>The \<open>errno\<close> of the first call of \<open>ptyMasterOpen\<close> that fails, \<open>None\<close> when none does.\<close>

definition master_error :: "pty_env \<Rightarrow> nat \<Rightarrow> int option" where
  "master_error K snLen =
     (case openpt K of Inl e \<Rightarrow> Some e | Inr fd \<Rightarrow>
        (case grantpt_fails K of Some e \<Rightarrow> Some e | None \<Rightarrow>
           (case unlockpt_fails K of Some e \<Rightarrow> Some e | None \<Rightarrow>
              (case pts_name K of Inl e \<Rightarrow> Some e
               | Inr nm \<Rightarrow> if length nm < snLen then None else Some EOVERFLOW))))"

lemma close_saving_fresh [simp]:
  "p_fds p fd = None \<Longrightarrow> close_saving K e fd (p\<lparr>p_fds := (p_fds p)(fd \<mapsto> x)\<rparr>) = p\<lparr>p_errno := e\<rparr>"
  by (simp add: close_saving_def fd_close_def Let_def fun_upd_idem)

lemma ptyMasterOpen_spec:
  assumes "kernel_ok K p"
  shows "(\<exists>e. master_error K snLen = Some e \<and> ptyMasterOpen K snLen p = (-1, None, p\<lparr>p_errno := e\<rparr>)) \<or>
    (\<exists>fd nm. master_error K snLen = None \<and> openpt K = Inr fd \<and> pts_name K = Inr nm \<and> length nm < snLen \<and>
       0 \<le> fd \<and> p_fds p fd = None \<and>
       ptyMasterOpen K snLen p = (fd, Some nm, p\<lparr>p_fds := (p_fds p)(fd \<mapsto> ''/dev/ptmx'')\<rparr>))"
  using assms
  by (auto simp: ptyMasterOpen_def master_error_def kernel_ok_def Let_def fd_close_def fun_upd_idem
      split: sum.splits option.splits)

text \<open>What the parent has after a call: nothing new with -1, the master with the child's number.\<close>

definition master_added :: "pty_env \<Rightarrow> proc \<Rightarrow> int \<Rightarrow> int option \<Rightarrow> proc \<Rightarrow> bool" where
  "master_added K p pid m p' \<longleftrightarrow>
     (if pid = -1 then p_fds p' = p_fds p
      else forks K = In_parent pid \<and>
        (case m of None \<Rightarrow> False | Some fd \<Rightarrow> p_fds p fd = None \<and> p_fds p' = (p_fds p)(fd \<mapsto> ''/dev/ptmx'')))"

lemma ptyFork_parent:
  assumes K: "kernel_ok K p" and parent: "forks K \<noteq> In_child"
  shows "\<exists>pid m nm p'. ptyFork K sn tios ws p = Inr (pid, m, nm, p') \<and>
    master_added K p pid m p'"
  using ptyMasterOpen_spec [OF K, of MAX_SNAME]
proof (elim disjE exE conjE)
  fix e
  assume "ptyMasterOpen K MAX_SNAME p = (-1, None, p\<lparr>p_errno := e\<rparr>)"
  then show ?thesis by (simp add: ptyFork_def master_added_def)
next
  fix fd nm
  assume fresh: "0 \<le> fd" "p_fds p fd = None"
    and eq: "ptyMasterOpen K MAX_SNAME p = (fd, Some nm, p\<lparr>p_fds := (p_fds p)(fd \<mapsto> ''/dev/ptmx'')\<rparr>)"
  show ?thesis
    using K parent fresh
    by (cases "forks K"; cases sn)
      (simp_all add: ptyFork_def eq Let_def fd_close_def fun_upd_idem kernel_ok_def master_added_def)
qed

lemma ptyClone_parent:
  assumes K: "kernel_ok K p" and parent: "forks K \<noteq> In_child" and "\<not> mmap_fails K"
  shows "\<exists>pid m p'. ptyClone K tios ws f p = Inr (Parent_ret pid m p') \<and>
    master_added K p pid m p'"
  using ptyMasterOpen_spec [OF K, of MAX_SNAME]
proof (elim disjE exE conjE)
  fix e
  assume "ptyMasterOpen K MAX_SNAME p = (-1, None, p\<lparr>p_errno := e\<rparr>)"
  then show ?thesis by (simp add: ptyClone_def master_added_def)
next
  fix fd nm
  assume fresh: "0 \<le> fd" "p_fds p fd = None"
    and eq: "ptyMasterOpen K MAX_SNAME p = (fd, Some nm, p\<lparr>p_fds := (p_fds p)(fd \<mapsto> ''/dev/ptmx'')\<rparr>)"
  show ?thesis
    using assms fresh
    by (cases "forks K")
      (simp_all add: ptyClone_def eq Let_def close_saving_def fd_close_def fun_upd_idem kernel_ok_def
        master_added_def)
qed

text \<open>C25 (safety): \<open>ptyMasterOpen\<close>, \<open>ptyFork\<close> and \<open>ptyClone\<close> leak no descriptor: whenever they return -1 to
  the caller the descriptor table is the one before the call and \<open>errno\<close> of \<open>ptyMasterOpen\<close> is that of the
  call that failed, although \<open>close\<close> may change it; otherwise exactly the master has been added.\<close>

theorem pty_open_no_leak:
  assumes K: "kernel_ok K p" and parent: "forks K \<noteq> In_child" and mm: "\<not> mmap_fails K"
  shows "(case ptyMasterOpen K snLen p of (fd, nm, p') \<Rightarrow>
      (if fd = -1 then p_fds p' = p_fds p \<and> master_error K snLen = Some (p_errno p')
       else p_fds p' = (p_fds p)(fd \<mapsto> ''/dev/ptmx'') \<and> (\<exists>s. nm = Some s \<and> length s < snLen))) \<and>
    (\<exists>pid m nm p'. ptyFork K sn tios ws p = Inr (pid, m, nm, p') \<and>
      master_added K p pid m p') \<and>
    (\<exists>pid m p'. ptyClone K tios ws f p = Inr (Parent_ret pid m p') \<and>
      master_added K p pid m p')"
proof -
  have "case ptyMasterOpen K snLen p of (fd, nm, p') \<Rightarrow>
      (if fd = -1 then p_fds p' = p_fds p \<and> master_error K snLen = Some (p_errno p')
       else p_fds p' = (p_fds p)(fd \<mapsto> ''/dev/ptmx'') \<and> (\<exists>s. nm = Some s \<and> length s < snLen))"
    using ptyMasterOpen_spec [OF K, of snLen] by auto
  then show ?thesis using ptyFork_parent [OF K parent] ptyClone_parent [OF K parent mm] by blast
qed

definition demo_pty_env :: "fork_ans \<Rightarrow> pty_env" where
  "demo_pty_env a =
     \<lparr>openpt = Inr 5, grantpt_fails = None, unlockpt_fails = None, pts_name = Inr ''/dev/pts/3'',
      close_errno = Some 9, forks = a, setsid_fails = None, open_slave = Inr 5, ctty_fails = None,
      attr_fails = None, wins_fails = None, dup2_fails = (\<lambda>_. None), mmap_fails = False\<rparr>"

definition demo_proc :: proc where
  "demo_proc = \<lparr>p_fds = [0 \<mapsto> ''tty'', 1 \<mapsto> ''tty'', 2 \<mapsto> ''tty''], p_errno = 0, p_ctty = Some ''tty'',
     p_attr = (\<lambda>_. None), p_wins = (\<lambda>_. None), p_stacks = 0\<rparr>"

theorem pty_open_no_leak_witness:
  "\<exists>pid m nm p'. ptyFork (demo_pty_env (Fork_fail 11)) None None None demo_proc = Inr (pid, m, nm, p') \<and>
     master_added (demo_pty_env (Fork_fail 11)) demo_proc pid m p'"
proof -
  have "kernel_ok (demo_pty_env (Fork_fail 11)) demo_proc" "forks (demo_pty_env (Fork_fail 11)) \<noteq> In_child"
    "\<not> mmap_fails (demo_pty_env (Fork_fail 11))"
    by (simp_all add: kernel_ok_def demo_pty_env_def demo_proc_def)
  from pty_open_no_leak [OF this, of 0 None None None "\<lambda>p. Inr (0, p)"] show ?thesis by blast
qed

section \<open>The child's terminal\<close>

lemma err_exit_if_Inr [simp]: "err_exit_if f k = Inr x \<longleftrightarrow> f = None \<and> k = Inr x"
  by (auto simp: err_exit_if_def split: option.splits)

lemma fd_tables:
  "p_fds (fd_close K fd p) = (p_fds p)(fd := None)" "p_fds (fd_dup2 old new p) = (p_fds p)(new := p_fds p old)"
  "p_ctty (fd_close K fd p) = p_ctty p" "p_ctty (fd_dup2 old new p) = p_ctty p"
  "p_attr (fd_close K fd p) = p_attr p" "p_attr (fd_dup2 old new p) = p_attr p"
  "p_wins (fd_close K fd p) = p_wins p" "p_wins (fd_dup2 old new p) = p_wins p"
  by (simp_all add: fd_close_def fd_dup2_def)

text \<open>The state in which the child goes on.\<close>

definition on_slave :: "int \<Rightarrow> string \<Rightarrow> termios option \<Rightarrow> winsize option \<Rightarrow> proc \<Rightarrow> proc \<Rightarrow> bool" where
  "on_slave M sl tios ws p p' \<longleftrightarrow>
     p_fds p' = (\<lambda>fd. if fd \<in> {0, 1, 2} then Some sl else if fd = M then None else p_fds p fd) \<and>
     p_ctty p' = Some sl \<and>
     p_attr p' sl = (case tios of None \<Rightarrow> p_attr p sl | Some t \<Rightarrow> Some t) \<and>
     p_wins p' sl = (case ws of None \<Rightarrow> p_wins p sl | Some w \<Rightarrow> Some w)"

lemma dup_stdio:
  assumes "p_fds p = F(M := None, fd \<mapsto> sl)" and "0 \<le> fd" "F fd = None \<or> fd = M"
  shows "p_fds (let p7 = fd_dup2 fd STDERR_FILENO (fd_dup2 fd STDOUT_FILENO (fd_dup2 fd STDIN_FILENO p)) in
        if fd > STDERR_FILENO then fd_close K fd p7 else p7) =
      (\<lambda>x. if x \<in> {0, 1, 2} then Some sl else if x = M then None else F x)"
proof (cases "fd > 2")
  case True
  then show ?thesis using assms
    by (auto simp: fd_tables fun_eq_iff STDIN_FILENO_def STDOUT_FILENO_def STDERR_FILENO_def Let_def)
next
  case False
  with assms(2) have "fd = 0 \<or> fd = 1 \<or> fd = 2" by auto
  then show ?thesis using assms
    by (auto simp: fd_tables fun_eq_iff STDIN_FILENO_def STDOUT_FILENO_def STDERR_FILENO_def Let_def)
qed

text \<open>The process with the slave open and its attributes set.\<close>

definition slave_opened :: "pty_env \<Rightarrow> int \<Rightarrow> string \<Rightarrow> termios option \<Rightarrow> winsize option \<Rightarrow> int \<Rightarrow> proc \<Rightarrow> proc" where
  "slave_opened K M sl tios ws fd p =
     (let p1 = fd_close K M (p\<lparr>p_ctty := None\<rparr>);
          p2 = p1\<lparr>p_fds := (p_fds p1)(fd \<mapsto> sl), p_ctty := Some sl\<rparr>;
          p3 = (case tios of None \<Rightarrow> p2 | Some t \<Rightarrow> p2\<lparr>p_attr := (p_attr p2)(sl \<mapsto> t)\<rparr>) in
      case ws of None \<Rightarrow> p3 | Some w \<Rightarrow> p3\<lparr>p_wins := (p_wins p3)(sl \<mapsto> w)\<rparr>)"

definition stdio_done :: "pty_env \<Rightarrow> int \<Rightarrow> proc \<Rightarrow> proc" where
  "stdio_done K fd p =
     (let p7 = fd_dup2 fd STDERR_FILENO (fd_dup2 fd STDOUT_FILENO (fd_dup2 fd STDIN_FILENO p)) in
      if fd > STDERR_FILENO then fd_close K fd p7 else p7)"

text \<open>The \<open>errno\<close> of the first call that fails, and of the first one after \<open>setsid\<close> in particular.\<close>

fun first_error :: "int option list \<Rightarrow> int option" where
  "first_error [] = None"
| "first_error (f # fs) = (case f of Some e \<Rightarrow> Some e | None \<Rightarrow> first_error fs)"

definition slave_error :: "pty_env \<Rightarrow> termios option \<Rightarrow> winsize option \<Rightarrow> int option" where
  "slave_error K tios ws =
     (case open_slave K of Inl e \<Rightarrow> Some e | Inr fd \<Rightarrow>
        first_error [ctty_fails K, if tios \<noteq> None then attr_fails K else None, if ws \<noteq> None then wins_fails K else None,
          dup2_fails K STDIN_FILENO, dup2_fails K STDOUT_FILENO, dup2_fails K STDERR_FILENO])"

lemma first_error_None: "first_error fs = None \<longleftrightarrow> (\<forall>f \<in> set fs. f = None)"
  by (induction fs) (auto split: option.splits)

text \<open>A chain of calls each of which exits when it fails, and one of calls each of which returns -1.\<close>

lemma err_exit_chain:
  assumes "first_error (f # fs) = Some e" and "first_error fs = Some e \<Longrightarrow> k = Inl (Exit e)"
  shows "err_exit_if f k = Inl (Exit e)"
  using assms by (auto simp: err_exit_if_def split: option.splits)

lemma err_return_chain:
  assumes "first_error (f # fs) = Some e"
    and "first_error fs = Some e \<Longrightarrow> \<exists>p'. k = Inr (-1, p') \<and> p_errno p' = e"
  shows "\<exists>p'. err_return_if f p k = Inr (-1, p') \<and> p_errno p' = e"
  using assms by (auto simp: err_return_if_def split: option.splits)

lemma slave_calls_ok:
  assumes "slave_error K tios ws = None"
  obtains fd where "open_slave K = Inr fd" "ctty_fails K = None" "(if tios \<noteq> None then attr_fails K else None) = None"
    "(if ws \<noteq> None then wins_fails K else None) = None" "dup2_fails K STDIN_FILENO = None"
    "dup2_fails K STDOUT_FILENO = None" "dup2_fails K STDERR_FILENO = None"
proof (cases "open_slave K")
  case (Inr fd)
  show thesis
    using assms unfolding slave_error_def Inr sum.case first_error_None by (intro that [OF Inr]) simp_all
qed (use assms in \<open>simp add: slave_error_def\<close>)

lemma ptyFork_child_ok:
  assumes "setsid_fails K = None" "slave_error K tios ws = None" "open_slave K = Inr fd"
  shows "ptyFork_child K M sl tios ws p = Inr (stdio_done K fd (slave_opened K M sl tios ws fd p))"
  using slave_calls_ok [OF assms(2)]
proof cases
  case (1 fd')
  show ?thesis
    unfolding ptyFork_child_def err_exit_if_def assms(1,3) 1(2-) sum.case option.case
      stdio_done_def slave_opened_def Let_def ..
qed

lemma ptyFork_child_fails:
  assumes "setsid_fails K = None" and err: "slave_error K tios ws = Some e"
  shows "ptyFork_child K M sl tios ws p = Inl (Exit e)"
proof (cases "open_slave K")
  case (Inr fd)
  have s: "err_exit_if (setsid_fails K) k = k" for k :: "proc res" by (simp add: err_exit_if_def assms(1))
  show ?thesis
    using err unfolding slave_error_def Inr sum.case ptyFork_child_def Let_def s
    by (elim err_exit_chain) simp
qed (use assms in \<open>simp add: ptyFork_child_def slave_error_def err_exit_if_def\<close>)

lemma ptyFork_child_eq:
  "ptyFork_child K M sl tios ws p =
     (case setsid_fails K of Some e \<Rightarrow> Inl (Exit e) | None \<Rightarrow>
        (case slave_error K tios ws of Some e \<Rightarrow> Inl (Exit e)
         | None \<Rightarrow> (case open_slave K of Inl e \<Rightarrow> Inl (Exit e)
            | Inr fd \<Rightarrow> Inr (stdio_done K fd (slave_opened K M sl tios ws fd p)))))"
proof (cases "setsid_fails K")
  case None
  then show ?thesis
    using ptyFork_child_ok ptyFork_child_fails
    by (cases "slave_error K tios ws"; cases "open_slave K") (auto simp: slave_error_def)
qed (simp add: ptyFork_child_def err_exit_if_def)

text \<open>The child of \<open>clone\<close> makes the same calls; where the other exits it returns -1.\<close>

lemma ptyCloneRun_ok:
  assumes "setsid_fails K = None" "slave_error K (slaveTermios arg) (slaveWS arg) = None" "open_slave K = Inr fd"
  shows "ptyCloneRun K arg p = fn arg (stdio_done K fd
    (slave_opened K (mfd arg) (slname arg) (slaveTermios arg) (slaveWS arg) fd p))"
  using slave_calls_ok [OF assms(2)]
proof cases
  case (1 fd')
  show ?thesis
    unfolding ptyCloneRun_def err_exit_if_def err_return_if_def assms(1,3) 1(2-) sum.case option.case
      stdio_done_def slave_opened_def Let_def ..
qed

lemma ptyCloneRun_fails:
  assumes "setsid_fails K = None" and err: "slave_error K (slaveTermios arg) (slaveWS arg) = Some e"
  shows "\<exists>p'. ptyCloneRun K arg p = Inr (-1, p') \<and> p_errno p' = e"
proof (cases "open_slave K")
  case (Inr fd)
  show ?thesis
    using err unfolding slave_error_def Inr sum.case ptyCloneRun_def err_exit_if_def assms(1) option.case Let_def
    by (elim err_return_chain) simp
qed (use assms in \<open>simp add: ptyCloneRun_def slave_error_def err_exit_if_def\<close>)

lemma child_on_slave:
  assumes "0 \<le> fd" "p_fds p fd = None \<or> fd = M"
  shows "on_slave M sl tios ws p (stdio_done K fd (slave_opened K M sl tios ws fd p))"
proof -
  let ?p = "slave_opened K M sl tios ws fd p"
  have "p_fds ?p = (p_fds p)(M := None, fd \<mapsto> sl)"
    by (simp add: slave_opened_def Let_def fd_tables split: option.split)
  from dup_stdio [OF this assms] have "p_fds (stdio_done K fd ?p) =
      (\<lambda>x. if x \<in> {0, 1, 2} then Some sl else if x = M then None else p_fds p x)" by (simp add: stdio_done_def)
  moreover have "p_ctty (stdio_done K fd ?p) = Some sl"
    "p_attr (stdio_done K fd ?p) sl = (case tios of None \<Rightarrow> p_attr p sl | Some t \<Rightarrow> Some t)"
    "p_wins (stdio_done K fd ?p) sl = (case ws of None \<Rightarrow> p_wins p sl | Some w \<Rightarrow> Some w)"
    by (simp_all add: stdio_done_def slave_opened_def Let_def fd_tables split: option.split)
  ultimately show ?thesis by (simp add: on_slave_def)
qed

text \<open>C26 (equivalence): the child of \<open>ptyFork\<close> and \<open>_ptyCloneRun\<close>, written twice in the source, do the same:
  either a call fails, and the one exits with its \<open>errno\<close> where the other returns -1 (both exit when
  \<open>setsid\<close> fails), or both go on, \<open>ptyFork\<close> by returning 0 and \<open>_ptyCloneRun\<close> by calling \<open>fn\<close>, in one and the
  same state: standard input, output and error are the slave, the master is closed, every other descriptor
  is untouched, the slave is the controlling terminal and has the attributes and the size asked for.\<close>

theorem children_agree:
  assumes "\<forall>fd. open_slave K = Inr fd \<longrightarrow> 0 \<le> fd \<and> (p_fds p fd = None \<or> fd = M)"
  shows "(\<exists>e. ptyFork_child K M sl tios ws p = Inl (Exit e) \<and>
       (let r = ptyCloneRun K \<lparr>mfd = M, slname = sl, slaveTermios = tios, slaveWS = ws, fn = f\<rparr> p in
        if setsid_fails K = Some e then r = Inl (Exit e) else \<exists>p'. r = Inr (-1, p') \<and> p_errno p' = e)) \<or>
     (\<exists>p'. ptyFork_child K M sl tios ws p = Inr p' \<and> on_slave M sl tios ws p p' \<and>
       ptyCloneRun K \<lparr>mfd = M, slname = sl, slaveTermios = tios, slaveWS = ws, fn = f\<rparr> p = f p')"
proof -
  let ?arg = "\<lparr>mfd = M, slname = sl, slaveTermios = tios, slaveWS = ws, fn = f\<rparr>"
  consider (sid) e where "setsid_fails K = Some e"
    | (err) e where "setsid_fails K = None" "slave_error K tios ws = Some e"
    | (ok) fd where "setsid_fails K = None" "slave_error K tios ws = None" "open_slave K = Inr fd"
    by (cases "setsid_fails K"; cases "slave_error K tios ws"; cases "open_slave K") (auto simp: slave_error_def)
  then show ?thesis
  proof cases
    case sid
    then show ?thesis by (simp add: ptyFork_child_eq ptyCloneRun_def err_exit_if_def)
  next
    case err
    with ptyCloneRun_fails [of K ?arg e p] show ?thesis by (simp add: ptyFork_child_eq)
  next
    case ok
    with ptyCloneRun_ok [of K ?arg fd p] child_on_slave [of fd p M sl tios ws K] assms show ?thesis
      by (simp add: ptyFork_child_eq)
  qed
qed

theorem children_agree_witness:
  "\<exists>p'. ptyFork_child (demo_pty_env In_child) 5 ''/dev/pts/3'' None None demo_proc = Inr p' \<and>
     p_fds p' = [0 \<mapsto> ''/dev/pts/3'', 1 \<mapsto> ''/dev/pts/3'', 2 \<mapsto> ''/dev/pts/3'']"
proof -
  have "\<forall>fd. open_slave (demo_pty_env In_child) = Inr fd \<longrightarrow> 0 \<le> fd \<and> (p_fds demo_proc fd = None \<or> fd = 5)"
    by (simp add: demo_pty_env_def)
  from children_agree [OF this, of "''/dev/pts/3''" None None "\<lambda>p. Inr (0, p)"]
  obtain p' where "ptyFork_child (demo_pty_env In_child) 5 ''/dev/pts/3'' None None demo_proc = Inr p'"
    "on_slave 5 ''/dev/pts/3'' None None demo_proc p'"
    by (auto simp: ptyFork_child_eq slave_error_def demo_pty_env_def)
  then show ?thesis by (auto simp: on_slave_def demo_proc_def fun_eq_iff)
qed

end
