(* ===== verification/PtyClient.thy ===== *)
theory PtyClient
  imports PtyPool PtyOpen PathAssembler
begin

text \<open>
  The clients of \<open>src/pty/pty_exec_util.cpp\<close>: \<open>pty_client\<close> attaches the terminal to a container's server,
  \<open>pty_exec\<close> runs another command in a container on a pseudo-terminal of its own. Both are a setup, a
  \<open>select\<close> loop over the answers of the kernel (one per round) and a cleanup. The world is the pair of the
  terminals and the descriptors of the process; a process that dies keeps it as it is at that moment.
\<close>

section \<open>The socket's path\<close>

text \<open>\<open>sun_path\<close> has 108 bytes and the call says one less.\<close>

definition SUN_PATH_LEN :: nat where "SUN_PATH_LEN = 108"

definition sun_path :: "string \<Rightarrow> string" where
  "sun_path containerId =
     snprintf (SUN_PATH_LEN - 1) (hoststack_repo @ ''/containers/'' @ containerId @ ''/hoststack.socket'')"

section \<open>\<open>pty_client\<close>\<close>

datatype ending = Running | Returned int | Died outcome

text \<open>The two halves of a round with the descriptors in \<open>R\<close> ready. The first says whether the loop goes on;
  the second whether it goes on (\<open>Running\<close>), is left (\<open>Returned 0\<close>), or the process exits.\<close>

definition client_input :: "int \<Rightarrow> int set \<Rightarrow> sys \<Rightarrow> bool \<times> sys" where
  "client_input cfd R s =
     (if STDIN_FILENO \<in> R then
        (let (n, buf, s1) = sys_read STDIN_FILENO BUF_SIZE s in
         if n \<le> 0 then (False, s1)
         else (let (w, s2) = rio_writen cfd buf s1 in (\<not> w \<le> 0, s2)))
      else (True, s))"

definition client_output :: "int \<Rightarrow> int set \<Rightarrow> sys \<Rightarrow> ending \<times> sys" where
  "client_output cfd R s =
     (if cfd \<in> R then
        (let (n, buf, s1) = sys_read cfd BUF_SIZE s in
         if n \<le> 0 then (Returned 0, s1)
         else (let (w, s2) = rio_writen STDOUT_FILENO buf s1 in
               if w \<noteq> n then (Died (Exit (errno s2)), s2) else (Running, s2)))
      else (Running, s))"

definition client_iter :: "int \<Rightarrow> int set \<Rightarrow> sys \<Rightarrow> ending \<times> sys" where
  "client_iter cfd R s =
     (let (go, s1) = client_input cfd R s in if \<not> go then (Returned 0, s1) else client_output cfd R s1)"

text \<open>A failed \<open>select\<close> leaves the set as it was passed.\<close>

definition client_ready :: "int \<Rightarrow> sel \<Rightarrow> sys \<Rightarrow> int set \<times> sys" where
  "client_ready cfd sl s =
     (case sl of Sel_fail e \<Rightarrow> ({STDIN_FILENO, cfd}, s\<lparr>errno := e\<rparr>)
      | Sel_ready R \<Rightarrow> (R \<inter> {STDIN_FILENO, cfd}, s))"

fun client_loop :: "int \<Rightarrow> sel list \<Rightarrow> sys \<Rightarrow> ending \<times> sys" where
  "client_loop cfd [] s = (Running, s)"
| "client_loop cfd (sl # sls) s =
     (let (R, s1) = client_ready cfd sl s; (e, s2) = client_iter cfd R s1 in
      if e = Running then client_loop cfd sls s2 else (e, s2))"

text \<open>How the calls before the loop answer: \<open>socket\<close> and, for the path it is called with, \<open>connect\<close>.\<close>

record client_env =
  sock :: "int + int"
  conn_fails :: "string \<Rightarrow> int option"

text \<open>\<open>ttyOrig0\<close> is the global \<open>ttyOrig\<close> before the call; \<open>tcgetattr\<close> on what is no terminal leaves it.\<close>

definition pty_client ::
  "client_env \<Rightarrow> string \<Rightarrow> termios \<Rightarrow> sel list \<Rightarrow> ttys \<Rightarrow> sys \<Rightarrow> ending \<times> ttys \<times> sys" where
  "pty_client E containerId ttyOrig0 sls t s =
     (case sock E of
        Inl e \<Rightarrow> (Died (Exit e), t, s\<lparr>errno := e\<rparr>)
      | Inr cfd \<Rightarrow>
          (case conn_fails E (sun_path containerId) of
             Some e \<Rightarrow> (Died (Exit e), t, s\<lparr>errno := e\<rparr>)
           | None \<Rightarrow>
               (let ttyOrig = (case tty_of t STDIN_FILENO of Some a \<Rightarrow> a | None \<Rightarrow> ttyOrig0);
                    t1 = snd (tcsetattr STDIN_FILENO (cfmakeraw ttyOrig) t) in
                if \<not> (0 \<le> cfd \<and> cfd < int FD_SETSIZE) then (Died OutOfBounds, t1, s)
                else
                  (case client_loop cfd sls s of
                     (Running, s1) \<Rightarrow> (Running, t1, s1)
                   | (Died oc, s1) \<Rightarrow> (Died oc, t1, s1)
                   | (Returned r, s1) \<Rightarrow> (Returned 0, ttyReset ttyOrig t1, s1)))))"

section \<open>\<open>pty_exec\<close>\<close>

text \<open>A round of its loop. A read that was interrupted falls through to the write with \<open>n = -1\<close>:
  \<open>rio_writen\<close> fails and the loop is left; \<open>write\<close> to the terminal fails with -1, which is \<open>n\<close>, and the loop
  goes on.\<close>

definition exec_input :: "int \<Rightarrow> int set \<Rightarrow> sys \<Rightarrow> bool \<times> sys" where
  "exec_input masterFd R s =
     (if STDIN_FILENO \<in> R then
        (let (n, buf, s1) = sys_read STDIN_FILENO BUF_SIZE s in
         if n \<le> 0 \<and> errno s1 \<noteq> EINTR then (False, s1)
         else (let (w, s2) = rio_writen_len masterFd n buf s1 in (\<not> w \<le> 0, s2)))
      else (True, s))"

definition exec_output :: "int \<Rightarrow> int set \<Rightarrow> sys \<Rightarrow> ending \<times> sys" where
  "exec_output masterFd R s =
     (if masterFd \<in> R then
        (let (n, buf, s1) = sys_read masterFd BUF_SIZE s in
         if n \<le> 0 \<and> errno s1 \<noteq> EINTR then (Returned 0, s1)
         else (let (w, s2) = (if n < 0 then (-1, s1\<lparr>errno := EFAULT\<rparr>) else sys_write STDOUT_FILENO buf s1) in
               if w \<noteq> n then (Died (Exit (errno s2)), s2) else (Running, s2)))
      else (Running, s))"

definition exec_iter :: "int \<Rightarrow> int set \<Rightarrow> sys \<Rightarrow> ending \<times> sys" where
  "exec_iter masterFd R s =
     (let (go, s1) = exec_input masterFd R s in if \<not> go then (Returned 0, s1) else exec_output masterFd R s1)"

text \<open>The watched descriptors: without the terminal when detached. After a failed \<open>select\<close> other than an
  interruption the round goes on with the set as it was passed.\<close>

fun exec_loop :: "bool \<Rightarrow> int \<Rightarrow> sel list \<Rightarrow> sys \<Rightarrow> ending \<times> sys" where
  "exec_loop detach masterFd [] s = (Running, s)"
| "exec_loop detach masterFd (sl # sls) s =
     (let W = (if detach then {masterFd} else {STDIN_FILENO, masterFd}) in
      case sl of
        Sel_fail e \<Rightarrow>
          (if e = EINTR then exec_loop detach masterFd sls (s\<lparr>errno := e\<rparr>)
           else (let (r, s2) = exec_iter masterFd W (s\<lparr>errno := e\<rparr>) in
                 if r = Running then exec_loop detach masterFd sls s2 else (r, s2)))
      | Sel_ready R \<Rightarrow>
          (let (r, s2) = exec_iter masterFd (R \<inter> W) s in
           if r = Running then exec_loop detach masterFd sls s2 else (r, s2)))"

text \<open>\<open>dumpStdOut\<close>: standard output becomes the null device. \<open>null_fd\<close> is the answer of \<open>open\<close>, \<open>dup_err\<close> that of
  \<open>dup2\<close>.\<close>

definition null_port :: port where
  "null_port = \<lparr>inq = [], rsched = [], outq = [], wsched = [], is_open = True\<rparr>"

definition dumpStdOut :: "int + int \<Rightarrow> int option \<Rightarrow> sys \<Rightarrow> sys res" where
  "dumpStdOut null_fd dup_err s =
     (case null_fd of
        Inl e \<Rightarrow> Inl (Exit e)
      | Inr outFd \<Rightarrow>
          (case dup_err of
             Some e \<Rightarrow> Inl (Exit e)
           | None \<Rightarrow> Inr (sys_close outFd (set_port STDOUT_FILENO null_port (set_port outFd null_port s)))))"

text \<open>The answers \<open>pty_exec\<close> meets besides those of \<open>ptyFork\<close>: the attributes and the size of the terminal,
  \<open>chdir\<close> and \<open>chroot\<close>, \<open>execvp\<close> (\<open>None\<close> when it succeeds and the program is another one from then on), the
  null device, and the process \<open>wait\<close> reports.\<close>

record exec_env =
  term_ws :: winsize
  exec_fails :: "int option"
  null_fd :: "int + int"
  dup_err :: "int option"
  wait_pid :: int

datatype exec_end = Exec_image "string list" | Exec_ret ending ttys sys

text \<open>\<open>ptyFork\<close> gets the address of \<open>ttyOrig\<close> and \<open>ws\<close>. Its failure is reported and ignored, like that of
  \<open>execvp\<close> in the child: both go on with \<open>masterFd\<close> never assigned.\<close>

definition pty_exec ::
  "pty_env \<Rightarrow> exec_env \<Rightarrow> string list \<Rightarrow> bool \<Rightarrow> termios \<Rightarrow> sel list \<Rightarrow> proc \<Rightarrow> ttys \<Rightarrow> sys \<Rightarrow> exec_end" where
  "pty_exec K E cmd detach ttyOrig0 sls p t s =
     (let ttyOrig = (case tty_of t STDIN_FILENO of Some a \<Rightarrow> a | None \<Rightarrow> ttyOrig0) in
      case ptyFork K (Some MAX_SNAME) (Some ttyOrig) (Some (term_ws E)) p of
        Inl oc \<Rightarrow> Exec_ret (Died oc) t s
      | Inr (childPid, m, nm, p1) \<Rightarrow>
          if childPid = 0 \<and> exec_fails E = None then Exec_image cmd
          else
            (let (t1, s0) = (if detach then (t, s) else snd (snd (ttySetRaw STDIN_FILENO False t s))) in
             case (if detach then dumpStdOut (null_fd E) (dup_err E) s0 else Inr s0) of
               Inl oc \<Rightarrow> Exec_ret (Died oc) t1 s0
             | Inr s1 \<Rightarrow>
                 (case m of
                    None \<Rightarrow> Exec_ret (Died UninitRead) t1 s1
                  | Some masterFd \<Rightarrow>
                      if \<not> (0 \<le> masterFd \<and> masterFd < int FD_SETSIZE) then Exec_ret (Died OutOfBounds) t1 s1
                      else
                        (case exec_loop detach masterFd sls s1 of
                           (Returned r, s2) \<Rightarrow>
                             if wait_pid E \<noteq> childPid then Exec_ret (Died AssertFail) t1 s2
                             else Exec_ret (Returned 0) (if detach then t1 else ttyReset ttyOrig t1) s2
                         | (e, s2) \<Rightarrow> Exec_ret e t1 s2))))"

section \<open>The loops relay in order\<close>

text \<open>Between two moments the bytes typed (\<open>i\<close>) have gone to the descriptor \<open>c\<close> and those that came from it
  (\<open>o'\<close>) to the terminal; \<open>i'\<close> and \<open>o''\<close> are what has arrived.\<close>

definition relayed :: "int \<Rightarrow> sys \<Rightarrow> sys \<Rightarrow> string \<Rightarrow> string \<Rightarrow> string \<Rightarrow> string \<Rightarrow> bool" where
  "relayed c s s' i i' o1 o2 \<longleftrightarrow>
     inq (ports s 0) = i @ inq (ports s' 0) \<and> outq (ports s' c) = outq (ports s c) @ i' \<and>
     inq (ports s c) = o1 @ inq (ports s' c) \<and> outq (ports s' 1) = outq (ports s 1) @ o2 \<and>
     (\<forall>fd. fd \<notin> {0, 1, c} \<longrightarrow> ports s' fd = ports s fd)"

lemma relayed_trans:
  "relayed c s s1 i i o1 o1 \<Longrightarrow> relayed c s1 s2 j j' p1 p2 \<Longrightarrow> relayed c s s2 (i @ j) (i @ j') (o1 @ p1) (o1 @ p2)"
  by (auto simp: relayed_def)

lemma relayed_errno [simp]: "relayed c (s\<lparr>errno := e\<rparr>) s' = relayed c s s'"
  "relayed c s (s'\<lparr>errno := e\<rparr>) = relayed c s s'"
  by (simp_all add: relayed_def fun_eq_iff)

lemma relayed_refl: "relayed c s s [] [] [] []"
  by (simp add: relayed_def)

lemma sys_read_relay:
  assumes "sys_read fd n s = (r, bs, s')" "0 < n"
  shows "inq (ports s fd) = bs @ inq (ports s' fd)" "r = int (length bs) \<or> (r = -1 \<and> bs = [])"
    "outq (ports s' fd') = outq (ports s fd')" "fd' \<noteq> fd \<Longrightarrow> ports s' fd' = ports s fd'"
proof -
  from assms show "inq (ports s fd) = bs @ inq (ports s' fd)" "r = int (length bs) \<or> (r = -1 \<and> bs = [])"
    by (cases rule: sys_read_cases; simp)+
  from sys_read_frame [OF assms(1)]
  show "outq (ports s' fd') = outq (ports s fd')" "fd' \<noteq> fd \<Longrightarrow> ports s' fd' = ports s fd'"
    by (cases "fd' = fd"; simp)+
qed

text \<open>The input half of a round.\<close>

lemma input_half:
  assumes "sys_read 0 BUF_SIZE s = (n, buf, s1)" "rio_writen c buf s1 = (w, s2)" "c \<noteq> 0" "c \<noteq> 1"
  shows "\<exists>i'. relayed c s s2 buf i' [] [] \<and> (\<exists>k. i' = take k buf) \<and> (0 < w \<longrightarrow> i' = buf)"
proof -
  have "0 < BUF_SIZE" by (simp add: BUF_SIZE_def)
  note rd = sys_read_relay [OF assms(1) this]
  note wf = rio_writen_frame [OF assms(2)]
  have "w = int (length buf) \<and> outq (ports s2 c) = outq (ports s1 c) @ buf \<or>
       w = -1 \<and> (\<exists>k < length buf. outq (ports s2 c) = outq (ports s1 c) @ take k buf)"
    using rio_writen_loop_prefix [where fd = c and n = "length buf" and bs = buf and s = s1] assms(2)
    by (auto simp: rio_writen_def)
  then obtain k where k: "outq (ports s2 c) = outq (ports s1 c) @ take k buf" "0 < w \<longrightarrow> take k buf = buf"
  proof (elim disjE conjE exE)
    assume "w = int (length buf)" "outq (ports s2 c) = outq (ports s1 c) @ buf"
    then show thesis by (intro that [of "length buf"]) simp_all
  next
    fix k
    assume "w = -1" "outq (ports s2 c) = outq (ports s1 c) @ take k buf"
    then show thesis by (intro that [of k]) simp_all
  qed
  have "relayed c s s2 buf (take k buf) [] []"
    using rd(1) rd(3,4) wf(1,2) k(1) assms(3,4) unfolding relayed_def by auto
  with k(2) show ?thesis by blast
qed

text \<open>The output half, with the writing function of either loop.\<close>

lemma output_half:
  assumes "sys_read c BUF_SIZE s = (n, buf, s1)" "c \<noteq> 0" "c \<noteq> 1"
    and w: "\<And>fd. fd \<noteq> 1 \<Longrightarrow> ports s2 fd = ports s1 fd" "inq (ports s2 1) = inq (ports s1 1)"
      "outq (ports s2 1) = outq (ports s1 1) @ o2"
  shows "relayed c s s2 [] [] buf o2"
proof -
  have "0 < BUF_SIZE" by (simp add: BUF_SIZE_def)
  note rd = sys_read_relay [OF assms(1) this]
  show ?thesis using rd(1) rd(3,4) w assms(2,3) unfolding relayed_def by auto
qed

text \<open>What a loop guarantees however it ends: what has arrived is what was read, in order, up to the chunk
  being written when a write failed; nothing is lost while it runs, and no output is lost unless the
  process dies for it.\<close>

definition relay_ok :: "int \<Rightarrow> sys \<Rightarrow> ending \<Rightarrow> sys \<Rightarrow> bool" where
  "relay_ok c s e s' \<longleftrightarrow>
     (\<exists>i x o1 y. relayed c s s' (i @ x) i (o1 @ y) o1 \<and>
        (e = Running \<longrightarrow> x = []) \<and> ((\<exists>r. e = Returned r) \<or> e = Running \<longrightarrow> y = []))"

lemma relay_okI:
  "relayed c s s' i i' o1 o2 \<Longrightarrow> i = i' @ x \<Longrightarrow> o1 = o2 @ y \<Longrightarrow> (e = Running \<longrightarrow> x = []) \<Longrightarrow>
    ((\<exists>r. e = Returned r) \<or> e = Running \<longrightarrow> y = []) \<Longrightarrow> relay_ok c s e s'"
  unfolding relay_ok_def by metis

lemma relay_ok_refl: "relay_ok c s e s"
  using relay_okI [OF relayed_refl, of "[]" "[]"] by simp

lemma relay_ok_trans:
  assumes "relay_ok c s Running s1" "relay_ok c s1 e s2"
  shows "relay_ok c s e s2"
proof -
  from assms(1) obtain i o1 where 1: "relayed c s s1 i i o1 o1" by (auto simp: relay_ok_def)
  from assms(2) obtain j x p y where 2: "relayed c s1 s2 (j @ x) j (p @ y) p" "e = Running \<longrightarrow> x = []"
    "(\<exists>r. e = Returned r) \<or> e = Running \<longrightarrow> y = []" by (auto simp: relay_ok_def)
  from relayed_trans [OF 1 2(1)] have "relayed c s s2 ((i @ j) @ x) (i @ j) ((o1 @ p) @ y) (o1 @ p)" by simp
  then show ?thesis using 2(2,3) unfolding relay_ok_def by blast
qed

lemma relay_ok_errno [simp]: "relay_ok c (s\<lparr>errno := e\<rparr>) r s' = relay_ok c s r s'"
  "relay_ok c s r (s'\<lparr>errno := e\<rparr>) = relay_ok c s r s'"
  by (simp_all add: relay_ok_def)

lemma read_only:
  assumes "sys_read fd BUF_SIZE s = (n, buf, s1)" "n \<le> 0" "fd = 0 \<or> fd = c" "c \<noteq> 0" "c \<noteq> 1"
  shows "relay_ok c s e s1"
proof -
  have "0 < BUF_SIZE" by (simp add: BUF_SIZE_def)
  note rd = sys_read_relay [OF assms(1) this]
  have "buf = []" using rd(2) assms(2) by auto
  with rd have "relayed c s s1 [] [] [] []" unfolding relayed_def using assms(3-5) by auto
  then show ?thesis using relay_okI by fastforce
qed

lemma input_ok:
  assumes "sys_read 0 BUF_SIZE s = (n, buf, s1)" "rio_writen c buf s1 = (w, s2)" "c \<noteq> 0" "c \<noteq> 1"
    and "w \<le> 0 \<longrightarrow> e \<noteq> Running"
  shows "relay_ok c s e s2"
proof -
  from input_half [OF assms(1-4)] obtain k where
    r: "relayed c s s2 buf (take k buf) [] []" "0 < w \<longrightarrow> take k buf = buf" by blast
  have "e = Running \<longrightarrow> drop k buf = []" using assms(5) r(2) by (metis append_self_conv append_take_drop_id not_le)
  then show ?thesis by (intro relay_okI [OF r(1), of "drop k buf" "[]"]) simp_all
qed

lemma output_ok:
  assumes "sys_read c BUF_SIZE s = (n, buf, s1)" "c \<noteq> 0" "c \<noteq> 1"
    and "\<And>fd. fd \<noteq> 1 \<Longrightarrow> ports s2 fd = ports s1 fd" "inq (ports s2 1) = inq (ports s1 1)"
      "outq (ports s2 1) = outq (ports s1 1) @ take k buf"
    and "(\<exists>r. e = Returned r) \<or> e = Running \<longrightarrow> drop k buf = []"
  shows "relay_ok c s e s2"
  using assms(7) by (intro relay_okI [OF output_half [OF assms(1-6)], of "[]" "drop k buf"]) simp_all

text \<open>The contract the two \<open>select\<close> loops share: each half of a round relays, and the loop is a sequence of rounds
  on some ready set, left as soon as one does not end \<open>Running\<close>. Only the number of the last error changes
  between the rounds.\<close>

locale relay_loop =
  fixes inp :: "int \<Rightarrow> int set \<Rightarrow> sys \<Rightarrow> bool \<times> sys"
    and out :: "int \<Rightarrow> int set \<Rightarrow> sys \<Rightarrow> ending \<times> sys"
    and loop :: "int \<Rightarrow> sel list \<Rightarrow> sys \<Rightarrow> ending \<times> sys"
  assumes input_law: "inp c R s = (go, s1) \<Longrightarrow> c \<noteq> 0 \<Longrightarrow> c \<noteq> 1 \<Longrightarrow> relay_ok c s (if go then Running else Returned 0) s1"
    and output_law: "out c R s = (e, s1) \<Longrightarrow> c \<noteq> 0 \<Longrightarrow> c \<noteq> 1 \<Longrightarrow> relay_ok c s e s1"
    and loop_nil: "loop c [] s = (Running, s)"
    and loop_step: "\<exists>x R. let s0 = s\<lparr>errno := x\<rparr> in
      loop c (sl # sls) s = loop c sls s0 \<or>
      loop c (sl # sls) s =
        (let (go, s1) = inp c R s0; (e, s2) = (if \<not> go then (Returned 0, s1) else out c R s1) in
         if e = Running then loop c sls s2 else (e, s2))"
begin

lemma round_relay:
  assumes "(let (go, s1) = inp c R s in if \<not> go then (Returned 0, s1) else out c R s1) = (e, s')" "c \<noteq> 0" "c \<noteq> 1"
  shows "relay_ok c s e s'"
proof (cases "inp c R s")
  case (Pair go s1)
  show ?thesis
  proof (cases go)
    case True
    with assms Pair have "relay_ok c s1 e s'" by (intro output_law) simp_all
    with input_law [OF Pair assms(2,3)] True show ?thesis using relay_ok_trans by simp
  next
    case False
    with input_law [OF Pair assms(2,3)] assms(1) Pair show ?thesis by simp
  qed
qed

lemma loop_relay:
  "loop c sls s = (e, s') \<Longrightarrow> c \<noteq> 0 \<Longrightarrow> c \<noteq> 1 \<Longrightarrow> relay_ok c s e s'"
proof (induction sls arbitrary: s)
  case (Cons sl sls)
  obtain x R where step: "loop c (sl # sls) s = loop c sls (s\<lparr>errno := x\<rparr>) \<or>
      loop c (sl # sls) s = (let (go, s1) = inp c R (s\<lparr>errno := x\<rparr>);
          (e, s2) = (if \<not> go then (Returned 0, s1) else out c R s1) in
         if e = Running then loop c sls s2 else (e, s2))"
    using loop_step [of s c sl sls] by (auto simp: Let_def)
  obtain r s2 where it: "(let (go, s1) = inp c R (s\<lparr>errno := x\<rparr>) in if \<not> go then (Returned 0, s1) else out c R s1) = (r, s2)"
    by fastforce
  with round_relay [OF it Cons.prems(2,3)] have r: "relay_ok c s r s2" by simp
  from step show ?case
  proof
    assume "loop c (sl # sls) s = loop c sls (s\<lparr>errno := x\<rparr>)"
    with Cons.IH [of "s\<lparr>errno := x\<rparr>"] Cons.prems show ?thesis by simp
  next
    assume "loop c (sl # sls) s = (let (go, s1) = inp c R (s\<lparr>errno := x\<rparr>);
          (e, s2) = (if \<not> go then (Returned 0, s1) else out c R s1) in
         if e = Running then loop c sls s2 else (e, s2))"
    moreover obtain go s1 where p: "inp c R (s\<lparr>errno := x\<rparr>) = (go, s1)" by fastforce
    moreover have "(if \<not> go then (Returned 0, s1) else out c R s1) = (r, s2)" using it p by simp
    ultimately have "(if r = Running then loop c sls s2 else (r, s2)) = (e, s')"
      using Cons.prems(1) by (simp only: Let_def prod.case)
    with r Cons.IH [of s2] Cons.prems(2,3) show ?thesis by (auto intro: relay_ok_trans split: if_splits)
  qed
qed (simp add: loop_nil relay_ok_refl)

end

subsection \<open>\<open>pty_client\<close>\<close>

lemma client_input_relay:
  assumes "client_input c R s = (go, s1)" "c \<noteq> 0" "c \<noteq> 1"
  shows "relay_ok c s (if go then Running else Returned 0) s1"
proof (cases "STDIN_FILENO \<in> R")
  case True
  obtain n buf s2 where rd: "sys_read 0 BUF_SIZE s = (n, buf, s2)" using prod_cases3 by blast
  obtain w s3 where w: "rio_writen c buf s2 = (w, s3)" by fastforce
  show ?thesis
    using assms True rd w read_only [OF rd _ _ assms(2,3)] input_ok [OF rd w assms(2,3)]
    by (simp add: client_input_def STDIN_FILENO_def split: if_splits)
qed (use assms in \<open>simp add: client_input_def relay_ok_refl\<close>)

lemma client_output_relay:
  assumes "client_output c R s = (e, s')" "c \<noteq> 0" "c \<noteq> 1"
  shows "relay_ok c s e s'"
proof (cases "c \<in> R")
  case True
  obtain n buf s1 where rd: "sys_read c BUF_SIZE s = (n, buf, s1)" using prod_cases3 by blast
  obtain w s2 where w: "rio_writen 1 buf s1 = (w, s2)" by fastforce
  note eq = assms(1) [unfolded client_output_def STDOUT_FILENO_def, simplified True rd w, simplified]
  show ?thesis
  proof (cases "n \<le> 0")
    case True
    with eq read_only [OF rd True _ assms(2,3)] show ?thesis by simp
  next
    case False
    then have n: "n = int (length buf)" using sys_read_relay(2) [OF rd] by (auto simp: BUF_SIZE_def)
    have "\<exists>k. outq (ports s2 1) = outq (ports s1 1) @ take k buf \<and> (w = n \<longrightarrow> drop k buf = [])"
      using rio_writen_loop_prefix [where fd = 1 and n = "length buf" and bs = buf and s = s1] w n
      by (auto simp: rio_writen_def intro: exI [of _ "length buf"])
    then obtain k where k: "outq (ports s2 1) = outq (ports s1 1) @ take k buf" "w = n \<longrightarrow> drop k buf = []" by blast
    have e: "s' = s2" "(\<exists>r. e = Returned r) \<or> e = Running \<longrightarrow> drop k buf = []" using eq w False k(2) by (auto split: if_splits)
    show ?thesis
      unfolding e(1) using rio_writen_frame [OF w] by (intro output_ok [OF rd assms(2,3) _ _ k(1) e(2)]) simp_all
  qed
qed (use assms in \<open>simp add: client_output_def relay_ok_refl\<close>)

interpretation client: relay_loop client_input client_output client_loop
proof (unfold_locales, goal_cases)
  case (1 c R s go s1)
  then show ?case by (rule client_input_relay)
next
  case (2 c R s e s1)
  then show ?case by (rule client_output_relay)
next
  case (4 s c sl sls)
  obtain R x where "client_ready c sl s = (R, s\<lparr>errno := x\<rparr>)"
    by (cases sl) (simp_all add: client_ready_def, metis sys.surjective sys.update_convs(1))
  then show ?case
    by (intro exI [of _ x] exI [of _ R]) (simp add: client_iter_def Let_def split: prod.splits)
qed simp

subsection \<open>\<open>pty_exec\<close>\<close>

lemma exec_input_relay:
  assumes "exec_input c R s = (go, s1)" "c \<noteq> 0" "c \<noteq> 1"
  shows "relay_ok c s (if go then Running else Returned 0) s1"
proof (cases "STDIN_FILENO \<in> R")
  case True
  obtain n buf s2 where rd: "sys_read 0 BUF_SIZE s = (n, buf, s2)" using prod_cases3 by blast
  obtain w s3 where w: "rio_writen c buf s2 = (w, s3)" by fastforce
  have neg: "relay_ok c s e (s2\<lparr>errno := x\<rparr>)" if "n \<le> 0" for e x
    using read_only [OF rd that _ assms(2,3), of e] by simp
  show ?thesis
    using assms True rd w read_only [OF rd _ _ assms(2,3)] input_ok [OF rd w assms(2,3)] neg
    by (auto simp: exec_input_def STDIN_FILENO_def rio_writen_len_def split: if_splits)
qed (use assms in \<open>simp add: exec_input_def relay_ok_refl\<close>)

lemma exec_output_relay:
  assumes "exec_output c R s = (e, s')" "c \<noteq> 0" "c \<noteq> 1"
  shows "relay_ok c s e s'"
proof (cases "c \<in> R")
  case True
  obtain n buf s1 where rd: "sys_read c BUF_SIZE s = (n, buf, s1)" using prod_cases3 by blast
  obtain w s2 where w: "sys_write 1 buf s1 = (w, s2)" by fastforce
  note eq = assms(1) [unfolded exec_output_def STDOUT_FILENO_def, simplified True rd w, simplified]
  show ?thesis
  proof (cases "n < 0 \<or> (n \<le> 0 \<and> errno s1 \<noteq> EINTR)")
    case True
    then have "n \<le> 0" by auto
    then have "relay_ok c s e s1" by (rule read_only [OF rd _ _ assms(2,3)]) simp
    moreover have "s' = s1 \<or> s' = s1\<lparr>errno := EFAULT\<rparr>" using eq True by (auto split: if_splits)
    ultimately show ?thesis by auto
  next
    case False
    then have n: "n = int (length buf)" using sys_read_relay(2) [OF rd] by (auto simp: BUF_SIZE_def)
    from w have "\<exists>k. outq (ports s2 1) = outq (ports s1 1) @ take k buf \<and> (w = n \<longrightarrow> drop k buf = [])"
    proof (cases rule: sys_write_cases)
      case (fail x)
      then show ?thesis using n by (intro exI [of _ 0]) simp
    next
      case (partial k)
      then show ?thesis using n by auto
    qed
    then obtain k where k: "outq (ports s2 1) = outq (ports s1 1) @ take k buf" "w = n \<longrightarrow> drop k buf = []" by blast
    have e: "s' = s2" "(\<exists>r. e = Returned r) \<or> e = Running \<longrightarrow> drop k buf = []"
      using eq w False k(2) by (auto split: if_splits)
    show ?thesis
      unfolding e(1) using sys_write_frame [OF w] by (intro output_ok [OF rd assms(2,3) _ _ k(1) e(2)]) simp_all
  qed
qed (use assms in \<open>simp add: exec_output_def relay_ok_refl\<close>)

interpretation exec: relay_loop exec_input exec_output "exec_loop d" for d
proof (unfold_locales, goal_cases)
  case (1 c R s go s1)
  then show ?case by (rule exec_input_relay)
next
  case (2 c R s e s1)
  then show ?case by (rule exec_output_relay)
next
  case (4 s c sl sls)
  let ?W = "if d then {c} else {STDIN_FILENO, c}"
  show ?case
  proof (cases sl)
    case (Sel_fail x)
    then show ?thesis
      by (intro exI [of _ x] exI [of _ ?W]) (simp add: exec_iter_def Let_def split: prod.splits)
  next
    case (Sel_ready R)
    then show ?thesis
      by (intro exI [of _ "errno s"] exI [of _ "R \<inter> ?W"]) (simp add: exec_iter_def Let_def split: prod.splits)
  qed
qed simp

section \<open>Sessions\<close>

lemma tcsetattr_back:
  assumes "case tty_of t STDIN_FILENO of Some x \<Rightarrow> a = x | None \<Rightarrow> True"
  shows "ttyReset a (snd (tcsetattr STDIN_FILENO b t)) = t"
  using assms by (auto simp: ttyReset_def tcsetattr_def fun_upd_idem split: option.splits)

text \<open>What \<open>ttySetRaw\<close> leaves of the input of a terminal.\<close>

definition flushed :: "ttys \<Rightarrow> sys \<Rightarrow> sys" where
  "flushed t s =
     (if tty_of t STDIN_FILENO = None \<or> set_fails t STDIN_FILENO then s else flush_input STDIN_FILENO (queued t STDIN_FILENO) s)"

lemma ttySetRaw_state:
  "snd (snd (ttySetRaw STDIN_FILENO w t s)) =
     (case tty_of t STDIN_FILENO of None \<Rightarrow> t | Some a \<Rightarrow> snd (tcsetattr STDIN_FILENO (raw_mode a) t), flushed t s)"
  by (auto simp: ttySetRaw_def tcsetattr_flush_def tcsetattr_def flushed_def Let_def split: option.splits prod.splits)

text \<open>The terminal in the mode of the session.\<close>

definition in_mode :: "(termios \<Rightarrow> termios) \<Rightarrow> ttys \<Rightarrow> ttys" where
  "in_mode f t = (case tty_of t STDIN_FILENO of None \<Rightarrow> t | Some a \<Rightarrow> snd (tcsetattr STDIN_FILENO (f a) t))"

lemma pty_client_relay:
  assumes "sock E = Inr c" "conn_fails E (sun_path ctr) = None" "1 < c" "c < int FD_SETSIZE"
    and "pty_client E ctr orig sls t s = (e, t', s')"
  shows "relay_ok c s e s'"
proof -
  obtain x y where lp: "client_loop c sls s = (x, y)" by fastforce
  then have "relay_ok c s x y" using client.loop_relay assms(3) by simp
  moreover have "e = (case x of Returned r \<Rightarrow> Returned 0 | _ \<Rightarrow> x)" "s' = y"
    using assms lp by (auto simp: pty_client_def Let_def split: ending.splits)
  ultimately show ?thesis by (cases x) (auto simp: relay_ok_def)
qed

text \<open>C18 (functional): a session of \<open>pty_client\<close> on a connected socket, over any answers of \<open>select\<close>, \<open>read\<close>
  and \<open>write\<close>: what is typed arrives at the server and the server's output on the terminal, in order and
  without loss as long as the session runs (up to the chunk whose writing failed at its end). When it
  returns the terminal has exactly its attributes from before; while it runs, and when it dies because the
  terminal does not take the output, the terminal is in raw mode.\<close>

theorem pty_client_session:
  assumes "sock E = Inr c" "conn_fails E (sun_path ctr) = None" "1 < c" "c < int FD_SETSIZE"
    and "pty_client E ctr orig sls t s = (e, t', s')"
  shows "relay_ok c s e s' \<and> t' = (case e of Returned r \<Rightarrow> t | _ \<Rightarrow> in_mode cfmakeraw t) \<and>
    (\<forall>oc. e = Died oc \<longrightarrow> oc = Exit (errno s'))"
proof -
  let ?a = "case tty_of t STDIN_FILENO of Some a \<Rightarrow> a | None \<Rightarrow> orig"
  have restore: "ttyReset ?a (snd (tcsetattr STDIN_FILENO (cfmakeraw ?a) t)) = t"
    by (rule tcsetattr_back) (simp split: option.split)
  have mode: "snd (tcsetattr STDIN_FILENO (cfmakeraw ?a) t) = in_mode cfmakeraw t"
    by (simp add: in_mode_def tcsetattr_def split: option.split)
  have died: "oc = Exit (errno s2)" if "client_loop c sls s1 = (Died oc, s2)" for oc s1 s2
    using that
  proof (induction sls arbitrary: s1)
    case (Cons sl sls)
    then show ?case
      by (auto simp: client_iter_def client_output_def Let_def split: prod.splits if_splits)
  qed simp
  obtain x y where lp: "client_loop c sls s = (x, y)" by fastforce
  then have "e = (case x of Returned r \<Rightarrow> Returned 0 | _ \<Rightarrow> x)" "s' = y"
    "t' = (case x of Returned r \<Rightarrow> t | _ \<Rightarrow> in_mode cfmakeraw t)"
    using assms lp restore mode by (auto simp: pty_client_def Let_def split: ending.splits)
  then show ?thesis using lp died pty_client_relay [OF assms] by (cases x) auto
qed

definition demo_session :: sys where
  "demo_session = \<lparr>errno = 0, ports = (\<lambda>fd. \<lparr>inq = (if fd = 0 then ''ls'' else if fd = 7 then ''a b'' else []),
     rsched = [], outq = [], wsched = [], is_open = True\<rparr>)\<rparr>"

definition demo_client_env :: client_env where
  "demo_client_env = \<lparr>sock = Inr 7, conn_fails = (\<lambda>_. None)\<rparr>"

theorem pty_client_session_witness:
  "\<exists>s'. pty_client demo_client_env ''c1'' demo_termios [Sel_ready {0, 7}, Sel_ready {7}] demo_ttys demo_session =
      (Returned 0, demo_ttys, s') \<and> outq (ports s' 7) = ''ls'' \<and> outq (ports s' 1) = ''a b'' \<and>
    relay_ok 7 demo_session (Returned 0) s'"
proof -
  let ?r = "pty_client demo_client_env ''c1'' demo_termios [Sel_ready {0, 7}, Sel_ready {7}] demo_ttys demo_session"
  obtain e t' s' where r: "?r = (e, t', s')" using prod_cases3 by blast
  have "e = Returned 0" "outq (ports s' 7) = ''ls''" "outq (ports s' 1) = ''a b''"
    using r by (auto simp: pty_client_def demo_client_env_def client_ready_def client_iter_def client_input_def
        client_output_def STDIN_FILENO_def STDOUT_FILENO_def sys_read_def sys_write_def rio_writen_def
        rio_writen_loop.simps demo_session_def BUF_SIZE_def FD_SETSIZE_def Let_def demo_ttys_def tcsetattr_def)
  moreover have "relay_ok 7 demo_session e s' \<and> t' = (case e of Returned r \<Rightarrow> demo_ttys | _ \<Rightarrow> in_mode cfmakeraw demo_ttys) \<and>
      (\<forall>oc. e = Died oc \<longrightarrow> oc = Exit (errno s'))"
    by (rule pty_client_session [OF _ _ _ _ r]) (simp_all add: demo_client_env_def FD_SETSIZE_def)
  ultimately show ?thesis using r by simp
qed

text \<open>A detached loop never looks at the terminal.\<close>

lemma exec_loop_detached:
  "exec_loop True c sls s = (e, s') \<Longrightarrow> c \<noteq> 0 \<Longrightarrow> c \<noteq> 1 \<Longrightarrow> ports s' 0 = ports s 0"
proof (induction sls arbitrary: s)
  case (Cons sl sls)
  have it: "ports s2 0 = ports s1 0" if "exec_iter c (R \<inter> {c}) s1 = (r, s2)" for R s1 r s2
  proof -
    have "exec_output c (R \<inter> {c}) s1 = (r, s2)"
      using that Cons.prems(2) by (simp add: exec_iter_def exec_input_def STDIN_FILENO_def)
    then show ?thesis
      using Cons.prems(2,3) sys_read_frame(1) sys_write_frame(1)
      by (fastforce simp: exec_output_def STDOUT_FILENO_def Let_def split: if_splits prod.splits)
  qed
  have step: "ports s' 0 = ports s1 0" if "(let (r, s2) = exec_iter c (R \<inter> {c}) s1 in
      if r = Running then exec_loop True c sls s2 else (r, s2)) = (e, s')" for R s1
  proof (cases "exec_iter c (R \<inter> {c}) s1")
    case (Pair r s2)
    with it [OF Pair] that Cons.IH [of s2] Cons.prems(2,3) show ?thesis by (auto split: if_splits)
  qed
  show ?case
  proof (cases sl)
    case (Sel_fail x)
    then show ?thesis using Cons.prems step [of UNIV "s\<lparr>errno := x\<rparr>"] Cons.IH [of "s\<lparr>errno := x\<rparr>"]
      by (auto simp: Let_def split: if_splits)
  next
    case (Sel_ready R)
    with Cons.prems step [of R s] show ?thesis by (simp add: Let_def)
  qed
qed simp

lemma pty_exec_attached:
  assumes fork: "ptyFork K (Some MAX_SNAME) (Some (case tty_of t STDIN_FILENO of Some a \<Rightarrow> a | None \<Rightarrow> orig))
      (Some (term_ws E)) p = Inr (pid, Some c, nm, p')" and "0 < pid" "wait_pid E = pid"
    and c: "1 < c" "c < int FD_SETSIZE"
    and lp: "exec_loop False c sls (flushed t s) = (x, s')"
  shows "pty_exec K E cmd False orig sls p t s =
    Exec_ret (case x of Returned r \<Rightarrow> Returned 0 | _ \<Rightarrow> x)
      (case x of Returned r \<Rightarrow> t | _ \<Rightarrow> in_mode raw_mode t) s'"
proof -
  let ?a = "case tty_of t STDIN_FILENO of Some a \<Rightarrow> a | None \<Rightarrow> orig"
  have mode: "snd (snd (ttySetRaw STDIN_FILENO False t s)) = (in_mode raw_mode t, flushed t s)"
    by (simp add: ttySetRaw_state in_mode_def)
  have "ttyReset ?a (in_mode raw_mode t) = t"
  proof (cases "tty_of t STDIN_FILENO")
    case None
    then show ?thesis by (simp add: in_mode_def ttyReset_def tcsetattr_def)
  next
    case (Some a)
    then show ?thesis using tcsetattr_back [where t = t and a = a and b = "raw_mode a"] by (simp add: in_mode_def)
  qed
  then show ?thesis
    using assms mode by (cases x) (simp_all add: pty_exec_def Let_def)
qed

lemma pty_exec_detached:
  assumes fork: "ptyFork K (Some MAX_SNAME) (Some (case tty_of t STDIN_FILENO of Some a \<Rightarrow> a | None \<Rightarrow> orig))
      (Some (term_ws E)) p = Inr (pid, Some c, nm, p')" and "0 < pid" "wait_pid E = pid"
    and c: "1 < c" "c < int FD_SETSIZE"
    and null: "null_fd E = Inr fd" "dup_err E = None"
    and lp: "exec_loop True c sls (sys_close fd (set_port 1 null_port (set_port fd null_port s))) = (x, s')"
  shows "pty_exec K E cmd True orig sls p t s = Exec_ret (case x of Returned r \<Rightarrow> Returned 0 | _ \<Rightarrow> x) t s'"
  using assms by (cases x) (simp_all add: pty_exec_def Let_def dumpStdOut_def STDOUT_FILENO_def)

text \<open>C19 (functional): a session of \<open>pty_exec\<close> in the parent: attached, the terminal is put into raw mode, which
  discards what was typed before and not yet read; what is typed from then on and the output are relayed as by
  \<open>pty_client\<close>, and the terminal has its own attributes again when the call returns; detached, the terminal is neither changed nor read and standard output is the null device
  from then on.\<close>

theorem pty_exec_session:
  assumes fork: "ptyFork K (Some MAX_SNAME) (Some (case tty_of t STDIN_FILENO of Some a \<Rightarrow> a | None \<Rightarrow> orig))
      (Some (term_ws E)) p = Inr (pid, Some c, nm, p')" and pid: "0 < pid" "wait_pid E = pid"
    and c: "1 < c" "c < int FD_SETSIZE" and null: "null_fd E = Inr fd" "dup_err E = None" "1 < fd" "fd \<noteq> c"
  shows "\<exists>e t' s'. pty_exec K E cmd detach orig sls p t s = Exec_ret e t' s' \<and>
    (if detach
     then t' = t \<and> ports s' 0 = ports s 0 \<and> relay_ok c (set_port 1 null_port s) e (set_port fd (ports s fd) s')
     else t' = (case e of Returned r \<Rightarrow> t | _ \<Rightarrow> in_mode raw_mode t) \<and> relay_ok c (flushed t s) e s')"
proof (cases detach)
  case False
  obtain x s' where lp: "exec_loop False c sls (flushed t s) = (x, s')" by fastforce
  then have r: "relay_ok c (flushed t s) x s'" using exec.loop_relay c(1) by simp
  from pty_exec_attached [OF fork pid c lp] False r show ?thesis
    by (cases x) (auto simp: relay_ok_def)
next
  case True
  let ?s = "sys_close fd (set_port 1 null_port (set_port fd null_port s))"
  obtain x s' where lp: "exec_loop True c sls ?s = (x, s')" by fastforce
  have "relay_ok c ?s x s'" using exec.loop_relay [OF lp] c(1) by simp
  then have "relay_ok c (set_port 1 null_port s) x (set_port fd (ports s fd) s')"
    using null(3,4) c(1) by (auto simp: relay_ok_def relayed_def sys_close_def)
  moreover have "relay_ok c (set_port 1 null_port s) x y \<Longrightarrow>
      relay_ok c (set_port 1 null_port s) (case x of Returned r \<Rightarrow> Returned 0 | _ \<Rightarrow> x) y" for y
    by (cases x) (auto simp: relay_ok_def)
  moreover have "ports s' 0 = ports s 0"
    using exec_loop_detached [OF lp] c(1) null(3) by (simp add: sys_close_def)
  ultimately show ?thesis using True pty_exec_detached [OF fork pid c null(1,2) lp] by auto
qed

definition demo_exec_env :: exec_env where
  "demo_exec_env = \<lparr>term_ws = (24, 80), exec_fails = None, null_fd = Inr 8, dup_err = None, wait_pid = 77\<rparr>"

theorem pty_exec_session_witness:
  "\<exists>e t' s'. pty_exec (demo_pty_env (In_parent 77)) demo_exec_env [''ls''] False demo_termios [Sel_ready {0}]
      demo_proc demo_ttys demo_session = Exec_ret e t' s' \<and> relay_ok 5 (flush_input 0 2 demo_session) e s'"
proof -
  have f: "ptyFork (demo_pty_env (In_parent 77)) (Some MAX_SNAME)
      (Some (case tty_of demo_ttys STDIN_FILENO of Some a \<Rightarrow> a | None \<Rightarrow> demo_termios)) (Some (term_ws demo_exec_env))
      demo_proc = Inr (77, Some 5, Some ''/dev/pts/3'', demo_proc\<lparr>p_fds := (p_fds demo_proc)(5 \<mapsto> ''/dev/ptmx'')\<rparr>)"
    by (simp add: ptyFork_def ptyMasterOpen_def demo_pty_env_def MAX_SNAME_def Let_def)
  have "wait_pid demo_exec_env = 77" "null_fd demo_exec_env = Inr 8" "dup_err demo_exec_env = None" "5 < int FD_SETSIZE"
    by (simp_all add: demo_exec_env_def FD_SETSIZE_def)
  with pty_exec_session [OF f, of 8 "[''ls'']" False "[Sel_ready {0}]" demo_session] show ?thesis
    by (auto simp: flushed_def demo_ttys_def STDIN_FILENO_def)
qed

text \<open>\<open>pty_exec\<close> reports a failed \<open>ptyFork\<close> and goes on, and so does its child when the command
  cannot be executed: both then put the terminal in raw mode and use \<open>masterFd\<close>, which was never assigned.\<close>

theorem pty_exec_uses_unassigned_master:
  assumes K: "kernel_ok K p"
    and "master_error K MAX_SNAME = Some err \<or>
      (forks K = In_child \<and> slave_error K (Some a) (Some (term_ws E)) = None \<and> setsid_fails K = None \<and> exec_fails E \<noteq> None)"
    and a: "a = (case tty_of t STDIN_FILENO of Some x \<Rightarrow> x | None \<Rightarrow> orig)"
  shows "pty_exec K E cmd False orig sls p t s = Exec_ret (Died UninitRead) (in_mode raw_mode t) (flushed t s)"
proof -
  have "\<exists>pid nm p'. ptyFork K (Some MAX_SNAME) (Some a) (Some (term_ws E)) p = Inr (pid, None, nm, p') \<and>
      (pid = 0 \<longrightarrow> exec_fails E \<noteq> None)"
    using assms(2) ptyMasterOpen_spec [OF K, of MAX_SNAME]
    by (auto simp: ptyFork_def Let_def ptyFork_child_eq slave_error_def split: sum.splits)
  then show ?thesis using a
    by (auto simp: pty_exec_def ttySetRaw_state in_mode_def Let_def)
qed

theorem pty_exec_uses_unassigned_master_witness:
  "pty_exec (demo_pty_env In_child) (demo_exec_env\<lparr>exec_fails := Some 2\<rparr>) [''ls''] False demo_termios [] demo_proc
     demo_ttys demo_session = Exec_ret (Died UninitRead) (in_mode raw_mode demo_ttys) (flushed demo_ttys demo_session)"
  by (rule pty_exec_uses_unassigned_master [OF _ _ refl])
    (simp_all add: kernel_ok_def slave_error_def demo_pty_env_def demo_proc_def demo_exec_env_def)

end
