(* ===== verification/ContainerService.thy ===== *)
theory ContainerService
  imports ContainerFs PtyClient SemUtil
begin

text \<open>
  \<open>src/util/container_service.cpp\<close> and the server of a container, \<open>pty_run_container\<close> in
  \<open>src/pty/pty_exec_util.cpp\<close>. A command works on the world of the host and of its own process; it is a
  function \<open>'a cmd\<close> that keeps the world also when the process ends in it. How the kernel answers is the
  argument \<open>P\<close>.
\<close>

section \<open>Commands\<close>

record world =
  w_file :: data_file               \<comment> \<open>the table of containers\<close>
  w_env :: dao_env                  \<comment> \<open>live processes, time\<close>
  w_host :: host                    \<comment> \<open>directories and mounts\<close>
  w_ipc :: ipc
  w_listen :: "string list"         \<comment> \<open>paths of listening sockets\<close>
  w_proc :: proc
  w_ttys :: ttys
  w_sys :: sys
  w_orig :: termios                 \<comment> \<open>the global \<open>ttyOrig\<close>\<close>
  w_out :: string                   \<comment> \<open>printed to \<open>stdout\<close>\<close>
  w_err :: string                   \<comment> \<open>printed to \<open>stderr\<close>\<close>

type_synonym 'a cmd = "world \<Rightarrow> 'a res \<times> world"

definition cret :: "'a \<Rightarrow> 'a cmd" where
  "cret x w = (Inr x, w)"

definition cfail :: "outcome \<Rightarrow> 'a cmd" where
  "cfail e w = (Inl e, w)"

definition cbind :: "'a cmd \<Rightarrow> ('a \<Rightarrow> 'b cmd) \<Rightarrow> 'b cmd" where
  "cbind m f w = (case m w of (Inl e, w') \<Rightarrow> (Inl e, w') | (Inr x, w') \<Rightarrow> f x w')"

definition cthen :: "unit cmd \<Rightarrow> 'b cmd \<Rightarrow> 'b cmd" where
  "cthen m k = cbind m (\<lambda>_. k)"

definition cget :: "(world \<Rightarrow> 'a) \<Rightarrow> 'a cmd" where
  "cget f w = (Inr (f w), w)"

definition cput :: "(world \<Rightarrow> world) \<Rightarrow> unit cmd" where
  "cput f w = (Inr (), f w)"

definition lift_res :: "'a res \<Rightarrow> 'a cmd" where
  "lift_res r w = (r, w)"

text \<open>An operation on the table or on the host, with the live processes as they are.\<close>

definition on_file :: "(dao_env \<Rightarrow> data_file \<Rightarrow> ('a \<times> data_file) res) \<Rightarrow> 'a cmd" where
  "on_file g w =
     (case g (w_env w) (w_file w) of Inl e \<Rightarrow> (Inl e, w) | Inr (x, f) \<Rightarrow> (Inr x, w\<lparr>w_file := f\<rparr>))"

definition on_file_u :: "(dao_env \<Rightarrow> data_file \<Rightarrow> data_file res) \<Rightarrow> unit cmd" where
  "on_file_u g = on_file (\<lambda>env f. rbind (g env f) (\<lambda>f'. Inr ((), f')))"

definition on_host :: "(host \<Rightarrow> ('a \<times> host) res) \<Rightarrow> 'a cmd" where
  "on_host g w = (case g (w_host w) of Inl e \<Rightarrow> (Inl e, w) | Inr (x, h) \<Rightarrow> (Inr x, w\<lparr>w_host := h\<rparr>))"

definition on_host_u :: "(host \<Rightarrow> host res) \<Rightarrow> unit cmd" where
  "on_host_u g = on_host (\<lambda>h. rbind (g h) (\<lambda>h'. Inr ((), h')))"

definition print_out :: "string \<Rightarrow> unit cmd" where
  "print_out s = cput (\<lambda>w. w\<lparr>w_out := w_out w @ s\<rparr>)"

definition print_err :: "string \<Rightarrow> unit cmd" where
  "print_err s = cput (\<lambda>w. w\<lparr>w_err := w_err w @ s\<rparr>)"

lemmas cmd_defs = cret_def cfail_def cthen_def cbind_def cget_def cput_def lift_res_def on_file_def on_file_u_def
  on_host_def on_host_u_def print_out_def print_err_def

text \<open>The answers: the JSON library, mounts and shell, semaphores, pseudo-terminals, the clients' calls, which
  processes die of a termination signal, name spaces, and the calls of the server. A container's process is the first
  one of a PID name space; \<open>P_members\<close> are the other processes of the name space whose first one is given. \<open>P_speaks\<close> says
  whether the container ever writes to its terminal or closes it.\<close>

record 'j plat =
  P_json :: "'j jsoncpp"
  P_kernel :: kernel
  P_junk :: string
  P_sem :: sem_env
  P_fork :: "int option"
  P_pty :: pty_env
  P_exec :: exec_env
  P_client :: client_env
  P_sels :: "sel list"
  P_dies :: "int \<Rightarrow> bool"
  P_members :: "int \<Rightarrow> int set"
  P_speaks :: bool
  P_ns :: "string \<Rightarrow> int + int"
  P_setns :: "int \<Rightarrow> int option"
  P_daemon :: "int option"
  P_chroot :: "string \<Rightarrow> bool"
  P_execvp :: "string \<Rightarrow> bool"
  P_socket :: "int + int"
  P_bind :: "string \<Rightarrow> int option"
  P_listen :: "int option"
  P_rounds :: "(sel \<times> acc) list"
  P_wait :: int

section \<open>The container's process\<close>

record start_opt =
  so_id :: string
  so_cmd :: "string list option"
  so_detach :: bool
  so_volumes :: "string list option"
  so_ws :: "winsize option"
  so_attr :: "termios option"

text \<open>What becomes of the child of \<open>ptyClone\<close>: it runs the command under a root directory, or returns the
  exit status. The two calls \<open>chdir\<close> and \<open>chroot\<close> are one answer.\<close>

datatype child_end = Runs string "string list" | Returns int

definition container_child :: "'j plat \<Rightarrow> start_opt \<Rightarrow> child_end hcmd" where
  "container_child P arg =
     hbind (hlift (getMergedDir (so_id arg) None)) (\<lambda>rootfs.
     hbind (mount_container_st (P_kernel P) (so_id arg)) (\<lambda>_.
     hbind (case so_volumes arg of None \<Rightarrow> hret () | Some vs \<Rightarrow> mount_volume_list_st (P_kernel P) (so_id arg) vs) (\<lambda>_.
     let root = (if P_chroot P rootfs then rootfs else ''/'') in
     case so_cmd arg of
       None \<Rightarrow> hlift (Inl NullDeref)
     | Some [] \<Rightarrow> hret (Returns 1)
     | Some (prog # args) \<Rightarrow> if P_execvp P prog then hret (Runs root (prog # args)) else hret (Returns 1))))"

section \<open>The server: \<open>pty_run_container\<close>\<close>

text \<open>\<open>ptyClone\<close> as the server sees it; the child exists from then on (until it is waited for), its mounts are
  visible on the host. An error of the child ends the child only; the mounts it has made by then stay.\<close>

definition srv_clone :: "'j plat \<Rightarrow> start_opt \<Rightarrow> (int \<times> int) cmd" where
  "srv_clone P arg w =
     (case ptyClone (P_pty P) (so_attr arg) (so_ws arg) (\<lambda>p. Inr (0, p)) (w_proc w) of
        Inl e \<Rightarrow> (Inl e, w)
      | Inr (Child_ret r) \<Rightarrow> (Inl Hangs, w)
      | Inr (Parent_ret childPid mf p) \<Rightarrow>
          (case mf of
             None \<Rightarrow> (Inl (Exit (p_errno p)), w\<lparr>w_proc := p\<rparr>)
           | Some m \<Rightarrow>
               (Inr (childPid, m),
                w\<lparr>w_proc := p, w_env := (w_env w)\<lparr>proc_alive := (proc_alive (w_env w))(childPid := True)\<rparr>\<rparr>)))"

definition srv_child :: "'j plat \<Rightarrow> start_opt \<Rightarrow> unit cmd" where
  "srv_child P arg w = (Inr (), w\<lparr>w_host := snd (container_child P arg (w_host w))\<rparr>)"

text \<open>The first \<open>read\<close> of the master waits until the container writes something, or nobody has the terminal open any
  more; \<open>srv_read\<close> is the call when it does not have to wait.\<close>

definition srv_read :: "int \<Rightarrow> (int \<times> string) cmd" where
  "srv_read m w = (let (n, bs, s) = sys_read m BUF_SIZE (w_sys w) in (Inr (n, bs), w\<lparr>w_sys := s\<rparr>))"

definition srv_header :: "'j plat \<Rightarrow> int \<Rightarrow> (int \<times> string) cmd" where
  "srv_header P m = (if P_speaks P then srv_read m else cfail Hangs)"

definition srv_listen :: "'j plat \<Rightarrow> string \<Rightarrow> int cmd" where
  "srv_listen P ctr =
     (case P_socket P of
        Inl e \<Rightarrow> cfail (Exit e)
      | Inr fd \<Rightarrow>
          (case P_bind P (sun_path ctr) of
             Some e \<Rightarrow> cfail (Exit e)
           | None \<Rightarrow>
               (case P_listen P of
                  Some e \<Rightarrow> cfail (Exit e)
                | None \<Rightarrow> cthen (cput (\<lambda>w. w\<lparr>w_listen := sun_path ctr # w_listen w\<rparr>)) (cret fd))))"

definition srv_notify :: "int \<Rightarrow> unit cmd" where
  "srv_notify synchSem = cput (\<lambda>w. w\<lparr>w_ipc := snd (sem_set synchSem 0 (w_ipc w))\<rparr>)"

text \<open>A round of the \<open>select\<close> loop, and the loop over the rounds of \<open>P\<close>; when they do not end it, it goes on for ever.\<close>

definition srv_serve :: "int \<Rightarrow> (int \<times> string) \<Rightarrow> sel \<times> acc \<Rightarrow> pool \<Rightarrow> (bool \<times> pool) cmd" where
  "srv_serve fd header inp p w =
     (case server_iter fd header inp p (w_sys w) of
        Inl e \<Rightarrow> (Inl e, w)
      | Inr (done, p', s) \<Rightarrow> (Inr (done, p'), w\<lparr>w_sys := s\<rparr>))"

definition srv_loop :: "'j plat \<Rightarrow> int \<Rightarrow> (int \<times> string) \<Rightarrow> pool \<Rightarrow> unit cmd" where
  "srv_loop P fd header p w =
     (case server_loop fd header (P_rounds P) p (w_sys w) of
        Inl e \<Rightarrow> (Inl e, w)
      | Inr (done, p', s) \<Rightarrow> (if done then Inr () else Inl Hangs, w\<lparr>w_sys := s\<rparr>))"

text \<open>\<open>umount_container\<close> on the world.\<close>

definition c_umount :: "'j plat \<Rightarrow> string \<Rightarrow> unit cmd" where
  "c_umount P ctr w =
     (case umount_container (P_json P) (w_env w) (P_kernel P) (P_junk P) ctr (w_host w) (w_file w) of
        (r, h, f) \<Rightarrow> (r, w\<lparr>w_host := h, w_file := f\<rparr>))"

lemma c_umount_frame:
  "c_umount P ctr w = (r, w') \<Longrightarrow> w_env w' = w_env w \<and> w_ipc w' = w_ipc w \<and> w_listen w' = w_listen w"
  by (auto simp: c_umount_def split: prod.splits)

lemma c_umount_never: "fst (c_umount P ctr w) \<noteq> Inr ()"
  by (auto simp: c_umount_def umount_container_def umount_volume_list_def split: prod.splits sum.splits option.splits)

text \<open>A process that has ended is gone once it is reaped. When it was the first one of its name space, the kernel has
  ended the others of the name space before.\<close>

definition reap :: "'j plat \<Rightarrow> int \<Rightarrow> unit cmd" where
  "reap P p = cput (\<lambda>w. w\<lparr>w_env := (w_env w)\<lparr>proc_alive :=
     (\<lambda>x. proc_alive (w_env w) x \<and> x \<noteq> p \<and> x \<notin> P_members P p)\<rparr>\<rparr>)"

lemma reap_env [simp]:
  "writable (w_env (snd (reap P p w))) = writable (w_env w)" "now (w_env (snd (reap P p w))) = now (w_env w)"
  "proc_alive (w_env (snd (reap P p w))) x \<longleftrightarrow> proc_alive (w_env w) x \<and> x \<noteq> p \<and> x \<notin> P_members P p"
  "fst (reap P p w) = Inr ()"
  by (simp_all add: reap_def cput_def)

definition srv_finish :: "'j plat \<Rightarrow> string \<Rightarrow> int \<Rightarrow> unit cmd" where
  "srv_finish P ctr childPid =
     cthen (reap P (P_wait P))
      (if P_wait P \<noteq> childPid then cfail AssertFail
       else cthen (c_umount P ctr) (on_file_u (\<lambda>env. change_status_to_stop (P_json P) env ctr)))"

definition pool0 :: pool where
  "pool0 = \<lparr>maxfd = 0, read_set = {}, ready_set = {}, nready = 0, maxi = 0, clientfd = [], masterfd = 0\<rparr>"

text \<open>The server up to the notification: the child, the listening socket, the header and the pool.\<close>

definition srv_setup :: "'j plat \<Rightarrow> start_opt \<Rightarrow> int \<Rightarrow> (int \<Rightarrow> unit cmd) \<Rightarrow> (int \<times> int \<times> (int \<times> string) \<times> pool) cmd" where
  "srv_setup P arg synchSem callback =
     cbind (srv_clone P arg) (\<lambda>(childPid, masterFd).
     cthen (srv_child P arg)
    (cbind (srv_header P masterFd) (\<lambda>header.
     cthen (callback childPid)
    (cbind (srv_listen P (so_id arg)) (\<lambda>listenfd.
     cbind (lift_res (init_pool listenfd masterFd pool0)) (\<lambda>p.
     cthen (srv_notify synchSem) (cret (childPid, listenfd, header, p))))))))"

definition pty_run_container :: "'j plat \<Rightarrow> start_opt \<Rightarrow> int \<Rightarrow> (int \<Rightarrow> unit cmd) \<Rightarrow> int cmd" where
  "pty_run_container P arg synchSem callback =
     cbind (srv_setup P arg synchSem callback) (\<lambda>(childPid, listenfd, header, p).
     cthen (srv_loop P listenfd header p)
    (cthen (srv_finish P (so_id arg) childPid) (cret 0)))"

section \<open>\<open>ContainerService\<close>\<close>

text \<open>\<open>start\<close> as the caller sees it: the server is another process and shares the host. The caller waits for
  the semaphore, which the server sets once it listens; when the server ends before that, the wait does not
  end. \<open>srv_state\<close> is what of the server's world the caller shares.\<close>

definition srv_state :: "world \<Rightarrow> world \<Rightarrow> world" where
  "srv_state s w =
     w\<lparr>w_file := w_file s, w_env := w_env s, w_host := w_host s, w_ipc := w_ipc s, w_listen := w_listen s\<rparr>"

text \<open>\<open>pty_client\<close> on the world of the caller.\<close>

definition c_client :: "'j plat \<Rightarrow> string \<Rightarrow> unit cmd" where
  "c_client P ctr w =
     (case pty_client (P_client P) ctr (w_orig w) (P_sels P) (w_ttys w) (w_sys w) of
        (e, t, s) \<Rightarrow>
          (case e of Running \<Rightarrow> Inl Hangs | Died oc \<Rightarrow> Inl oc | Returned r \<Rightarrow> Inr (),
           w\<lparr>w_ttys := t, w_sys := s,
             w_orig := (case tty_of (w_ttys w) STDIN_FILENO of Some a \<Rightarrow> a | None \<Rightarrow> w_orig w)\<rparr>))"

definition NL :: string where "NL = [CHR 0x0A]"

definition service_start :: "'j plat \<Rightarrow> start_opt \<Rightarrow> (int \<Rightarrow> unit cmd) \<Rightarrow> unit cmd" where
  "service_start P opt startSuccess w =
     (case sem_get (P_sem P) IPC_PRIVATE 1 (w_ipc w) of
        None \<Rightarrow> (Inl Hangs, w)
      | Some (Inl e) \<Rightarrow> (Inl e, w)
      | Some (Inr (synchSem, i)) \<Rightarrow>
          (let w1 = w\<lparr>w_ipc := i\<rparr> in
           case P_fork P of
             Some e \<Rightarrow> (Inl (Exit e), w1)
           | None \<Rightarrow>
               (case srv_setup P opt synchSem startSuccess w1 of
                  (r, s) \<Rightarrow>
                    (case sem_zero synchSem [Others (w_ipc s)] (w_ipc w1) of
                       None \<Rightarrow> (Inl Hangs, srv_state s w1)
                     | Some (z, i') \<Rightarrow>
                         (let w2 = (srv_state s w1)\<lparr>w_ipc := i'\<rparr> in
                          if \<not> so_detach opt then c_client P (so_id opt) w2
                          else print_out (so_id opt @ NL) w2)))))"

definition SIGKILL :: int where "SIGKILL = 9"
definition SIGTERM :: int where "SIGTERM = 15"

text \<open>\<open>kill\<close>: fails for a process that does not exist; the killed process, with those of its name space, is gone
  from \<open>/proc\<close> when the caller looks next (the server reaps it).\<close>

definition sys_kill :: "'j plat \<Rightarrow> int \<Rightarrow> int \<Rightarrow> int cmd" where
  "sys_kill P p sig w =
     (if \<not> proc_alive (w_env w) p then (Inr (-1), w)
      else if sig = SIGKILL \<or> (sig = SIGTERM \<and> P_dies P p) then (Inr 0, snd (reap P p w))
      else (Inr 0, w))"

definition service_stop :: "'j plat \<Rightarrow> string \<Rightarrow> unit cmd" where
  "service_stop P name =
     cbind (on_file (\<lambda>env. get_container_by_id_or_name (P_json P) env name)) (\<lambda>info.
     case info of
       None \<Rightarrow> print_err (''Container '' @ name @ '' not found!'' @ NL)
     | Some c \<Rightarrow>
         if status c \<noteq> CONTAINER_RUNNING
         then print_err (''Conatiner '' @ name @ '' is not in running status!'' @ NL)
         else cbind (sys_kill P (pid c) SIGTERM) (\<lambda>r.
              if r \<noteq> 0 then cret ()
              else cbind (sys_kill P (pid c) SIGKILL) (\<lambda>_. cret ())))"

record exec_opt =
  eo_id :: string
  eo_pid :: int
  eo_cmd :: "string list"
  eo_detach :: bool

fun join_ns :: "'j plat \<Rightarrow> int \<Rightarrow> string list \<Rightarrow> unit cmd" where
  "join_ns P p [] = cret ()"
| "join_ns P p (n # ns) =
     cbind (lift_res (sprintf 1024 (''/proc/'' @ show_int p @ ''/ns/'' @ n))) (\<lambda>nspath.
     case P_ns P nspath of
       Inl e \<Rightarrow> cfail (Exit e)
     | Inr fd \<Rightarrow>
         (case P_setns P fd of
            Some e \<Rightarrow> cfail (Exit e)
          | None \<Rightarrow> join_ns P p ns))"

text \<open>\<open>pty_exec\<close> on the world of the caller: an image that replaces the process is no return.\<close>

definition c_exec :: "'j plat \<Rightarrow> string list \<Rightarrow> bool \<Rightarrow> unit cmd" where
  "c_exec P cmd detach w =
     (case pty_exec (P_pty P) (P_exec P) cmd detach (w_orig w) (P_sels P) (w_proc w) (w_ttys w) (w_sys w) of
        Exec_image c \<Rightarrow> (Inl Hangs, w)
      | Exec_ret e t s \<Rightarrow>
          (case e of Running \<Rightarrow> Inl Hangs | Died oc \<Rightarrow> Inl oc | Returned r \<Rightarrow> Inr (),
           w\<lparr>w_ttys := t, w_sys := s\<rparr>))"

definition service_exec :: "'j plat \<Rightarrow> exec_opt \<Rightarrow> unit cmd" where
  "service_exec P opt =
     cthen (if eo_detach opt then (case P_daemon P of Some e \<Rightarrow> cfail (Exit e) | None \<Rightarrow> cret ()) else cret ())
    (cthen (join_ns P (eo_pid opt) [''pid'', ''mnt''])
           (c_exec P (eo_cmd opt) (eo_detach opt)))"

section \<open>Handlers\<close>

text \<open>\<open>exitHandler\<close> and \<open>sigchld_handler\<close> with the global \<open>containerId\<close>; the latter over the children that
  \<open>waitpid\<close> reports.\<close>

definition exitHandler :: "'j plat \<Rightarrow> string option \<Rightarrow> unit cmd" where
  "exitHandler P containerId =
     (case containerId of
        None \<Rightarrow> cret ()
      | Some ctr \<Rightarrow> cthen (c_umount P ctr) (on_file_u (\<lambda>env. change_status_to_stop (P_json P) env ctr)))"

datatype wstatus = WExited int | WSignaled int | WStopped int | WContinued

fun sigchld_handler :: "'j plat \<Rightarrow> (int \<times> wstatus) list \<Rightarrow> string option \<Rightarrow> string option cmd" where
  "sigchld_handler P [] containerId = cret containerId"
| "sigchld_handler P ((p, st) # evs) containerId =
     (case st of
        WExited _ \<Rightarrow>
          (case containerId of
             None \<Rightarrow> sigchld_handler P evs containerId
           | Some ctr \<Rightarrow>
               cthen (c_umount P ctr)
              (cthen (on_file_u (\<lambda>env. change_status_to_stop (P_json P) env ctr)) (sigchld_handler P evs None)))
      | _ \<Rightarrow> sigchld_handler P evs containerId)"

section \<open>Properties\<close>

text \<open>when \<open>chdir\<close> or \<open>chroot\<close> fails the container's process only reports it and executes the
  command all the same: not under the container's root but under the host's.\<close>

theorem chroot_failure_runs_on_host:
  assumes "mount_container (P_kernel P) ctr h = Inr h1" and "length ctr < 990" and "P_execvp P prog"
  shows "container_child P \<lparr>so_id = ctr, so_cmd = Some (prog # args), so_detach = d, so_volumes = None, so_ws = ws, so_attr = a\<rparr> h =
    (Inr (Runs (if P_chroot P (layer_path ctr @ ''/merged'') then layer_path ctr @ ''/merged'' else ''/'') (prog # args)), h1)"
proof -
  have "mount_container_st (P_kernel P) ctr h = (Inr (), h1)"
    using assms(1) by (auto simp: mount_container_def done_host_def split: prod.splits sum.splits)
  then show ?thesis using assms by (simp add: container_child_def path_results hbind_def hlift_def hret_def)
qed

lemma service_stop_running:
  assumes lib: "json_library (P_json P) jdoc jtext" and tab: "dao_state (P_json P) jtext (w_file w) cs"
    and "writable (w_env w)" "find (matches v) cs = Some c" "status c = CONTAINER_RUNNING" "proc_alive (w_env w) (pid c)"
  shows "\<exists>f. service_stop P v w = (Inr (), (snd (reap P (pid c) w))\<lparr>w_file := f\<rparr>) \<and> dao_state (P_json P) jtext f cs"
proof -
  note store = container_store.lookup_law [OF json_library.dao_store [OF lib] tab assms(3), of v]
  have sync: "sync_info (w_env w) c = c" using assms(5,6) by (simp add: sync_info_def)
  have "upd_first (matches v) (sync_info (w_env w)) cs = cs"
    using assms(4) sync by (induction cs) (auto split: if_splits)
  with store assms(4) sync obtain f where
    f: "get_container_by_id_or_name (P_json P) (w_env w) v (w_file w) = Inr (Some c, f)"
    "dao_state (P_json P) jtext f cs" by auto
  have "service_stop P v w = (Inr (), (snd (reap P (pid c) w))\<lparr>w_file := f\<rparr>)"
    using f(1) assms(5,6)
    by (auto simp: service_stop_def cmd_defs sys_kill_def reap_def SIGTERM_def SIGKILL_def)
  with f(2) show ?thesis by blast
qed

text \<open>C13 (functional): \<open>ContainerService::stop\<close> of a running container ends the processes of the container, that is
  the recorded one and with it every other of its PID name space, and no process besides, whether
  or not the recorded process gives in to the termination signal; the table is as before the call, and whoever looks
  the container up next sees it stopped.\<close>

theorem stop_ends_exactly_one:
  assumes lib: "json_library (P_json P) jdoc jtext" and tab: "dao_state (P_json P) jtext (w_file w) cs"
    and "writable (w_env w)" "find (matches v) cs = Some c" "status c = CONTAINER_RUNNING" "proc_alive (w_env w) (pid c)"
  shows "\<exists>w' f. service_stop P v w = (Inr (), w') \<and> dao_state (P_json P) jtext (w_file w') cs \<and>
    (\<forall>p. proc_alive (w_env w') p \<longleftrightarrow> proc_alive (w_env w) p \<and> p \<noteq> pid c \<and> p \<notin> P_members P (pid c)) \<and>
    get_container_by_id_or_name (P_json P) (w_env w') v (w_file w') =
      Inr (Some (c\<lparr>status := CONTAINER_STOPED, pid := 0\<rparr>), f)"
proof -
  from service_stop_running [OF assms] obtain f where
    s: "service_stop P v w = (Inr (), (snd (reap P (pid c) w))\<lparr>w_file := f\<rparr>)" "dao_state (P_json P) jtext f cs" by blast
  let ?w = "(snd (reap P (pid c) w))\<lparr>w_file := f\<rparr>"
  have env: "w_env ?w = w_env (snd (reap P (pid c) w))" by simp
  have "sync_info (w_env ?w) c = c\<lparr>status := CONTAINER_STOPED, pid := 0\<rparr>"
    using assms(5) by (simp add: sync_info_def env)
  with container_store.lookup_law [OF json_library.dao_store [OF lib] s(2), of "w_env ?w" v] assms(3,4)
  obtain f' where "get_container_by_id_or_name (P_json P) (w_env ?w) v f =
      Inr (Some (c\<lparr>status := CONTAINER_STOPED, pid := 0\<rparr>), f')" by (auto simp: env)
  with s env show ?thesis by (intro exI [of _ ?w] exI [of _ f']) simp
qed

text \<open>A world and answers to look at.\<close>

definition demo_plat :: "jv plat" where
  "demo_plat = \<lparr>P_json = json_impl, P_kernel = demo_kernel, P_junk = [], P_sem = demo_sem_env, P_fork = None,
     P_pty = demo_pty_env (In_parent 7), P_exec = demo_exec_env, P_client = demo_client_env, P_sels = [],
     P_dies = (\<lambda>_. False), P_members = (\<lambda>p. if p = 7 then {8, 9} else {}), P_speaks = True, P_ns = (\<lambda>_. Inr 3), P_setns = (\<lambda>_. None), P_daemon = None, P_chroot = (\<lambda>_. False),
     P_execvp = (\<lambda>_. True), P_socket = Inr 6, P_bind = (\<lambda>_. None), P_listen = None,
     P_rounds = [(Sel_ready {5}, Inl 0)], P_wait = 7\<rparr>"

definition demo_world :: "data_file \<Rightarrow> world" where
  "demo_world f = \<lparr>w_file = f, w_env = demo_env, w_host = demo_host, w_ipc = demo_ipc 1, w_listen = [],
     w_proc = demo_proc, w_ttys = demo_ttys, w_sys = demo_session, w_orig = demo_termios, w_out = [], w_err = []\<rparr>"

abbreviation live_info :: container_info where
  "live_info \<equiv> demo_info\<lparr>pid := 7\<rparr>"

definition live_file :: data_file where
  "live_file = (case dao_insert json_impl demo_env live_info None of Inr f \<Rightarrow> f | Inl _ \<Rightarrow> None)"

lemma live_file_state: "dao_state json_impl text_jv live_file [live_info]"
proof -
  have "storable text_jv live_info" by (simp add: storable_def text_jv_def empty_info_def is_int32_def is_set_def)
  moreover have "norm_info live_info = live_info" by (simp add: norm_info_def to_int32_def empty_info_def)
  ultimately show ?thesis using jimpl.store.insert_law [OF jimpl.no_file, of live_info demo_env]
    by (auto simp: live_file_def)
qed

lemma live_find: "find (matches ''web'') [live_info] = Some live_info"
  by (simp add: empty_info_def)

theorem stop_ends_exactly_one_witness:
  "\<exists>w'. service_stop demo_plat ''web'' (demo_world live_file) = (Inr (), w') \<and> \<not> proc_alive (w_env w') 7"
proof -
  have j: "P_json demo_plat = json_impl" by (simp add: demo_plat_def)
  have w: "w_file (demo_world live_file) = live_file" "w_env (demo_world live_file) = demo_env"
    by (simp_all add: demo_world_def)
  from stop_ends_exactly_one [of demo_plat doc_jv text_jv "demo_world live_file", unfolded j w,
      OF jimpl.json_library_axioms live_file_state _ live_find] show ?thesis by (auto simp: empty_info_def)
qed

end
