(* ===== verification/ContainerId.thy ===== *)
theory ContainerId
  imports Prelude "HOL-Library.Word"
begin

text \<open>
  Identifiers of containers: \<open>ContainerDao::gen_id\<close> prints a random UUID made by \<open>src/include/sole.h\<close>
  (\<open>uuid4\<close> and \<open>uuid::str\<close>). The two random numbers are arguments.
\<close>

unbundle bit_operations_syntax

datatype uuid = Uuid (ab: "64 word") (cd: "64 word")

text \<open>The comparisons of \<open>sole::uuid\<close>: its \<open>==\<close> is equality, its \<open><\<close> a linear order.\<close>

definition uuid_less :: "uuid \<Rightarrow> uuid \<Rightarrow> bool" where
  "uuid_less u v =
     (if ab u < ab v then True else if ab u > ab v then False else if cd u < cd v then True else False)"

instantiation uuid :: linorder
begin

definition less_uuid :: "uuid \<Rightarrow> uuid \<Rightarrow> bool" where
  "less_uuid = uuid_less"

definition less_eq_uuid :: "uuid \<Rightarrow> uuid \<Rightarrow> bool" where
  "less_eq_uuid u v \<longleftrightarrow> u = v \<or> uuid_less u v"

instance
  by standard (auto simp: less_uuid_def less_eq_uuid_def uuid_less_def uuid.expand split: if_splits)

end

definition uuid4 :: "64 word \<Rightarrow> 64 word \<Rightarrow> uuid" where
  "uuid4 r1 r2 =
     Uuid ((r1 AND 0xFFFFFFFFFFFF0FFF) OR 0x0000000000004000)
       ((r2 AND 0x3FFFFFFFFFFFFFFF) OR 0x8000000000000000)"

definition hex_digit :: "nat \<Rightarrow> char" where
  "hex_digit d = (if d < 10 then char_of (48 + d) else char_of (87 + d))"

fun show_hex :: "nat \<Rightarrow> string" where
  "show_hex n = (if n < 16 then [hex_digit n] else show_hex (n div 16) @ [hex_digit (n mod 16)])"

declare show_hex.simps [simp del]

text \<open>\<open>std::setw(k)\<close> with the fill character 0.\<close>

definition setw :: "nat \<Rightarrow> nat \<Rightarrow> string" where
  "setw k n = replicate (k - length (show_hex n)) (CHR ''0'') @ show_hex n"

definition uuid_str :: "uuid \<Rightarrow> string" where
  "uuid_str u =
     (let a = ucast (drop_bit 32 (ab u)) :: 32 word;
          b = ucast (ab u AND 0xFFFFFFFF) :: 32 word;
          c = ucast (drop_bit 32 (cd u)) :: 32 word;
          d = ucast (cd u AND 0xFFFFFFFF) :: 32 word in
      setw 8 (unat a) @ ''-'' @ setw 4 (unat (drop_bit 16 b)) @ ''-'' @ setw 4 (unat (b AND 0xFFFF)) @ ''-'' @
      setw 4 (unat (drop_bit 16 c)) @ ''-'' @ setw 4 (unat (c AND 0xFFFF)) @ setw 8 (unat d))"

definition gen_id :: "64 word \<Rightarrow> 64 word \<Rightarrow> string" where
  "gen_id r1 r2 = uuid_str (uuid4 r1 r2)"

section \<open>Hexadecimal numbers of a fixed width\<close>

definition hex_char :: "char \<Rightarrow> bool" where
  "hex_char c \<longleftrightarrow> (\<exists>d < 16. c = hex_digit d)"

lemma setw_0: "0 < k \<Longrightarrow> setw k 0 = replicate k (CHR ''0'')"
proof -
  have "hex_digit 0 = CHR ''0''" by code_simp
  then show "0 < k \<Longrightarrow> ?thesis" by (cases k) (simp_all add: setw_def show_hex.simps replicate_append_same)
qed

lemma show_hex_len: "n < 16 ^ k \<Longrightarrow> 0 < k \<Longrightarrow> length (show_hex n) \<le> k"
proof (induction k arbitrary: n)
  case (Suc k)
  show ?case
  proof (cases "n < 16")
    case True
    then show ?thesis by (simp add: show_hex.simps [of n])
  next
    case False
    then have "k > 0" using Suc.prems by (cases k) auto
    moreover have "n div 16 < 16 ^ k" using Suc.prems by (simp add: less_mult_imp_div_less mult.commute)
    ultimately have "length (show_hex (n div 16)) \<le> k" using Suc.IH by blast
    with False show ?thesis by (simp add: show_hex.simps [of n])
  qed
qed simp

lemma setw_Suc:
  assumes "n < 16 ^ Suc k" "0 < k"
  shows "setw (Suc k) n = setw k (n div 16) @ [hex_digit (n mod 16)]"
proof (cases "n < 16")
  case True
  then have "setw (Suc k) n = replicate k (CHR ''0'') @ [hex_digit n]" by (simp add: setw_def show_hex.simps [of n])
  with True setw_0 [OF assms(2)] show ?thesis by simp
next
  case False
  have "n div 16 < 16 ^ k" using assms by (simp add: less_mult_imp_div_less mult.commute)
  then have "length (show_hex (n div 16)) \<le> k" using show_hex_len assms(2) by blast
  then show ?thesis using False by (simp add: setw_def show_hex.simps [of n])
qed

lemma setw_1: "n < 16 \<Longrightarrow> setw 1 n = [hex_digit n]"
  by (simp add: setw_def show_hex.simps [of n])

lemma setw_hex: "n < 16 ^ k \<Longrightarrow> 0 < k \<Longrightarrow> length (setw k n) = k \<and> (\<forall>c \<in> set (setw k n). hex_char c)"
proof (induction k arbitrary: n)
  case (Suc k)
  show ?case
  proof (cases "k = 0")
    case True
    then show ?thesis using Suc.prems setw_1 [of n] by (auto simp: hex_char_def)
  next
    case False
    then have "n div 16 < 16 ^ k" using Suc.prems by (simp add: less_mult_imp_div_less mult.commute)
    with Suc.IH False have "length (setw k (n div 16)) = k \<and> (\<forall>c \<in> set (setw k (n div 16)). hex_char c)" by simp
    moreover have "hex_char (hex_digit (n mod 16))"
      unfolding hex_char_def by (intro exI [of _ "n mod 16"]) simp
    ultimately show ?thesis using setw_Suc Suc.prems False by simp
  qed
qed simp

lemma setw_4_head: "n < 16 ^ 4 \<Longrightarrow> hd (setw 4 n) = hex_digit (n div 4096)"
proof -
  assume n: "n < 16 ^ 4"
  have s: "Suc 3 = (4 :: nat)" "Suc 2 = (3 :: nat)" "Suc 1 = (2 :: nat)" by simp_all
  have d: "n div 16 div 16 = n div 256" "n div 256 div 16 = n div 4096"
    by (simp_all only: div_mult2_eq [symmetric]) simp_all
  have "setw 4 n = setw 3 (n div 16) @ [hex_digit (n mod 16)]"
    using setw_Suc [of n 3] n unfolding s by simp
  also have "setw 3 (n div 16) = setw 2 (n div 256) @ [hex_digit (n div 16 mod 16)]"
    using setw_Suc [of "n div 16" 2] n unfolding s d by simp
  also have "setw 2 (n div 256) = setw 1 (n div 4096) @ [hex_digit (n div 256 mod 16)]"
    using setw_Suc [of "n div 256" 1] n unfolding s d by simp
  also have "setw 1 (n div 4096) = [hex_digit (n div 4096)]" using setw_1 [of "n div 4096"] n by simp
  finally show ?thesis by simp
qed

section \<open>The fixed bits\<close>

lemma version_bits: "drop_bit 12 ((r AND 0xFFFFFFFFFFFF0FFF OR 0x4000) AND 0xFFFF) = (4 :: 64 word)" for r :: "64 word"
proof (rule bit_eqI)
  fix n
  show "bit (drop_bit 12 ((r AND 0xFFFFFFFFFFFF0FFF OR 0x4000) AND 0xFFFF)) n = bit (4 :: 64 word) n"
  proof (cases "n < 4")
    case True
    then have "n = 0 \<or> n = 1 \<or> n = 2 \<or> n = 3" by auto
    then show ?thesis by (elim disjE) (simp_all add: bit_simps)
  next
    case False
    have "\<not> bit (15 :: 64 word) n"
      using False mask_eq_exp_minus_1 [of 4, where 'a = "64 word"] bit_mask_iff [of 4 n, where 'a = "64 word"] by simp
    moreover have "\<not> bit (4 :: 64 word) n" using False bit_exp_iff [of 2 n, where 'a = "64 word"] by auto
    ultimately show ?thesis by (auto simp: bit_simps)
  qed
qed

lemma variant_bits: "drop_bit 62 (r AND 0x3FFFFFFFFFFFFFFF OR 0x8000000000000000) = (2 :: 64 word)" for r :: "64 word"
proof (rule bit_eqI)
  fix n
  show "bit (drop_bit 62 (r AND 0x3FFFFFFFFFFFFFFF OR 0x8000000000000000)) n = bit (2 :: 64 word) n"
  proof (cases "n < 2")
    case True
    then have "n = 0 \<or> n = 1" by auto
    then show ?thesis by (elim disjE) (simp_all add: bit_simps)
  next
    case False
    have "\<not> bit (2 :: 64 word) n" using False bit_exp_iff [of 1 n, where 'a = "64 word"] by auto
    moreover have "\<not> bit (x :: 64 word) (62 + n)" for x using False bit_imp_le_length [of x "62 + n"] by auto
    ultimately show ?thesis by (simp add: bit_drop_bit_eq)
  qed
qed

lemma low_bits: "(x AND 0xFFFF) = take_bit 16 x" for x :: "'a::len word"
proof -
  have "mask 16 = (0xFFFF :: 'a word)" by (simp add: mask_eq_exp_minus_1)
  then show ?thesis by (simp add: take_bit_eq_mask)
qed

lemma low_bits32: "(x AND 0xFFFFFFFF) = take_bit 32 x" for x :: "'a::len word"
proof -
  have "mask 32 = (0xFFFFFFFF :: 'a word)" by (simp add: mask_eq_exp_minus_1)
  then show ?thesis by (simp add: take_bit_eq_mask)
qed

lemma unat_drop: "unat (drop_bit n x) = unat x div 2 ^ n" for x :: "'a::len word"
  by (subst unat_drop_bit_eq) (rule drop_bit_eq_div)

lemma unat_take: "unat (take_bit n x) = unat x mod 2 ^ n" for x :: "'a::len word"
  by (subst unsigned_take_bit_eq) (rule take_bit_eq_mod)

lemma unat_parts:
  fixes x :: "64 word"
  shows "unat (ucast (drop_bit 32 x) :: 32 word) = unat x div 2 ^ 32"
    and "unat (ucast (x AND 0xFFFFFFFF) :: 32 word) = unat x mod 2 ^ 32"
proof -
  have "unat x < 2 ^ 64" using unsigned_less [of x] by simp
  then have "unat x div 2 ^ 32 < 2 ^ 32" by (simp add: less_mult_imp_div_less)
  moreover have "unat (drop_bit 32 x) = unat x div 2 ^ 32" by (rule unat_drop)
  ultimately show "unat (ucast (drop_bit 32 x) :: 32 word) = unat x div 2 ^ 32"
    unfolding unsigned_ucast_eq take_bit_eq_mod by simp
  show "unat (ucast (x AND 0xFFFFFFFF) :: 32 word) = unat x mod 2 ^ 32"
  proof -
    have "unat (x AND 0xFFFFFFFF) = unat x mod 2 ^ 32" unfolding low_bits32 by (rule unat_take)
    then show ?thesis unfolding unsigned_ucast_eq take_bit_eq_mod by simp
  qed
qed

lemma uuid_str_nat:
  "uuid_str u =
     setw 8 (unat (ab u) div 2 ^ 32) @ ''-'' @ setw 4 (unat (ab u) mod 2 ^ 32 div 2 ^ 16) @ ''-'' @
     setw 4 (unat (ab u) mod 2 ^ 16) @ ''-'' @ setw 4 (unat (cd u) div 2 ^ 48) @ ''-'' @
     setw 4 (unat (cd u) div 2 ^ 32 mod 2 ^ 16) @ setw 8 (unat (cd u) mod 2 ^ 32)"
proof -
  have hi: "unat (drop_bit 16 y) = unat y div 2 ^ 16" for y :: "32 word"
    by (rule unat_drop)
  have lo: "unat (y AND 0xFFFF) = unat y mod 2 ^ 16" for y :: "32 word"
    unfolding low_bits by (rule unat_take)
  have m: "x mod 2 ^ 32 mod 2 ^ 16 = x mod 2 ^ 16" for x :: nat by (simp add: mod_mod_cancel)
  have d: "x div 2 ^ 32 div 2 ^ 16 = x div 2 ^ 48" for x :: nat by (simp add: div_mult2_eq [symmetric])
  show ?thesis unfolding uuid_str_def Let_def hi lo unat_parts m d ..
qed

lemma uuid4_nat:
  "unat (ab (uuid4 r1 r2)) mod 2 ^ 16 div 4096 = 4"
  "unat (cd (uuid4 r1 r2)) div 2 ^ 60 \<in> {8, 9, 10, 11}"
proof -
  let ?a = "ab (uuid4 r1 r2)" and ?c = "cd (uuid4 r1 r2)"
  have "unat (drop_bit 12 (?a AND 0xFFFF)) = 4" using version_bits [of r1] by (simp add: uuid4_def)
  moreover have "unat (drop_bit 12 (?a AND 0xFFFF)) = unat ?a mod 2 ^ 16 div 2 ^ 12"
    unfolding unat_drop low_bits unat_take ..
  ultimately show "unat ?a mod 2 ^ 16 div 4096 = 4" by simp
  have "unat (drop_bit 62 ?c) = 2" using variant_bits [of r2] by (simp add: uuid4_def)
  moreover have "unat (drop_bit 62 ?c) = unat ?c div 2 ^ 62" by (rule unat_drop)
  ultimately have "unat ?c div 2 ^ 60 div 4 = 2" by (simp add: div_mult2_eq [symmetric])
  then have "8 \<le> unat ?c div 2 ^ 60" "unat ?c div 2 ^ 60 < 12" by linarith+
  then show "unat ?c div 2 ^ 60 \<in> {8, 9, 10, 11}" by auto
qed

text \<open>The six numbers that are printed, within their widths.\<close>

lemma gen_id_groups:
  fixes r1 r2 :: "64 word"
  defines "a \<equiv> unat (ab (uuid4 r1 r2))" and "c \<equiv> unat (cd (uuid4 r1 r2))"
  shows "gen_id r1 r2 = setw 8 (a div 2 ^ 32) @ ''-'' @ setw 4 (a mod 2 ^ 32 div 2 ^ 16) @ ''-'' @ setw 4 (a mod 2 ^ 16) @
      ''-'' @ setw 4 (c div 2 ^ 48) @ ''-'' @ setw 4 (c div 2 ^ 32 mod 2 ^ 16) @ setw 8 (c mod 2 ^ 32)"
    and "a div 2 ^ 32 < 16 ^ 8" "a mod 2 ^ 32 div 2 ^ 16 < 16 ^ 4" "a mod 2 ^ 16 < 16 ^ 4"
      "c div 2 ^ 48 < 16 ^ 4" "c div 2 ^ 32 mod 2 ^ 16 < 16 ^ 4" "c mod 2 ^ 32 < 16 ^ 8"
proof -
  have lt: "a < 2 ^ 64" "c < 2 ^ 64"
    using unsigned_less [of "ab (uuid4 r1 r2)"] unsigned_less [of "cd (uuid4 r1 r2)"] by (simp_all add: a_def c_def)
  then show "a div 2 ^ 32 < 16 ^ 8" "a mod 2 ^ 32 div 2 ^ 16 < 16 ^ 4" "a mod 2 ^ 16 < 16 ^ 4"
      "c div 2 ^ 48 < 16 ^ 4" "c div 2 ^ 32 mod 2 ^ 16 < 16 ^ 4" "c mod 2 ^ 32 < 16 ^ 8"
    by (simp_all add: less_mult_imp_div_less)
qed (simp add: gen_id_def uuid_str_nat a_def c_def)

lemmas setw_length = conjunct1 [OF setw_hex]

lemma gen_id_length [simp]: "length (gen_id r1 r2) = 36"
  using setw_length [OF gen_id_groups(2)] setw_length [OF gen_id_groups(3)] setw_length [OF gen_id_groups(4)]
    setw_length [OF gen_id_groups(5)] setw_length [OF gen_id_groups(6)] setw_length [OF gen_id_groups(7)]
  unfolding gen_id_groups(1) by simp

lemma gen_id_start: "\<exists>x xs. gen_id r1 r2 = x # xs \<and> hex_char x"
proof -
  let ?g = "setw 8 (unat (ab (uuid4 r1 r2)) div 2 ^ 32)"
  have "length ?g = 8 \<and> (\<forall>x \<in> set ?g. hex_char x)" using setw_hex [OF gen_id_groups(2)] by simp
  then obtain x xs where "?g = x # xs" "hex_char x" by (cases ?g) auto
  then show ?thesis unfolding gen_id_groups(1) by simp
qed

text \<open>C39 (type): every identifier that \<open>gen_id\<close> makes, whatever the random numbers, has 36 characters: five
  groups of 8, 4, 4, 4 and 12 hexadecimal digits between hyphens, the third group starting with the version
  4 and the fourth with one of 8, 9, a and b.\<close>

theorem gen_id_form:
  "\<exists>g1 g2 g3 g4 g5. gen_id r1 r2 = g1 @ ''-'' @ g2 @ ''-'' @ g3 @ ''-'' @ g4 @ ''-'' @ g5 \<and>
     map length [g1, g2, g3, g4, g5] = [8, 4, 4, 4, 12] \<and> list_all hex_char (g1 @ g2 @ g3 @ g4 @ g5) \<and>
     hd g3 = CHR ''4'' \<and> hd g4 \<in> set ''89ab''"
proof -
  let ?a = "unat (ab (uuid4 r1 r2))" and ?c = "unat (cd (uuid4 r1 r2))"
  note b = gen_id_groups(2-7) [of r1 r2]
  let ?g1 = "setw 8 (?a div 2 ^ 32)" and ?g2 = "setw 4 (?a mod 2 ^ 32 div 2 ^ 16)" and ?g3 = "setw 4 (?a mod 2 ^ 16)"
    and ?g4 = "setw 4 (?c div 2 ^ 48)" and ?g5 = "setw 4 (?c div 2 ^ 32 mod 2 ^ 16)" and ?g6 = "setw 8 (?c mod 2 ^ 32)"
  have s: "gen_id r1 r2 = ?g1 @ ''-'' @ ?g2 @ ''-'' @ ?g3 @ ''-'' @ ?g4 @ ''-'' @ (?g5 @ ?g6)"
    by (rule gen_id_groups(1))
  have h: "length (setw k n) = k \<and> (\<forall>c \<in> set (setw k n). hex_char c)" if "n < 16 ^ k" "0 < k" for k n
    using setw_hex that by blast
  have "hd ?g3 = hex_digit 4" using setw_4_head [OF b(3)] uuid4_nat(1) by simp
  moreover have "hex_digit 4 = CHR ''4''" by code_simp
  moreover have "hd ?g4 = hex_digit (?c div 2 ^ 60)" using setw_4_head [OF b(4)] by (simp add: div_mult2_eq [symmetric])
  moreover have "\<forall>d \<in> {8, 9, 10, 11}. hex_digit d \<in> set ''89ab''" by code_simp
  moreover have "map length [?g1, ?g2, ?g3, ?g4, ?g5 @ ?g6] = [8, 4, 4, 4, 12]"
    using h [OF b(1)] h [OF b(2)] h [OF b(3)] h [OF b(4)] h [OF b(5)] h [OF b(6)] by simp
  moreover have "list_all hex_char (?g1 @ ?g2 @ ?g3 @ ?g4 @ (?g5 @ ?g6))"
    using h [OF b(1)] h [OF b(2)] h [OF b(3)] h [OF b(4)] h [OF b(5)] h [OF b(6)] by (auto simp: list_all_iff)
  ultimately show ?thesis using s uuid4_nat(2) [of r1 r2] by metis
qed

end
