(* ===== verification/GetOpt.thy ===== *)
theory GetOpt
  imports Prelude
begin

text \<open>
  \<open>getopt_long\<close> of the C library as the commands under \<open>src/cli\<close> use it: options with and without an
  argument, clusters of short options, long options with \<open>=\<close> or a separate argument and by an unambiguous
  prefix, and the two treatments of operands (a leading \<open>+\<close> in the option string ends the options at the
  first operand; without it operands are skipped and moved to the end). Every command exits at the first
  \<open>?\<close>, so the scan ends there.
\<close>

datatype has_arg = No_arg | Req_arg

datatype opt_res = Opt char "string option" | Bad

type_synonym short_spec = "(char \<times> has_arg) list"
type_synonym long_spec = "(string \<times> has_arg \<times> char) list"

text \<open>The characters of a cluster such as \<open>-dn name\<close>, with the arguments that follow it.\<close>

fun short_opts :: "short_spec \<Rightarrow> string \<Rightarrow> string list \<Rightarrow> opt_res list \<times> string list" where
  "short_opts so [] rest = ([], rest)"
| "short_opts so (c # cs) rest =
     (case map_of so c of
        None \<Rightarrow> ([Bad], rest)
      | Some No_arg \<Rightarrow> (let (os, r) = short_opts so cs rest in (Opt c None # os, r))
      | Some Req_arg \<Rightarrow>
          if cs \<noteq> [] then ([Opt c (Some cs)], rest)
          else (case rest of [] \<Rightarrow> ([Bad], []) | a # rest' \<Rightarrow> ([Opt c (Some a)], rest')))"

definition long_match :: "long_spec \<Rightarrow> string \<Rightarrow> (string \<times> has_arg \<times> char) option" where
  "long_match lo nm =
     (case find (\<lambda>(n, x). n = nm) lo of
        Some l \<Rightarrow> Some l
      | None \<Rightarrow>
          (case filter (\<lambda>(n, x). take (length nm) n = nm) lo of
             [] \<Rightarrow> None
           | l # ls \<Rightarrow> if \<forall>k \<in> set ls. snd k = snd l then Some l else None))"

text \<open>The text after \<open>--\<close>, with the arguments that follow it.\<close>

definition long_opt :: "long_spec \<Rightarrow> string \<Rightarrow> string list \<Rightarrow> opt_res \<times> string list" where
  "long_opt lo s rest =
     (let nm = takeWhile (\<lambda>c. c \<noteq> CHR ''='') s;
          val = (case dropWhile (\<lambda>c. c \<noteq> CHR ''='') s of [] \<Rightarrow> None | e # v \<Rightarrow> Some v) in
      case long_match lo nm of
        None \<Rightarrow> (Bad, rest)
      | Some (n, No_arg, c) \<Rightarrow> (if val = None then Opt c None else Bad, rest)
      | Some (n, Req_arg, c) \<Rightarrow>
          (case val of
             Some v \<Rightarrow> (Opt c (Some v), rest)
           | None \<Rightarrow> (case rest of [] \<Rightarrow> (Bad, []) | a # rest' \<Rightarrow> (Opt c (Some a), rest'))))"

definition is_option :: "string \<Rightarrow> bool" where
  "is_option a = (case a of c # d # cs \<Rightarrow> c = CHR ''-'' | _ \<Rightarrow> False)"

lemma short_opts_shorter: "length (snd (short_opts so cs rest)) \<le> length rest"
  by (induction so cs rest rule: short_opts.induct)
    (auto split: option.splits has_arg.splits list.splits prod.splits)

lemma long_opt_shorter: "length (snd (long_opt lo s rest)) \<le> length rest"
  by (auto simp: long_opt_def Let_def split: option.splits has_arg.splits list.splits prod.splits)

text \<open>An argument that starts with \<open>-\<close>.\<close>

definition one_arg :: "short_spec \<Rightarrow> long_spec \<Rightarrow> string \<Rightarrow> string list \<Rightarrow> opt_res list \<times> string list" where
  "one_arg so lo a rest =
     (if hd (tl a) = CHR ''-'' then (let (r, rest') = long_opt lo (tl (tl a)) rest in ([r], rest'))
      else short_opts so (tl a) rest)"

lemma one_arg_shorter: "length (snd (one_arg so lo a rest)) \<le> length rest"
  using short_opts_shorter [of so "tl a" rest] long_opt_shorter [of lo "tl (tl a)" rest]
  by (auto simp: one_arg_def split: prod.splits)

text \<open>The options in the order given and the operands; \<open>posix\<close> says that the option string starts with \<open>+\<close>.\<close>

function getopt_long :: "bool \<Rightarrow> short_spec \<Rightarrow> long_spec \<Rightarrow> string list \<Rightarrow> opt_res list \<times> string list" where
  "getopt_long posix so lo [] = ([], [])"
| "getopt_long posix so lo (a # rest) =
     (if a = ''--'' then ([], rest)
      else if is_option a then
        (let (os, rest') = one_arg so lo a rest in
         if Bad \<in> set os then (os, rest')
         else (let (os', operands) = getopt_long posix so lo rest' in (os @ os', operands)))
      else if posix then ([], a # rest)
      else (let (os, operands) = getopt_long posix so lo rest in (os, a # operands)))"
  by pat_completeness auto
termination
proof (relation "measure (\<lambda>(posix, so, lo, args). length args)", goal_cases)
  case (2 posix so lo a rest x os rest')
  then show ?case using one_arg_shorter [of so lo a rest] by (metis case_prod_conv in_measure le_imp_less_Suc length_Cons snd_conv)
qed auto

declare getopt_long.simps [simp del]

lemmas getopt_nil [simp] = getopt_long.simps(1)

section \<open>Operands\<close>

lemma short_opts_suffix: "\<exists>pre. rest = pre @ snd (short_opts so cs rest)"
  by (induction so cs rest rule: short_opts.induct)
    (auto split: option.splits has_arg.splits list.splits prod.splits)

lemma long_opt_suffix: "\<exists>pre. rest = pre @ snd (long_opt lo s rest)"
  by (auto simp: long_opt_def Let_def split: option.splits has_arg.splits list.splits prod.splits)

lemma one_arg_suffix: "\<exists>pre. rest = pre @ snd (one_arg so lo a rest)"
  using short_opts_suffix [of rest so "tl a"] long_opt_suffix [of rest lo "tl (tl a)"]
  by (auto simp: one_arg_def split: prod.splits)

text \<open>With \<open>+\<close> the operands are a suffix of the arguments: nothing after the first operand is looked at.\<close>

lemma getopt_posix_suffix:
  "posix \<Longrightarrow> getopt_long posix so lo args = (os, ops) \<Longrightarrow> \<exists>pre. args = pre @ ops"
proof (induction posix so lo args arbitrary: os rule: getopt_long.induct)
  case (2 posix so lo a rest)
  obtain os1 rest' where q: "one_arg so lo a rest = (os1, rest')" by fastforce
  with one_arg_suffix [of rest so lo a] obtain pre where pre: "rest = pre @ rest'" by auto
  show ?case
  proof (cases "a = ''--'' \<or> \<not> is_option a \<or> Bad \<in> set os1")
    case True
    then show ?thesis using "2.prems" q pre
      by (auto simp: getopt_long.simps(2) intro: exI [of _ "[]"] exI [of _ "[a]"] exI [of _ "a # pre"] split: if_splits)
  next
    case False
    obtain os' ops' where r: "getopt_long posix so lo rest' = (os', ops')" by fastforce
    have "ops = ops'" using "2.prems"(2) False q r by (auto simp: getopt_long.simps(2))
    with "2.IH"(1) [OF _ _ q [symmetric] refl] False r "2.prems"(1) obtain pre' where "rest' = pre' @ ops" by blast
    with pre have "a # rest = (a # pre @ pre') @ ops" by simp
    then show ?thesis by blast
  qed
qed simp

lemma getopt_first_operand:
  "\<not> is_option a \<Longrightarrow> a \<noteq> ''--'' \<Longrightarrow> getopt_long True so lo (a # rest) = ([], a # rest)"
  by (simp add: getopt_long.simps(2))

end
