(* ===== verification/Commands.thy ===== *)
theory Commands
  imports ContainerService ContainerId GetOpt
begin

text \<open>
  The command line: \<open>src/hoststack.cpp\<close> and \<open>src/cli\<close>. A handler gets its argument vector (its own name
  first) and is a command on the world; \<open>usage\<close> texts go to \<open>stderr\<close>.
\<close>

section \<open>Texts\<close>

definition TAB :: string where "TAB = [CHR 0x09]"
definition APO :: string where "APO = [CHR 0x27]"

fun fpe :: "string list \<Rightarrow> string" where
  "fpe [] = []"
| "fpe (s # ss) = ''  '' @ s @ NL @ fpe ss"

definition hoststack_usage :: string where
  "hoststack_usage =
     ''Usage: hoststack [OPTIONS] COMMAND'' @ NL @ NL @ ''A self-sufficient runtime for containers'' @ NL @ NL @
     ''Commands:'' @ NL @ NL @
     fpe [''run         Run a command in a new container'', ''ps          List containers'',
       ''attach      Attach local standard input, output, and error streams to a running container'',
       ''rm          Remove one or more containers'', ''stop        Stop one or more running containers'',
       ''exec        Run a command in a running container'', ''start       Start one or more stopped containers'', []] @
     ''Run '' @ APO @ ''hoststack COMMAND --help'' @ APO @ '' for more information on a command.'' @ NL"

definition container_usage :: string where
  "container_usage =
     ''Usage: hoststack container COMMAND'' @ NL @ NL @ ''Manage containers.'' @ NL @ NL @ ''Commands:'' @ NL @ NL @
     fpe [''run         Run a command in a new container'', ''stop        Stop one or more running containers'',
       ''ls          List containers'',
       ''attach      Attach local standard input, output, and error streams to a running container'',
       ''start       Start one or more stopped containers'', ''exec        Run a command in a running container'',
       ''rm          Remove one or more containers'', []] @
     ''Run '' @ APO @ ''hoststack container COMMAND --help'' @ APO @ '' for more information on a command.'' @ NL"

definition run_usage :: string where
  "run_usage =
     ''Usage: hoststack container run [OPTIONS] [COMMAND] [ARG...]'' @ NL @ NL @ ''Run a command in a new container'' @ NL @ NL @
     ''Options:'' @ NL @ NL @
     fpe [''-d, --detach                         Run container in background and print container ID'',
       ''-v, --volume list                    Bind mount a volume'',
       ''-n, --name string                    Assign a name to the container'', []]"

definition start_usage :: string where
  "start_usage =
     ''Usage: hoststack container start [OPTIONS] CONTAINER'' @ NL @ NL @ ''Start a stopped container'' @ NL @ NL @
     ''Options:'' @ NL @ NL @
     fpe [''-d, --detach                         Start container in background and print container ID'', []]"

definition stop_usage :: string where
  "stop_usage =
     ''Usage:'' @ TAB @ ''hoststack container stop  CONTAINER [CONTAINER...]'' @ NL @ NL @
     ''Stop one or more running containers'' @ NL @ NL"

definition rm_usage :: string where
  "rm_usage =
     ''Usage:'' @ TAB @ ''hoststack container rm [OPTIONS] CONTAINER [CONTAINER...]'' @ NL @ NL @
     ''Remove one or more containers'' @ NL @ NL @ ''Options:'' @ NL @ NL @
     fpe [''-f, --force     Force the removal of a running container (uses SIGKILL)'', []]"

definition exec_usage :: string where
  "exec_usage =
     ''Usage: hoststack exec [OPTIONS] CONTAINER COMMAND [ARG...]'' @ NL @ NL @
     ''Run a command in a running container.'' @ NL @ NL @ ''Options:'' @ NL @ NL @
     fpe [''-d, --detach               Detached mode: run command in the background'', []]"

definition ls_usage :: string where
  "ls_usage =
     ''Usage: hoststack container ls [OPTIONS]'' @ NL @ NL @ ''List containers'' @ NL @ NL @ ''Options:'' @ NL @ NL @
     fpe [''-a, --all             Show all containers (default shows just running)'', []]"

definition attach_usage :: string where
  "attach_usage =
     ''Usage: hoststack container attach CONTAINER'' @ NL @ NL @
     ''Attach local standard input, output, and error streams to a running container.'' @ NL @ NL"

text \<open>What the commands ask for besides: the user, \<open>SHELL\<close>, random numbers, \<open>formatTime\<close>, and the size and (on
  what is no terminal) the attributes left uninitialised.\<close>

record cli_env =
  ce_euid :: int
  ce_shell :: "string option"
  ce_rand :: "64 word \<times> 64 word"
  ce_fmt :: "int \<Rightarrow> string"
  ce_ws :: winsize
  ce_junk :: termios

definition tty_attr :: "cli_env \<Rightarrow> termios cmd" where
  "tty_attr C = cget (\<lambda>w. case tty_of (w_ttys w) STDIN_FILENO of Some a \<Rightarrow> a | None \<Rightarrow> ce_junk C)"

text \<open>\<open>usage(); exit(1);\<close>\<close>

definition usage_exit :: "string \<Rightarrow> 'a cmd" where
  "usage_exit u = cthen (print_err u) (cfail (Exit 1))"

definition asks_help :: "string list \<Rightarrow> bool" where
  "asks_help argv \<longleftrightarrow> length argv = 2 \<and> argv ! 1 = ''--help''"

definition lookup :: "'j plat \<Rightarrow> string \<Rightarrow> container_info option cmd" where
  "lookup P v = on_file (\<lambda>env. get_container_by_id_or_name (P_json P) env v)"

section \<open>\<open>run\<close>\<close>

record container_run_arg_t =
  ra_detach :: bool
  ra_volumes :: "string list"
  ra_name :: "string option"
  ra_cmd :: "string list"

definition run_short :: short_spec where
  "run_short = [(CHR ''d'', No_arg), (CHR ''v'', Req_arg), (CHR ''n'', Req_arg)]"

definition run_long :: long_spec where
  "run_long = [(''detach'', No_arg, CHR ''d''), (''volume'', Req_arg, CHR ''v''), (''name'', Req_arg, CHR ''n'')]"

fun run_opt :: "container_run_arg_t \<Rightarrow> opt_res \<Rightarrow> container_run_arg_t" where
  "run_opt a (Opt c arg) =
     (if c = CHR ''d'' then a\<lparr>ra_detach := True\<rparr>
      else if c = CHR ''v'' then (case arg of Some v \<Rightarrow> a\<lparr>ra_volumes := set_insert v (ra_volumes a)\<rparr> | None \<Rightarrow> a)
      else if c = CHR ''n'' then a\<lparr>ra_name := arg\<rparr>
      else a)"
| "run_opt a Bad = a"

definition default_cmd :: "cli_env \<Rightarrow> string list" where
  "default_cmd C =
     [case ce_shell C of None \<Rightarrow> ''/bin/bash'' | Some s \<Rightarrow> if s = [] then ''/bin/bash'' else s, ''-l'']"

text \<open>The arguments of \<open>run\<close> from its options and operands.\<close>

definition run_args :: "cli_env \<Rightarrow> opt_res list \<Rightarrow> string list \<Rightarrow> container_run_arg_t" where
  "run_args C os operands =
     (let a = foldl run_opt \<lparr>ra_detach = False, ra_volumes = [], ra_name = None, ra_cmd = default_cmd C\<rparr> os in
      if operands \<noteq> [] then a\<lparr>ra_cmd := operands\<rparr> else a)"

text \<open>The description recorded for the container, and the callback that records it. \<open>std::string\<close> is assigned
  the result of \<open>array_join\<close>, which may be \<open>NULL\<close>.\<close>

definition run_info :: "string \<Rightarrow> container_run_arg_t \<Rightarrow> string \<Rightarrow> int \<Rightarrow> int \<Rightarrow> container_info" where
  "run_info ctr a cmd t p =
     empty_info\<lparr>cid := ctr, pid := to_int32 p, cname := (case ra_name a of None \<Rightarrow> [] | Some n \<Rightarrow> n), command := cmd,
       create_time := t, start_time := t, volume_list := ra_volumes a, status := CONTAINER_RUNNING, abnormal_stoped := 1\<rparr>"

definition ENOMEM :: int where "ENOMEM = 12"

definition run_callback :: "'j plat \<Rightarrow> string \<Rightarrow> container_run_arg_t \<Rightarrow> int \<Rightarrow> unit cmd" where
  "run_callback P ctr a p =
     cbind (lift_res (array_join (mem_ok (P_kernel P)) ENOMEM (ra_cmd a) '' '')) (\<lambda>cmd_str.
     cbind (lift_res (of_opt NullDeref cmd_str)) (\<lambda>cmd.
     on_file_u (\<lambda>env. dao_insert (P_json P) env (run_info ctr a cmd (now env) p))))"

definition run_start :: "'j plat \<Rightarrow> string \<Rightarrow> container_run_arg_t \<Rightarrow> termios \<Rightarrow> winsize \<Rightarrow> unit cmd" where
  "run_start P ctr a attr ws =
     service_start P \<lparr>so_id = ctr, so_cmd = Some (ra_cmd a), so_detach = ra_detach a, so_volumes = Some (ra_volumes a),
         so_ws = Some ws, so_attr = Some attr\<rparr>
       (run_callback P ctr a)"

definition run_handleCommand :: "cli_env \<Rightarrow> 'j plat \<Rightarrow> string list \<Rightarrow> unit cmd" where
  "run_handleCommand C P argv =
     (if asks_help argv then print_err run_usage
      else
        (let (os, operands) = getopt_long True run_short run_long (tl argv) in
         if Bad \<in> set os then usage_exit run_usage
         else
           (let a = run_args C os operands in
            cbind (case ra_name a of None \<Rightarrow> cret None
                   | Some n \<Rightarrow> on_file (\<lambda>env f. rbind (get_container_by_name (P_json P) n f) (\<lambda>x. Inr (x, f)))) (\<lambda>taken.
            if taken \<noteq> None
            then print_err (''Container name '' @ APO @ the (ra_name a) @ APO @ '' already exists!'' @ NL)
            else
              (let ctr = gen_id (fst (ce_rand C)) (snd (ce_rand C)) in
               cthen (on_host_u (create_container ctr))
              (cbind (tty_attr C) (\<lambda>attr. run_start P ctr a attr (ce_ws C))))))))"

section \<open>\<open>start\<close>\<close>

definition start_callback :: "'j plat \<Rightarrow> container_info \<Rightarrow> int \<Rightarrow> unit cmd" where
  "start_callback P info p =
     on_file_u (\<lambda>env. dao_update (P_json P) env
       (info\<lparr>pid := to_int32 p, start_time := now env, status := CONTAINER_RUNNING, abnormal_stoped := 1\<rparr>))"

text \<open>\<open>attr\<close> is \<open>None\<close> when the supervisor calls.\<close>

definition startContainer :: "'j plat \<Rightarrow> bool \<Rightarrow> string \<Rightarrow> termios option \<Rightarrow> winsize \<Rightarrow> unit cmd" where
  "startContainer P detach name attr ws =
     cbind (lookup P name) (\<lambda>info.
     case info of
       None \<Rightarrow> print_err (''No container named '' @ name @ '' '' @ NL)
     | Some c \<Rightarrow>
         if status c = CONTAINER_RUNNING then print_err (''It has been started already'' @ NL)
         else cbind (lift_res (str_split (mem_ok (P_kernel P)) (Some (command c)) BLANK)) (\<lambda>(n, arr).
              service_start P \<lparr>so_id = cid c, so_cmd = arr, so_detach = detach, so_volumes = Some (volume_list c),
                  so_ws = Some ws, so_attr = attr\<rparr>
                (start_callback P c)))"

definition start_handleCommand :: "cli_env \<Rightarrow> 'j plat \<Rightarrow> string list \<Rightarrow> unit cmd" where
  "start_handleCommand C P argv =
     (if asks_help argv then print_err start_usage
      else
        (let (os, operands) = getopt_long True [(CHR ''d'', No_arg)] [(''detach'', No_arg, CHR ''d'')] (tl argv) in
         if Bad \<in> set os then usage_exit start_usage
         else (case operands of
                 [] \<Rightarrow> usage_exit start_usage
               | name # others \<Rightarrow>
                   cbind (tty_attr C) (\<lambda>attr. startContainer P (os \<noteq> []) name (Some attr) (ce_ws C)))))"

section \<open>\<open>stop\<close>, \<open>rm\<close>\<close>

fun stop_all :: "'j plat \<Rightarrow> string list \<Rightarrow> unit cmd" where
  "stop_all P [] = cret ()"
| "stop_all P (v # vs) = cthen (service_stop P v) (stop_all P vs)"

definition stop_handleCommand :: "'j plat \<Rightarrow> string list \<Rightarrow> unit cmd" where
  "stop_handleCommand P argv =
     (if length argv < 2 \<or> asks_help argv then print_err stop_usage else stop_all P (tl argv))"

definition removeContainer :: "'j plat \<Rightarrow> bool \<Rightarrow> string \<Rightarrow> unit cmd" where
  "removeContainer P force name =
     cbind (lookup P name) (\<lambda>info.
     case info of
       None \<Rightarrow> print_err (''Container '' @ name @ '' not found'')
     | Some c \<Rightarrow>
         if status c = CONTAINER_RUNNING \<and> \<not> force
         then print_err (''Container '' @ getName c @ '' is running, can'' @ APO @ ''t be removed. Use option '' @ APO @ ''-f'' @
                APO @ '' to force remove container'')
         else cthen (if status c = CONTAINER_RUNNING then service_stop P name else cret ())
             (cbind (on_host (remove_container (P_kernel P) (cid c))) (\<lambda>r.
              if r \<noteq> 0 then cret ()
              else on_file_u (\<lambda>env. delete_by_id (P_json P) env (cid c)))))"

fun remove_all :: "'j plat \<Rightarrow> bool \<Rightarrow> string list \<Rightarrow> unit cmd" where
  "remove_all P force [] = cret ()"
| "remove_all P force (v # vs) = cthen (removeContainer P force v) (remove_all P force vs)"

definition rm_handleCommand :: "'j plat \<Rightarrow> string list \<Rightarrow> unit cmd" where
  "rm_handleCommand P argv =
     (if length argv < 2 \<or> asks_help argv then print_err rm_usage
      else
        (let (os, operands) = getopt_long True [(CHR ''f'', No_arg)] [(''force'', No_arg, CHR ''f'')] (tl argv) in
         if Bad \<in> set os then usage_exit rm_usage
         else if operands = [] then usage_exit rm_usage
         else remove_all P (os \<noteq> []) operands))"

section \<open>\<open>exec\<close>, \<open>ls\<close>, \<open>attach\<close>\<close>

definition exec_handleCommand :: "'j plat \<Rightarrow> string list \<Rightarrow> unit cmd" where
  "exec_handleCommand P argv =
     (if asks_help argv then print_err exec_usage
      else if length argv < 3 then cthen (print_out (''Miss command argment'' @ NL)) (print_err exec_usage)
      else
        (let (os, operands) = getopt_long True [(CHR ''d'', No_arg)] [(''detach'', No_arg, CHR ''d'')] (tl argv) in
         if Bad \<in> set os then usage_exit exec_usage
         else (case operands of
                 name # prog # args \<Rightarrow>
                   cbind (lookup P name) (\<lambda>info.
                   case info of
                     None \<Rightarrow> print_err (''No container identify by '' @ name @ ''.'')
                   | Some c \<Rightarrow>
                       if status c \<noteq> CONTAINER_RUNNING
                       then print_err (''Container '' @ name @ '' is not in running status.'' @ NL)
                       else service_exec P \<lparr>eo_id = cid c, eo_pid = pid c, eo_cmd = prog # args, eo_detach = (os \<noteq> [])\<rparr>)
               | _ \<Rightarrow> cthen (print_out (''Miss command argment'' @ NL)) (print_err exec_usage))))"

text \<open>\<open>ContainerExecCli::exec\<close>, which no command calls; it works on the container it is given. The terminal's
  attributes and size are only read.\<close>

definition exec_container :: "'j plat \<Rightarrow> container_info option \<Rightarrow> bool \<Rightarrow> string list \<Rightarrow> unit cmd" where
  "exec_container P container detach cmd_arr =
     cthen (if detach then (case P_daemon P of Some e \<Rightarrow> cfail (Exit e) | None \<Rightarrow> cret ()) else cret ())
    (cbind (lift_res (of_opt EmptyOptional container)) (\<lambda>c.
     cthen (join_ns P (pid c) [''pid'', ''mnt'']) (c_exec P cmd_arr detach)))"

fun show_all :: "cli_env \<Rightarrow> bool \<Rightarrow> container_info list \<Rightarrow> unit cmd" where
  "show_all C a [] = cret ()"
| "show_all C a (c # cs) =
     cthen (if a \<or> status c = CONTAINER_RUNNING then print_out (show_info (ce_fmt C) c) else cret ()) (show_all C a cs)"

definition ls_handleCommand :: "cli_env \<Rightarrow> 'j plat \<Rightarrow> string list \<Rightarrow> unit cmd" where
  "ls_handleCommand C P argv =
     (if asks_help argv then print_err ls_usage
      else
        (let (os, operands) = getopt_long False [(CHR ''a'', No_arg)] [(''all'', No_arg, CHR ''a'')] (tl argv) in
         if Bad \<in> set os then usage_exit ls_usage
         else cbind (on_file (\<lambda>env f. rbind (dao_list (P_json P) f) (\<lambda>x. Inr (x, f)))) (\<lambda>vec.
              cthen (print_out showTitle)
                (case vec of None \<Rightarrow> cret () | Some cs \<Rightarrow> show_all C (os \<noteq> []) cs))))"

definition attach_handleCommand :: "'j plat \<Rightarrow> string list \<Rightarrow> unit cmd" where
  "attach_handleCommand P argv =
     (if length argv < 2 \<or> asks_help argv then print_err attach_usage
      else
        (let containerName = argv ! 1 in
         cbind (lookup P containerName) (\<lambda>info.
         case info of
           None \<Rightarrow> print_out (''Container '' @ containerName @ '' not found!'' @ NL)
         | Some c \<Rightarrow>
             if status c = CONTAINER_STOPED
             then print_out (''Conatiner '' @ cname c @ '' is not in running status!'' @ NL)
             else c_client P (cid c))))"

section \<open>Dispatch\<close>

text \<open>\<open>ContainerCli::handleCommand\<close>\<close>

definition container_handleCommand :: "cli_env \<Rightarrow> 'j plat \<Rightarrow> string list \<Rightarrow> unit cmd" where
  "container_handleCommand C P argv =
     (if length argv < 2 then usage_exit container_usage
      else
        (let action = argv ! 1; rest = tl argv in
         if action = ''run'' then run_handleCommand C P rest
         else if action = ''ls'' then ls_handleCommand C P rest
         else if action = ''stop'' then stop_handleCommand P rest
         else if action = ''start'' then start_handleCommand C P rest
         else if action = ''exec'' then exec_handleCommand P rest
         else if action = ''attach'' then attach_handleCommand P rest
         else if action = ''rm'' then rm_handleCommand P rest
         else if action = ''--help'' then print_err container_usage
         else usage_exit container_usage))"

text \<open>\<open>main\<close>. The text printed for another user than root is not ASCII and left out.\<close>

definition hoststack_main :: "cli_env \<Rightarrow> 'j plat \<Rightarrow> string list \<Rightarrow> int cmd" where
  "hoststack_main C P argv =
     (if ce_euid C \<noteq> 0 then cfail (Exit 1)
      else if length argv < 2 then cthen (print_err hoststack_usage) (cret 1)
      else
        (let target = argv ! 1; rest = tl argv in
         cthen (on_host_u create_repo)
        (cthen
          (if target = ''container'' then container_handleCommand C P rest
           else if target = ''run'' then run_handleCommand C P rest
           else if target = ''stop'' then stop_handleCommand P rest
           else if target = ''start'' then start_handleCommand C P rest
           else if target = ''ps'' then ls_handleCommand C P rest
           else if target = ''attach'' then attach_handleCommand P rest
           else if target = ''exec'' then exec_handleCommand P rest
           else if target = ''rm'' then rm_handleCommand P rest
           else if target = ''--help'' then print_err hoststack_usage
           else print_err hoststack_usage)
          (cret 0))))"

section \<open>Properties\<close>

lemma lookup_result:
  assumes lib: "json_library (P_json P) jdoc jtext" and tab: "dao_state (P_json P) jtext (w_file w) cs"
    and "writable (w_env w)"
  shows "\<exists>f. lookup P v w = (Inr (map_option (sync_info (w_env w)) (find (matches v) cs)), w\<lparr>w_file := f\<rparr>) \<and>
    dao_state (P_json P) jtext f (upd_first (matches v) (sync_info (w_env w)) cs)"
  using container_store.lookup_law [OF json_library.dao_store [OF lib] tab assms(3), of v]
  by (auto simp: lookup_def on_file_def)

text \<open>The code was moved to \<open>ContainerService::exec\<close>, and the two are still the same.\<close>

lemma exec_container_is_service_exec:
  "exec_container P (Some c) d args = service_exec P \<lparr>eo_id = cid c, eo_pid = pid c, eo_cmd = args, eo_detach = d\<rparr>"
proof -
  have "cbind (lift_res (of_opt EmptyOptional (Some c))) f = f c" for f :: "container_info \<Rightarrow> unit cmd"
    by (simp add: cbind_def lift_res_def fun_eq_iff)
  then show ?thesis by (simp add: exec_container_def service_exec_def)
qed

text \<open>C17 (equivalence): \<open>hoststack container COMMAND ...\<close> does exactly what \<open>hoststack COMMAND ...\<close> does, for every
  command both have (\<open>container ls\<close> is \<open>ps\<close>). For a word that is no command they differ: the one prints
  the usage of \<open>hoststack container\<close> and exits with status 1, the other prints that of \<open>hoststack\<close> and returns 0;
  neither does anything else than create the repository's directories.\<close>

theorem container_prefix_is_redundant:
  "(x \<in> {''run'', ''stop'', ''start'', ''attach'', ''exec'', ''rm''} \<longrightarrow>
      hoststack_main C P (h # ''container'' # x # args) = hoststack_main C P (h # x # args)) \<and>
   hoststack_main C P (h # ''container'' # ''ls'' # args) = hoststack_main C P (h # ''ps'' # args) \<and>
   (x \<notin> {''container'', ''run'', ''stop'', ''start'', ''ps'', ''attach'', ''exec'', ''rm'', ''ls'', ''--help''} \<longrightarrow> ce_euid C = 0 \<longrightarrow>
      create_repo (w_host w) = Inr h' \<longrightarrow>
      (let w' = w\<lparr>w_host := h'\<rparr> in
       hoststack_main C P (h # ''container'' # x # args) w = (Inl (Exit 1), w'\<lparr>w_err := w_err w @ container_usage\<rparr>) \<and>
       hoststack_main C P (h # x # args) w = (Inr 0, w'\<lparr>w_err := w_err w @ hoststack_usage\<rparr>)))"
proof (intro conjI impI)
  assume "x \<in> {''run'', ''stop'', ''start'', ''attach'', ''exec'', ''rm''}"
  then show "hoststack_main C P (h # ''container'' # x # args) = hoststack_main C P (h # x # args)"
    by (auto simp: hoststack_main_def container_handleCommand_def)
next
  have "ls_handleCommand C P (''ls'' # args) = ls_handleCommand C P (''ps'' # args)"
    by (simp add: ls_handleCommand_def asks_help_def)
  then show "hoststack_main C P (h # ''container'' # ''ls'' # args) = hoststack_main C P (h # ''ps'' # args)"
    by (simp add: hoststack_main_def container_handleCommand_def)
next
  assume "x \<notin> {''container'', ''run'', ''stop'', ''start'', ''ps'', ''attach'', ''exec'', ''rm'', ''ls'', ''--help''}"
    "ce_euid C = 0" "create_repo (w_host w) = Inr h'"
  then show "let w' = w\<lparr>w_host := h'\<rparr> in
      hoststack_main C P (h # ''container'' # x # args) w = (Inl (Exit 1), w'\<lparr>w_err := w_err w @ container_usage\<rparr>) \<and>
      hoststack_main C P (h # x # args) w = (Inr 0, w'\<lparr>w_err := w_err w @ hoststack_usage\<rparr>)"
    by (simp add: hoststack_main_def container_handleCommand_def usage_exit_def cmd_defs)
qed

lemma show_all_out:
  "show_all C a cs w =
     (Inr (), w\<lparr>w_out := w_out w @ concat (map (show_info (ce_fmt C)) (filter (\<lambda>c. a \<or> status c = CONTAINER_RUNNING) cs))\<rparr>)"
  by (induction cs arbitrary: w) (auto simp: cmd_defs)

lemma getopt_flag:
  "getopt_long p so lo [] = ([], [])"
  "map_of so c = Some No_arg \<Longrightarrow> c \<noteq> CHR ''-'' \<Longrightarrow> getopt_long p so lo [[CHR ''-'', c]] = ([Opt c None], [])"
  by (simp_all add: getopt_long.simps(2) is_option_def one_arg_def)

text \<open>\<open>hoststack ps\<close> prints the title and one line for each running container, in the order of
  the table, \<open>hoststack ps -a\<close> one for each container; neither changes anything.\<close>

theorem ls_prints_the_table:
  assumes lib: "json_library (P_json P) jdoc jtext" and tab: "dao_state (P_json P) jtext (w_file w) cs"
  shows "ls_handleCommand C P (if a then [n, ''-a''] else [n]) w =
    (Inr (), w\<lparr>w_out := w_out w @ showTitle @
       concat (map (show_info (ce_fmt C)) (filter (\<lambda>c. a \<or> status c = CONTAINER_RUNNING) cs))\<rparr>)"
proof -
  have l: "dao_list (P_json P) (w_file w) = Inr (if cs = [] then None else Some cs)"
    by (rule container_store.list_law [OF json_library.dao_store [OF lib] tab])
  have "getopt_long False [(CHR ''a'', No_arg)] [(''all'', No_arg, CHR ''a'')] (tl (if a then [n, ''-a''] else [n])) =
      (if a then [Opt (CHR ''a'') None] else [], [])"
    by (simp add: getopt_flag)
  then show ?thesis
    using l by (auto simp: ls_handleCommand_def asks_help_def cbind_def cthen_def on_file_def print_out_def cput_def
        cret_def show_all_out)
qed

definition demo_cli :: cli_env where
  "demo_cli = \<lparr>ce_euid = 0, ce_shell = None, ce_rand = (1, 2), ce_fmt = (\<lambda>_. ''now''), ce_ws = (24, 80), ce_junk = demo_termios\<rparr>"

theorem container_prefix_is_redundant_witness:
  "hoststack_main demo_cli demo_plat [''hoststack'', ''container'', ''rm'', ''web''] =
   hoststack_main demo_cli demo_plat [''hoststack'', ''rm'', ''web'']"
  using container_prefix_is_redundant [of "''rm''" demo_cli demo_plat "''hoststack''" "[''web'']" "demo_world None" demo_host] by simp

section \<open>Removing a container\<close>

lemma filter_upd_first:
  assumes "find Q cs = Some c" "\<And>x. cid (g x) = cid x"
  shows "filter (\<lambda>x. cid x \<noteq> cid c) (upd_first Q g cs) = filter (\<lambda>x. cid x \<noteq> cid c) cs"
  using assms by (induction cs) (auto split: if_splits)

text \<open>The last two steps: the directories, then the row.\<close>

lemma remove_row:
  assumes lib: "json_library (P_json P) jdoc jtext" and tab: "dao_state (P_json P) jtext (w_file w) cs"
    and "writable (w_env w)" and c: "c \<in> set cs" "\<forall>x \<in> set cs. cname x = cid c \<longrightarrow> cid x = cid c"
    and rm: "remove_container (P_kernel P) (cid c) (w_host w) = Inr (0, h)"
  shows "\<exists>f. cbind (on_host (remove_container (P_kernel P) (cid c))) (\<lambda>r.
        if r \<noteq> 0 then cret () else on_file_u (\<lambda>env. delete_by_id (P_json P) env (cid c))) w =
      (Inr (), w\<lparr>w_host := h, w_file := f\<rparr>) \<and> dao_state (P_json P) jtext f (filter (\<lambda>x. cid x \<noteq> cid c) cs)"
proof -
  have dist: "distinct (map cid cs)" using tab by (simp add: dao_state_def)
  have "find (matches (cid c)) cs \<noteq> None" using c(1) by (auto simp: find_None_iff)
  then obtain d where d: "find (matches (cid c)) cs = Some d" by blast
  then have "d \<in> set cs" "matches (cid c) d" by (auto simp: find_Some_iff)
  then have "cid d = cid c" using c(2) by auto
  with container_store.delete_law [OF json_library.dao_store [OF lib] tab d assms(3)] obtain f where
    "delete_by_id (P_json P) (w_env w) (cid c) (w_file w) = Inr f" "dao_state (P_json P) jtext f (filter (\<lambda>x. cid x \<noteq> cid c) cs)"
    by auto
  with rm show ?thesis by (auto simp: cbind_def on_host_def on_file_u_def on_file_def)
qed

lemma upd_first_same: "find Q xs = Some c \<Longrightarrow> g c = c \<Longrightarrow> upd_first Q g xs = xs"
  by (induction xs) (auto split: if_splits)

lemma upd_first_in: "find Q xs = Some c \<Longrightarrow> g c \<in> set (upd_first Q g xs)"
  by (induction xs) (auto split: if_splits)

text \<open>A running container: refused without \<open>-f\<close>, else stopped and removed.\<close>

lemma remove_running:
  assumes lib: "json_library (P_json P) jdoc jtext" and tab: "dao_state (P_json P) jtext (w_file w) cs"
    and wr: "writable (w_env w)" and c: "find (matches v) cs = Some c" "\<forall>x \<in> set cs. cname x = cid c \<longrightarrow> cid x = cid c"
    and rm: "remove_container (P_kernel P) (cid c) (w_host w) = Inr (0, h)"
    and live: "status c = CONTAINER_RUNNING" "proc_alive (w_env w) (pid c)"
  shows "\<exists>f. dao_state (P_json P) jtext f (if force then filter (\<lambda>x. cid x \<noteq> cid c) cs else cs) \<and>
    (if force then removeContainer P force v w = (Inr (), (snd (reap P (pid c) w))\<lparr>w_host := h, w_file := f\<rparr>)
     else \<exists>u. removeContainer P force v w = (Inr (), w\<lparr>w_file := f, w_err := u\<rparr>))"
proof -
  let ?J = "P_json P"
  have c': "sync_info (w_env w) c = c" using live by (simp add: sync_info_def)
  from lookup_result [OF lib tab wr, of v] c(1) c' upd_first_same [OF c(1), of "sync_info (w_env w)"] obtain f where
    l: "lookup P v w = (Inr (Some c), w\<lparr>w_file := f\<rparr>)" "dao_state ?J jtext f cs" by auto
  have mem: "c \<in> set cs" using c(1) by (auto simp: find_Some_iff)
  show ?thesis
  proof (cases force)
    case False
    then show ?thesis using live l by (auto simp: removeContainer_def cbind_def print_err_def cput_def)
  next
    case frc: True
    from service_stop_running [of P jdoc jtext "w\<lparr>w_file := f\<rparr>" cs v c] lib l(2) wr c(1) live obtain g where
      g: "service_stop P v (w\<lparr>w_file := f\<rparr>) = (Inr (), (snd (reap P (pid c) w))\<lparr>w_file := g\<rparr>)" "dao_state ?J jtext g cs"
      by (auto simp: reap_def cput_def)
    let ?w = "(snd (reap P (pid c) w))\<lparr>w_file := g\<rparr>"
    have p: "dao_state ?J jtext (w_file ?w) cs" "writable (w_env ?w)"
      "remove_container (P_kernel P) (cid c) (w_host ?w) = Inr (0, h)"
      using g(2) rm wr by (simp_all add: reap_def cput_def)
    from remove_row [OF lib p(1,2) mem c(2) p(3)] obtain k where
      k: "cbind (on_host (remove_container (P_kernel P) (cid c))) (\<lambda>r.
          if r \<noteq> 0 then cret () else on_file_u (\<lambda>env. delete_by_id ?J env (cid c))) ?w = (Inr (), ?w\<lparr>w_host := h, w_file := k\<rparr>)"
      "dao_state ?J jtext k (filter (\<lambda>x. cid x \<noteq> cid c) cs)" by blast
    have "removeContainer P force v w = (Inr (), ?w\<lparr>w_host := h, w_file := k\<rparr>)"
      using l(1) g(1) k(1) live frc by (simp add: removeContainer_def cbind_def cthen_def)
    with k(2) frc show ?thesis by auto
  qed
qed

text \<open>A container without a process is removed at once.\<close>

lemma remove_stopped:
  assumes lib: "json_library (P_json P) jdoc jtext" and tab: "dao_state (P_json P) jtext (w_file w) cs"
    and wr: "writable (w_env w)" and c: "find (matches v) cs = Some c" "\<forall>x \<in> set cs. cname x = cid c \<longrightarrow> cid x = cid c"
    and rm: "remove_container (P_kernel P) (cid c) (w_host w) = Inr (0, h)"
    and dead: "\<not> (status c = CONTAINER_RUNNING \<and> proc_alive (w_env w) (pid c))"
  shows "\<exists>f. dao_state (P_json P) jtext f (filter (\<lambda>x. cid x \<noteq> cid c) cs) \<and>
    removeContainer P force v w = (Inr (), w\<lparr>w_host := h, w_file := f\<rparr>)"
proof -
  let ?J = "P_json P" and ?cs = "upd_first (matches v) (sync_info (w_env w)) cs" and ?c = "sync_info (w_env w) c"
  from lookup_result [OF lib tab wr, of v] c(1) obtain f where
    l: "lookup P v w = (Inr (Some ?c), w\<lparr>w_file := f\<rparr>)" "dao_state ?J jtext f ?cs" by auto
  have names: "\<forall>x \<in> set ?cs. cname x = cid ?c \<longrightarrow> cid x = cid ?c" using c(2) by (auto dest!: upd_first_set)
  have filt: "filter (\<lambda>x. cid x \<noteq> cid c) ?cs = filter (\<lambda>x. cid x \<noteq> cid c) cs"
    using filter_upd_first [OF c(1), of "sync_info (w_env w)"] by simp
  have p: "dao_state ?J jtext (w_file (w\<lparr>w_file := f\<rparr>)) ?cs" "writable (w_env (w\<lparr>w_file := f\<rparr>))"
    "remove_container (P_kernel P) (cid ?c) (w_host (w\<lparr>w_file := f\<rparr>)) = Inr (0, h)" using l(2) wr rm by simp_all
  note row = remove_row [OF lib p(1,2) upd_first_in [OF c(1)] names p(3), unfolded cid_simps, unfolded filt]
  obtain k where
    k: "cbind (on_host (remove_container (P_kernel P) (cid c))) (\<lambda>r.
        if r \<noteq> 0 then cret () else on_file_u (\<lambda>env. delete_by_id ?J env (cid c))) (w\<lparr>w_file := f\<rparr>) =
      (Inr (), w\<lparr>w_file := f, w_host := h, w_file := k\<rparr>)"
    "dao_state ?J jtext k (filter (\<lambda>x. cid x \<noteq> cid c) cs)" using row by (elim exE conjE) (rule that)
  have nr: "status ?c \<noteq> CONTAINER_RUNNING" using dead by (auto simp: sync_info_def)
  have skip: "cthen (cret ()) m = m" for m :: "unit cmd"
    by (simp add: cthen_def cbind_def cret_def fun_eq_iff)
  have "removeContainer P force v w = (Inr (), w\<lparr>w_file := f, w_host := h, w_file := k\<rparr>)"
    unfolding removeContainer_def by (subst cbind_def) (simp only: l(1) k(1) nr skip cid_simps simp_thms if_False
        prod.case sum.case option.case)
  then show ?thesis using k(2) by (intro exI [of _ k]) simp
qed

text \<open>C12 (functional): \<open>rm\<close> of a container that is not running (or, with \<open>-f\<close>, of any) removes its directories
  and exactly its row of the table; a running one is stopped first, which ends the recorded process and those of
  its PID name space and no other. Without \<open>-f\<close> a running container stays
  as it is: process, directories and row.\<close>

theorem rm_removes_exactly_one:
  assumes lib: "json_library (P_json P) jdoc jtext" and tab: "dao_state (P_json P) jtext (w_file w) cs"
    and wr: "writable (w_env w)" and c: "find (matches v) cs = Some c" "\<forall>x \<in> set cs. cname x = cid c \<longrightarrow> cid x = cid c"
    and rm: "remove_container (P_kernel P) (cid c) (w_host w) = Inr (0, h)"
  shows "let live = (status c = CONTAINER_RUNNING \<and> proc_alive (w_env w) (pid c)) in
    \<exists>w'. removeContainer P force v w = (Inr (), w') \<and>
      (if live \<and> \<not> force
       then dao_state (P_json P) jtext (w_file w') cs \<and> w_host w' = w_host w \<and> w_env w' = w_env w
       else dao_state (P_json P) jtext (w_file w') (filter (\<lambda>x. cid x \<noteq> cid c) cs) \<and> w_host w' = h \<and>
         (\<forall>p. proc_alive (w_env w') p \<longleftrightarrow>
            proc_alive (w_env w) p \<and> \<not> (live \<and> (p = pid c \<or> p \<in> P_members P (pid c)))))"
proof (cases "status c = CONTAINER_RUNNING \<and> proc_alive (w_env w) (pid c)")
  case True
  with remove_running [OF lib tab wr c rm, of force] show ?thesis
    by (cases force) (auto simp: reap_def cput_def Let_def)
next
  case False
  with remove_stopped [OF lib tab wr c rm, of force] show ?thesis
    unfolding Let_def by fastforce
qed

theorem rm_removes_exactly_one_witness:
  "\<exists>w'. removeContainer demo_plat True ''web'' (demo_world live_file) = (Inr (), w') \<and>
     dao_state json_impl text_jv (w_file w') [] \<and> \<not> proc_alive (w_env w') 7"
proof -
  have j: "P_json demo_plat = json_impl" and w: "w_file (demo_world live_file) = live_file" "w_env (demo_world live_file) = demo_env"
    by (simp_all add: demo_plat_def demo_world_def)
  have "remove_container (P_kernel demo_plat) (cid live_info) (w_host (demo_world live_file)) = Inr (0, demo_host)"
    by (simp add: remove_container_def demo_plat_def demo_world_def demo_kernel_def sprintf_def path_results hoststack_repo_def
        layer_path_def)
  from rm_removes_exactly_one [of demo_plat doc_jv text_jv "demo_world live_file" _ "''web''", unfolded j w,
      OF jimpl.json_library_axioms live_file_state _ live_find _ this, of True]
  show ?thesis by (auto simp: empty_info_def)
qed

section \<open>Starting a container again\<close>

lemma split_joined:
  assumes "\<forall>k. alloc k" "array_join alloc e argv '' '' = Inr (Some cmd)" "\<forall>a \<in> set argv. plain_arg a"
  shows "str_split alloc (Some cmd) BLANK = Inr (length argv, Some argv)"
proof -
  have "argv \<noteq> []" using assms(2) by (auto simp: array_join_def)
  then have "concat argv \<noteq> []" using assms(3) by (cases argv) (auto simp: plain_arg_def)
  from array_join_ok [OF this, of alloc e "'' ''"] assms(1,2) have "cmd = join '' '' argv" by simp
  then show ?thesis using assms(3) by (simp add: str_split_ok [OF assms(1)] strtok_all_join)
qed

text \<open>C10 (roundtrip): a container recorded by \<open>run\<close> and started again by \<open>start\<close> runs the command it was first run
  with, word for word, when no word is empty or contains a blank: \<open>startContainer\<close> is \<open>ContainerService::start\<close>
  with that command and the volumes recorded.\<close>

theorem restart_same_command:
  assumes lib: "json_library (P_json P) jdoc jtext" and tab: "dao_state (P_json P) jtext (w_file w) cs"
    and wr: "writable (w_env w)" and mem: "\<forall>k. mem_ok (P_kernel P) k"
    and c: "find (matches v) cs = Some c" "\<not> (status c = CONTAINER_RUNNING \<and> proc_alive (w_env w) (pid c))"
    and run: "array_join (mem_ok (P_kernel P)) ENOMEM (ra_cmd a) '' '' = Inr (Some (command c))"
      "\<forall>x \<in> set (ra_cmd a). plain_arg x"
  shows "\<exists>f. startContainer P d v attr ws w =
      service_start P \<lparr>so_id = cid c, so_cmd = Some (ra_cmd a), so_detach = d, so_volumes = Some (volume_list c),
        so_ws = Some ws, so_attr = attr\<rparr> (start_callback P (sync_info (w_env w) c)) (w\<lparr>w_file := f\<rparr>) \<and>
    dao_state (P_json P) jtext f (upd_first (matches v) (sync_info (w_env w)) cs)"
proof -
  let ?c = "sync_info (w_env w) c"
  from lookup_result [OF lib tab wr, of v] c(1) obtain f where
    l: "lookup P v w = (Inr (Some ?c), w\<lparr>w_file := f\<rparr>)"
    "dao_state (P_json P) jtext f (upd_first (matches v) (sync_info (w_env w)) cs)" by auto
  have "status ?c \<noteq> CONTAINER_RUNNING" "command ?c = command c" "volume_list ?c = volume_list c"
    using c(2) by (auto simp: sync_info_def)
  then show ?thesis using l split_joined [OF mem run]
    by (auto simp: startContainer_def cbind_def lift_res_def)
qed

theorem restart_same_command_witness:
  "\<exists>f. startContainer demo_plat True ''web'' None (24, 80) (demo_world demo_file) =
     service_start demo_plat \<lparr>so_id = ''a1'', so_cmd = Some [''bash''], so_detach = True, so_volumes = Some [''/data:/data''],
       so_ws = Some (24, 80), so_attr = None\<rparr>
       (start_callback demo_plat (sync_info demo_env demo_info)) ((demo_world demo_file)\<lparr>w_file := f\<rparr>)"
proof -
  have P: "P_json demo_plat = json_impl" "P_kernel demo_plat = demo_kernel" "w_file (demo_world demo_file) = demo_file"
    "w_env (demo_world demo_file) = demo_env" by (simp_all add: demo_plat_def demo_world_def)
  let ?a = "\<lparr>ra_detach = True, ra_volumes = [], ra_name = None, ra_cmd = [''bash'']\<rparr>"
  have j: "array_join (mem_ok demo_kernel) ENOMEM (ra_cmd ?a) '' '' = Inr (Some (command demo_info))"
    by (simp add: array_join_def Let_def strcat_def demo_kernel_def)
  have m: "\<forall>k. mem_ok demo_kernel k" by (simp add: demo_kernel_def)
  have p: "\<forall>x \<in> set (ra_cmd ?a). plain_arg x" by (simp add: plain_arg_def BLANK_def)
  from restart_same_command [of demo_plat doc_jv text_jv "demo_world demo_file" _ "''web''", unfolded P,
      OF jimpl.json_library_axioms demo_file_state _ m demo_find _ j p, of True None "(24, 80)"]
  show ?thesis by (auto simp: empty_info_def)
qed

end
