(* ===== verification/StartSync.thy ===== *)
theory StartSync
  imports Commands
begin

text \<open>
  \<open>ContainerService::start\<close> as it runs: the caller waits for the semaphore while the server clones the
  container, waits for its first output, records it, listens and notifies; the container's process mounts its root,
  and writes and ends when it likes, or never. The three interleave freely. One step of the server is one of the pieces
  that \<open>pty_run_container\<close> is composed of; in its loop it is one round, with any answer of \<open>select\<close> and \<open>accept\<close>, so a
  server that serves for ever is an infinite run.
\<close>

section \<open>The processes\<close>

datatype srv_pc =
    S_begin
  | S_cloned int int
  | S_read int int "int \<times> string"
  | S_saved int int "int \<times> string"
  | S_listens int int "int \<times> string" int
  | S_ready int int "int \<times> string" int pool
  | S_notified int int "int \<times> string" int pool
  | S_served int
  | S_end bool "unit res"      \<comment> \<open>whether it had notified, and how it ended\<close>

text \<open>The container's process: it does not exist, it mounts, it has come to its command and written nothing yet, it
  has written, or it has ended.\<close>

datatype chl_pc = C_none | C_mounts | C_done | C_spoke | C_gone

datatype par_pc = P_waits | P_goes | P_end "unit res"

record sync =
  srv :: srv_pc
  chl :: chl_pc
  par :: par_pc
  srv_w :: world
  par_w :: world

text \<open>A piece of the server: where it goes on, or that it ends there.\<close>

definition advance :: "bool \<Rightarrow> 'a cmd \<Rightarrow> ('a \<Rightarrow> srv_pc) \<Rightarrow> world \<Rightarrow> srv_pc \<times> world" where
  "advance notified m k w = (case m w of (Inl e, w') \<Rightarrow> (S_end notified (Inl e), w') | (Inr x, w') \<Rightarrow> (k x, w'))"

fun srv_next :: "'j plat \<Rightarrow> start_opt \<Rightarrow> int \<Rightarrow> (int \<Rightarrow> unit cmd) \<Rightarrow> sel \<times> acc \<Rightarrow> srv_pc \<Rightarrow> world \<Rightarrow> srv_pc \<times> world" where
  "srv_next P opt sem cb inp S_begin = advance False (srv_clone P opt) (\<lambda>(c, m). S_cloned c m)"
| "srv_next P opt sem cb inp (S_cloned c m) = advance False (srv_read m) (S_read c m)"
| "srv_next P opt sem cb inp (S_read c m hdr) = advance False (cb c) (\<lambda>_. S_saved c m hdr)"
| "srv_next P opt sem cb inp (S_saved c m hdr) = advance False (srv_listen P (so_id opt)) (S_listens c m hdr)"
| "srv_next P opt sem cb inp (S_listens c m hdr fd) = advance False (lift_res (init_pool fd m pool0)) (S_ready c m hdr fd)"
| "srv_next P opt sem cb inp (S_ready c m hdr fd p) = advance True (srv_notify sem) (\<lambda>_. S_notified c m hdr fd p)"
| "srv_next P opt sem cb inp (S_notified c m hdr fd p) =
     advance True (srv_serve fd hdr inp p) (\<lambda>(done, p'). if done then S_served c else S_notified c m hdr fd p')"
| "srv_next P opt sem cb inp (S_served c) = advance True (srv_finish P (so_id opt) c) (\<lambda>_. S_end True (Inr ()))"
| "srv_next P opt sem cb inp (S_end n r) = (\<lambda>w. (S_end n r, w))"

text \<open>The first \<open>read\<close> of the master waits for output of the container, or its end; \<open>wait\<close> waits for its end.\<close>

fun srv_may :: "srv_pc \<Rightarrow> chl_pc \<Rightarrow> bool" where
  "srv_may (S_cloned c m) k \<longleftrightarrow> k = C_spoke \<or> k = C_gone"
| "srv_may (S_served c) k \<longleftrightarrow> k = C_gone"
| "srv_may (S_end n r) k \<longleftrightarrow> False"
| "srv_may _ k \<longleftrightarrow> True"

text \<open>The caller after the wait.\<close>

definition par_go :: "'j plat \<Rightarrow> start_opt \<Rightarrow> unit cmd" where
  "par_go P opt = (if \<not> so_detach opt then c_client P (so_id opt) else print_out (so_id opt @ NL))"

inductive sync_step :: "'j plat \<Rightarrow> start_opt \<Rightarrow> int \<Rightarrow> (int \<Rightarrow> unit cmd) \<Rightarrow> sync \<Rightarrow> sync \<Rightarrow> bool"
  for P opt sem cb where
  server: "srv_may (srv s) (chl s) \<Longrightarrow> srv_next P opt sem cb inp (srv s) (srv_w s) = (pc, w) \<Longrightarrow>
    sync_step P opt sem cb s
      (s\<lparr>srv := pc, chl := (if srv s = S_begin \<and> (\<exists>c m. pc = S_cloned c m) then C_mounts else chl s),
         srv_w := w, par_w := srv_state w (par_w s)\<rparr>)"
| child: "chl s = C_mounts \<Longrightarrow> srv_child P opt (srv_w s) = (Inr (), w) \<Longrightarrow>
    sync_step P opt sem cb s (s\<lparr>chl := C_done, srv_w := w, par_w := srv_state w (par_w s)\<rparr>)"
| speaks: "chl s = C_done \<Longrightarrow> sync_step P opt sem cb s (s\<lparr>chl := C_spoke\<rparr>)"
| ends: "chl s = C_done \<or> chl s = C_spoke \<Longrightarrow> sync_step P opt sem cb s (s\<lparr>chl := C_gone\<rparr>)"
| woken: "par s = P_waits \<Longrightarrow> semop sem 0 (w_ipc (par_w s)) = Done i \<Longrightarrow>
    sync_step P opt sem cb s
      (s\<lparr>par := P_goes, par_w := (par_w s)\<lparr>w_ipc := i\<rparr>, srv_w := (srv_w s)\<lparr>w_ipc := i\<rparr>\<rparr>)"
| goes: "par s = P_goes \<Longrightarrow> par_go P opt (par_w s) = (r, w) \<Longrightarrow>
    sync_step P opt sem cb s (s\<lparr>par := P_end r, par_w := w\<rparr>)"

section \<open>The invariant\<close>

fun notified :: "srv_pc \<Rightarrow> bool" where
  "notified (S_notified c m hdr fd p) = True"
| "notified (S_served c) = True"
| "notified (S_end n r) = n"
| "notified _ = False"

fun listening :: "srv_pc \<Rightarrow> bool" where
  "listening (S_listens c m hdr fd) = True"
| "listening (S_ready c m hdr fd p) = True"
| "listening (S_notified c m hdr fd p) = True"
| "listening (S_served c) = True"
| "listening _ = False"

text \<open>The table at each point of the server: \<open>info c\<close> is the description it records for the child \<open>c\<close>.\<close>

fun table_at :: "container_info list \<Rightarrow> (int \<Rightarrow> container_info) \<Rightarrow> srv_pc \<Rightarrow> container_info list set" where
  "table_at cs info S_begin = {cs}"
| "table_at cs info (S_cloned c m) = {cs}"
| "table_at cs info (S_read c m hdr) = {cs}"
| "table_at cs info (S_saved c m hdr) = {cs @ [norm_info (info c)]}"
| "table_at cs info (S_listens c m hdr fd) = {cs @ [norm_info (info c)]}"
| "table_at cs info (S_ready c m hdr fd p) = {cs @ [norm_info (info c)]}"
| "table_at cs info (S_notified c m hdr fd p) = {cs @ [norm_info (info c)]}"
| "table_at cs info (S_served c) = {cs @ [norm_info (info c)]}"
| "table_at cs info (S_end n r) = UNIV"

definition shared :: "world \<Rightarrow> world \<Rightarrow> bool" where
  "shared v w \<longleftrightarrow> w_file v = w_file w \<and> w_env v = w_env w \<and> w_ipc v = w_ipc w \<and> w_listen v = w_listen w"

definition sem_value :: "int \<Rightarrow> ipc \<Rightarrow> int option" where
  "sem_value i s = map_option semval (sems s i)"

text \<open>What the pieces of the server leave alone.\<close>

lemma srv_clone_frame:
  "srv_clone P opt w = (r, w') \<Longrightarrow> w_file w' = w_file w \<and> writable (w_env w') = writable (w_env w) \<and>
    now (w_env w') = now (w_env w) \<and> w_ipc w' = w_ipc w \<and> w_listen w' = w_listen w"
  by (auto simp: srv_clone_def split: sum.splits clone_ret.splits option.splits)

lemma srv_child_frame: "srv_child P opt w = (r, w') \<Longrightarrow> shared w' w"
  by (auto simp: srv_child_def shared_def)

lemma srv_read_frame: "srv_read m w = (r, w') \<Longrightarrow> shared w' w"
  by (auto simp: srv_read_def shared_def split: prod.splits)

lemma srv_serve_frame: "srv_serve fd hdr inp p w = (r, w') \<Longrightarrow> shared w' w"
  by (auto simp: srv_serve_def shared_def split: sum.splits)

lemma lift_res_frame: "lift_res x w = (r, w') \<Longrightarrow> shared w' w"
  by (auto simp: lift_res_def shared_def)

lemma par_go_frame: "par_go P opt w = (r, w') \<Longrightarrow> shared w' w"
  by (auto simp: par_go_def c_client_def print_out_def cput_def shared_def split: prod.splits if_splits)

lemma srv_listen_result:
  "srv_listen P ctr w = (r, w') \<Longrightarrow> w_file w' = w_file w \<and> w_env w' = w_env w \<and> w_ipc w' = w_ipc w \<and>
    set (w_listen w) \<subseteq> set (w_listen w') \<and> (\<forall>fd. r = Inr fd \<longrightarrow> sun_path ctr \<in> set (w_listen w'))"
  by (auto simp: srv_listen_def cmd_defs split: sum.splits option.splits)

lemma srv_notify_result:
  assumes "srv_notify sem w = (r, w')" "sem_value sem (w_ipc w) = Some v"
  shows "r = Inr ()" "sem_value sem (w_ipc w') = Some 0" "w_file w' = w_file w" "w_env w' = w_env w" "w_listen w' = w_listen w"
  using assms by (auto simp: srv_notify_def cput_def sem_set_def sem_value_def upd_sem_def SEMVMX_def split: option.splits)

lemma on_file_u_frame:
  "on_file_u g w = (r, w') \<Longrightarrow> w_env w' = w_env w \<and> w_ipc w' = w_ipc w \<and> w_listen w' = w_listen w"
  by (auto simp: on_file_u_def on_file_def split: sum.splits)

lemma srv_finish_frame:
  "srv_finish P ctr c w = (r, w') \<Longrightarrow>
    writable (w_env w') = writable (w_env w) \<and> now (w_env w') = now (w_env w) \<and> w_ipc w' = w_ipc w \<and> w_listen w' = w_listen w"
  by (auto simp: srv_finish_def cmd_defs reap_def dest!: c_umount_frame split: if_splits sum.splits prod.splits)

lemma upd_first_last:
  "\<forall>x \<in> set cs. \<not> Q x \<Longrightarrow> Q r \<Longrightarrow> upd_first Q g (cs @ [r]) = cs @ [g r]"
  "\<forall>x \<in> set cs. \<not> Q x \<Longrightarrow> Q r \<Longrightarrow> find Q (cs @ [r]) = Some r"
  by (induction cs) auto

text \<open>How a round of the server can fail, and the unmounting of the directories.\<close>

lemma check_clients_error: "check_clients i p s = Inl e \<Longrightarrow> e = OutOfBounds"
proof (induction i p s rule: check_clients.induct)
  case (1 i p s)
  from 1(5) 1(1-4) show ?case
    by (subst (asm) check_clients.simps) (auto simp: Let_def split: if_splits prod.splits)
qed

lemma send_clients_error: "send_clients bs i p s = Inl e \<Longrightarrow> e = OutOfBounds"
proof (induction bs i p s rule: send_clients.induct)
  case (1 bs i p s)
  show ?case
  proof (cases "int i \<le> maxi p \<and> i < length (clientfd p)")
    case False
    then show ?thesis using 1(4) by (simp add: send_clients.simps [of bs i p s] split: if_splits)
  next
    case True
    obtain n s1 where w: "rio_writen (clientfd p ! i) bs s = (n, s1)" by fastforce
    show ?thesis
    proof (cases "clientfd p ! i > 0")
      case False
      then show ?thesis using True 1(3,4) by (simp add: send_clients.simps [of bs i p s])
    next
      case pos: True
      with True w 1(4) have "(if n \<noteq> int (length bs) then send_clients bs (Suc i) (drop_client i p) (sys_close (clientfd p ! i) s1)
          else send_clients bs (Suc i) p s1) = Inl e"
        by (simp add: send_clients.simps [of bs i p s] Let_def)
      then show ?thesis using True pos w 1(1,2) by (metis (no_types, lifting))
    qed
  qed
qed

lemma srv_serve_error:
  assumes "srv_serve fd hdr inp p w = (Inl e, w')"
  shows "e = OutOfBounds"
proof -
  have "add_client c q = Inl e \<Longrightarrow> e = OutOfBounds" for c q e
    by (auto simp: add_client_def FD_SET_def Let_def split: option.splits if_splits)
  moreover have "check_clients_and_master q t = Inl e \<Longrightarrow> e = OutOfBounds" for q t e
    by (auto simp: check_clients_and_master_def rbind_def Let_def split: sum.splits if_splits prod.splits
        dest: check_clients_error send_clients_error)
  ultimately show ?thesis using assms
    by (auto simp: srv_serve_def server_iter_def rbind_def Let_def split: sum.splits if_splits prod.splits)
qed

lemma umount_dirs_error: "umount_dirs K junk ctr h = Inl e \<Longrightarrow> e = OutOfBounds"
proof -
  have loop: "umount_loop K rootfs ds line h = Inl e \<Longrightarrow> e = OutOfBounds" for rootfs ds line h
    by (induction ds arbitrary: line h) (auto simp: rbind_def sprintf_def split: if_splits sum.splits)
  have "getMergedDir ctr None = Inl e \<Longrightarrow> e = OutOfBounds"
    by (auto simp: getMergedDir_def getLayerDir_def getUnionFS_def sprintf_def rbind_def split: if_splits sum.splits)
  then show "umount_dirs K junk ctr h = Inl e \<Longrightarrow> e = OutOfBounds"
    by (auto simp: umount_dirs_def rbind_def split: sum.splits dest: loop)
qed

text \<open>The end of a server whose container is in the table: it never gets beyond the read of the destroyed set, and
  when it gets there the record says what has become of the process.\<close>

lemma srv_finish_result:
  assumes lib: "json_library (P_json P) jdoc jtext" and tab: "dao_state (P_json P) jtext (w_file w) (cs @ [row])"
    and new: "\<forall>x \<in> set cs. \<not> matches ctr x" "matches ctr row"
    and w: "writable (w_env w)" "srv_finish P ctr c w = (r, w')"
  shows "r \<noteq> Inr () \<and> (r = Inl UseAfterFree \<longrightarrow> dao_state (P_json P) jtext (w_file w') (cs @ [sync_info (w_env w') row]))"
proof -
  let ?w1 = "snd (reap P (P_wait P) w)" and ?J = "P_json P"
  have w1: "writable (w_env ?w1)" "w_file ?w1 = w_file w" using w(1) by (simp_all add: reap_def cput_def)
  from container_store.lookup_law [OF json_library.dao_store [OF lib] tab w1(1), of ctr] upd_first_last [OF new] obtain f where
    f: "get_container_by_id_or_name ?J (w_env ?w1) ctr (w_file w) = Inr (Some (sync_info (w_env ?w1) row), f)"
      "dao_state ?J jtext f (cs @ [sync_info (w_env ?w1) row])" by auto
  have "c_umount P ctr ?w1 = (case umount_dirs (P_kernel P) (P_junk P) ctr (w_host ?w1) of
      Inl e \<Rightarrow> (Inl e, ?w1) | Inr h \<Rightarrow> (Inl UseAfterFree, ?w1\<lparr>w_host := h, w_file := f\<rparr>))"
    using f(1) w1(2) by (simp add: c_umount_def umount_container_def umount_volume_list_def split: sum.split)
  moreover have "srv_finish P ctr c w = (if P_wait P \<noteq> c then (Inl AssertFail, ?w1) else
      (case c_umount P ctr ?w1 of (Inl e, v) \<Rightarrow> (Inl e, v)
       | (Inr u, v) \<Rightarrow> on_file_u (\<lambda>env. change_status_to_stop ?J env ctr) v))"
    by (simp add: srv_finish_def cthen_def cbind_def cfail_def reap_def cput_def)
  moreover have "umount_dirs (P_kernel P) (P_junk P) ctr (w_host ?w1) \<noteq> Inl UseAfterFree" using umount_dirs_error by blast
  ultimately show ?thesis using w(2) f(2) by (auto split: if_splits sum.splits)
qed

text \<open>The assumptions on the container being started: its description fits the table and its identifier is
  new, as identifier and as name.\<close>

definition new_container :: "(string \<Rightarrow> bool) \<Rightarrow> container_info list \<Rightarrow> (int \<Rightarrow> container_info) \<Rightarrow> string \<Rightarrow> bool" where
  "new_container jtext cs info ctr \<longleftrightarrow>
     (\<forall>c. storable jtext (info c) \<and> cid (info c) = ctr) \<and> (\<forall>x \<in> set cs. \<not> matches ctr x)"

lemma save_table:
  assumes lib: "json_library (P_json P) jdoc jtext" and tab: "dao_state (P_json P) jtext (w_file w) cs"
    and new: "new_container jtext cs info ctr" and "writable (w_env w)"
    and "on_file_u (\<lambda>env. dao_insert (P_json P) env (info c)) w = (r, w')"
  shows "r = Inr ()" "dao_state (P_json P) jtext (w_file w') (cs @ [norm_info (info c)])"
proof -
  have "storable jtext (info c)" "cid (info c) \<notin> cid ` set cs" using new by (auto simp: new_container_def)
  from container_store.insert_law [OF json_library.dao_store [OF lib] tab this assms(4)] obtain f where
    "dao_insert (P_json P) (w_env w) (info c) (w_file w) = Inr f" "dao_state (P_json P) jtext f (cs @ [norm_info (info c)])"
    by blast
  then show "r = Inr ()" "dao_state (P_json P) jtext (w_file w') (cs @ [norm_info (info c)])"
    using assms(5) by (auto simp: on_file_u_def on_file_def)
qed

definition saves :: "'j plat \<Rightarrow> (int \<Rightarrow> container_info) \<Rightarrow> int \<Rightarrow> unit cmd" where
  "saves P info c = on_file_u (\<lambda>env. dao_insert (P_json P) env (info c))"

text \<open>A callback that, at time \<open>t\<close>, does no more than that; the one of \<open>hoststack run\<close> is such a one.\<close>

definition records :: "'j plat \<Rightarrow> (int \<Rightarrow> container_info) \<Rightarrow> int \<Rightarrow> (int \<Rightarrow> unit cmd) \<Rightarrow> bool" where
  "records P info t cb \<longleftrightarrow> (\<forall>c v. now (w_env v) = t \<longrightarrow> cb c v = saves P info c v)"

lemma run_callback_records:
  assumes "array_join (mem_ok (P_kernel P)) ENOMEM (ra_cmd a) '' '' = Inr (Some cmd)" "info = run_info ctr a cmd t"
  shows "records P info t (run_callback P ctr a)"
  using assms by (simp add: records_def run_callback_def saves_def cmd_defs)

definition core_inv :: "(data_file \<Rightarrow> container_info list \<Rightarrow> bool) \<Rightarrow> container_info list \<Rightarrow> (int \<Rightarrow> container_info) \<Rightarrow>
    string \<Rightarrow> int \<Rightarrow> int \<Rightarrow> srv_pc \<Rightarrow> world \<Rightarrow> bool" where
  "core_inv tab cs info ctr sem t pc w \<longleftrightarrow>
     writable (w_env w) \<and> now (w_env w) = t \<and> sem_value sem (w_ipc w) = Some (if notified pc then 0 else 1) \<and>
     (listening pc \<longrightarrow> sun_path ctr \<in> set (w_listen w)) \<and>
     ((\<forall>n r. pc \<noteq> S_end n r) \<longrightarrow> (\<exists>T \<in> table_at cs info pc. tab (w_file w) T)) \<and> pc \<noteq> S_end True (Inr ()) \<and>
     (pc = S_end True (Inl UseAfterFree) \<longrightarrow> (\<exists>c. tab (w_file w) (cs @ [sync_info (w_env w) (norm_info (info c))])))"

lemma core_inv_cong: "shared v w \<Longrightarrow> core_inv tab cs info ctr sem t pc v = core_inv tab cs info ctr sem t pc w"
  by (simp add: core_inv_def shared_def)

definition sync_inv :: "(data_file \<Rightarrow> container_info list \<Rightarrow> bool) \<Rightarrow> container_info list \<Rightarrow> (int \<Rightarrow> container_info) \<Rightarrow>
    string \<Rightarrow> int \<Rightarrow> int \<Rightarrow> sync \<Rightarrow> bool" where
  "sync_inv tab cs info ctr sem t s \<longleftrightarrow>
     shared (srv_w s) (par_w s) \<and> core_inv tab cs info ctr sem t (srv s) (srv_w s) \<and>
     (par s \<noteq> P_waits \<longrightarrow> notified (srv s))"

lemma srv_next_end: "srv_may pc k \<Longrightarrow> srv_next P opt sem cb inp pc w = (pc', w') \<Longrightarrow> notified pc \<Longrightarrow> notified pc'"
  by (cases "(P, opt, sem, cb, inp, pc)" rule: srv_next.cases) (auto simp: advance_def split: prod.splits sum.splits if_splits)

lemma srv_next_inv:
  assumes lib: "json_library (P_json P) jdoc jtext" and new: "new_container jtext cs info (so_id opt)"
    and rec: "records P info t cb"
    and inv: "core_inv (dao_state (P_json P) jtext) cs info (so_id opt) sem t pc w"
    and step: "srv_next P opt sem cb inp pc w = (pc', w')"
  shows "core_inv (dao_state (P_json P) jtext) cs info (so_id opt) sem t pc' w'"
proof (cases pc)
  case S_begin
  obtain r v where m: "srv_clone P opt w = (r, v)" by fastforce
  show ?thesis using step inv S_begin m srv_clone_frame [OF m]
    by (auto simp: advance_def core_inv_def split: sum.splits)
next
  case (S_cloned c m)
  obtain r v where h: "srv_read m w = (r, v)" by fastforce
  show ?thesis using step inv S_cloned h srv_read_frame [OF h]
    by (auto simp: advance_def core_inv_def shared_def split: sum.splits)
next
  case (S_read c m hdr)
  obtain r v where h: "saves P info c w = (r, v)" by fastforce
  have tab: "dao_state (P_json P) jtext (w_file w) cs" "writable (w_env w)" "cb c w = saves P info c w"
    using inv S_read rec by (auto simp: core_inv_def records_def)
  from save_table [OF lib tab(1) new tab(2) h [unfolded saves_def]] step inv S_read h tab(3)
    on_file_u_frame [OF h [unfolded saves_def]] show ?thesis
    by (auto simp: advance_def core_inv_def)
next
  case (S_saved c m hdr)
  obtain r v where h: "srv_listen P (so_id opt) w = (r, v)" by fastforce
  show ?thesis using step inv S_saved h srv_listen_result [OF h]
    by (auto simp: advance_def core_inv_def split: sum.splits)
next
  case (S_listens c m hdr fd)
  then show ?thesis using step inv
    by (auto simp: advance_def core_inv_def lift_res_def split: sum.splits)
next
  case (S_ready c m hdr fd p)
  obtain r v where h: "srv_notify sem w = (r, v)" by fastforce
  have "sem_value sem (w_ipc w) = Some 1" using inv S_ready by (simp add: core_inv_def)
  from srv_notify_result [OF h this] step inv S_ready h show ?thesis by (auto simp: advance_def core_inv_def)
next
  case (S_notified c m hdr fd p)
  obtain r v where h: "srv_serve fd hdr inp p w = (r, v)" by fastforce
  show ?thesis using step inv S_notified h srv_serve_frame [OF h] srv_serve_error [of fd hdr inp p w _ v]
    by (auto simp: advance_def core_inv_def shared_def split: sum.splits if_splits)
next
  case (S_served c)
  obtain r v where h: "srv_finish P (so_id opt) c w = (r, v)" by fastforce
  have tab: "dao_state (P_json P) jtext (w_file w) (cs @ [norm_info (info c)])" "writable (w_env w)"
    using inv S_served by (auto simp: core_inv_def)
  have n: "\<forall>x \<in> set cs. \<not> matches (so_id opt) x" "matches (so_id opt) (norm_info (info c))"
    using new by (auto simp: new_container_def)
  show ?thesis
    using step inv S_served h srv_finish_frame [OF h] srv_finish_result [OF lib tab(1) n tab(2) h]
    by (auto simp: advance_def core_inv_def split: sum.splits)
next
  case (S_end n r)
  then show ?thesis using step inv by simp
qed

lemma sync_step_inv:
  assumes lib: "json_library (P_json P) jdoc jtext" and new: "new_container jtext cs info (so_id opt)"
    and rec: "records P info t cb" and step: "sync_step P opt sem cb s s'"
    and inv: "sync_inv (dao_state (P_json P) jtext) cs info (so_id opt) sem t s"
  shows "sync_inv (dao_state (P_json P) jtext) cs info (so_id opt) sem t s'"
  using step
proof cases
  case (server inp pc w)
  have "core_inv (dao_state (P_json P) jtext) cs info (so_id opt) sem t pc w"
    using srv_next_inv [OF lib new rec _ server(3)] inv by (auto simp: sync_inv_def)
  moreover have "notified (srv s) \<Longrightarrow> notified pc" using srv_next_end server(2,3) by blast
  moreover have "shared w (srv_state w (par_w s))" by (simp add: shared_def srv_state_def)
  ultimately show ?thesis using server(1) inv by (auto simp: sync_inv_def)
next
  case (child w)
  have "shared w (srv_w s)" by (rule srv_child_frame [OF child(3)])
  then have "core_inv (dao_state (P_json P) jtext) cs info (so_id opt) sem t (srv s) w"
    using inv by (simp add: sync_inv_def core_inv_cong)
  moreover have "shared w (srv_state w (par_w s))" by (simp add: shared_def srv_state_def)
  ultimately show ?thesis using child(1) inv by (auto simp: sync_inv_def)
next
  case speaks
  then show ?thesis using inv by (simp add: sync_inv_def)
next
  case ends
  then show ?thesis using inv by (simp add: sync_inv_def)
next
  case (woken i)
  have sh: "w_ipc (par_w s) = w_ipc (srv_w s)" using inv by (simp add: sync_inv_def shared_def)
  have "sem_at_zero sem (w_ipc (par_w s))" "sem_value sem i = sem_value sem (w_ipc (srv_w s))"
    using woken(3) sh
    by (auto simp: semop_def Let_def sem_at_zero_def sem_value_def upd_sem_def split: option.splits if_splits)
  then have "notified (srv s)" using inv sh
    by (auto simp: sync_inv_def core_inv_def sem_at_zero_def sem_value_def split: if_splits option.splits)
  then show ?thesis using woken(1) inv \<open>sem_value sem i = _\<close>
    by (auto simp: sync_inv_def core_inv_def shared_def)
next
  case (goes r w)
  have "shared w (par_w s)" by (rule par_go_frame [OF goes(3)])
  then have "shared (srv_w s) w" using inv by (simp add: sync_inv_def shared_def)
  moreover have "notified (srv s)" using inv goes(2) by (simp add: sync_inv_def)
  ultimately show ?thesis using goes(1) inv by (simp add: sync_inv_def)
qed

section \<open>Properties of starting a container\<close>

definition sync_init :: "world \<Rightarrow> sync" where
  "sync_init w = \<lparr>srv = S_begin, chl = C_none, par = P_waits, srv_w = w, par_w = w\<rparr>"

lemma reach_inv:
  assumes lib: "json_library (P_json P) jdoc jtext" and new: "new_container jtext cs info (so_id opt)"
    and rec: "records P info (now (w_env w)) cb"
    and w: "dao_state (P_json P) jtext (w_file w) cs" "writable (w_env w)" "sem_value sem (w_ipc w) = Some 1"
    and reach: "rtranclp (sync_step P opt sem cb) (sync_init w) s"
  shows "sync_inv (dao_state (P_json P) jtext) cs info (so_id opt) sem (now (w_env w)) s"
  using reach
proof (induction rule: rtranclp_induct)
  case base
  then show ?case using w by (simp add: sync_init_def sync_inv_def core_inv_def shared_def)
next
  case (step s s')
  show ?case by (rule sync_step_inv [OF lib new rec step(2,3)])
qed

text \<open>C8 (safety): when \<open>hoststack run\<close> starts a new container, then however its process (the caller of
  \<open>start\<close>), the server and the container's process interleave, the caller goes on (attaches its terminal, or prints the identifier) only after the container has been
  recorded and its socket listens, and as long as the server runs both stay so. The server never ends in order: at
  the end it reads a set that has been destroyed; when it has got there, the container is recorded with the state its
  process is in, that is as stopped once the process is gone.\<close>

theorem start_synchronises:
  assumes lib: "json_library (P_json P) jdoc jtext" and join: "array_join (mem_ok (P_kernel P)) ENOMEM (ra_cmd a) '' '' = Inr (Some cmd)"
    and info: "info = run_info (so_id opt) a cmd (now (w_env w))" and new: "new_container jtext cs info (so_id opt)"
    and w: "dao_state (P_json P) jtext (w_file w) cs" "writable (w_env w)" "sem_value sem (w_ipc w) = Some 1"
    and reach: "rtranclp (sync_step P opt sem (run_callback P (so_id opt) a)) (sync_init w) s" and par: "par s \<noteq> P_waits"
  shows "notified (srv s) \<and>
    ((\<forall>n r. srv s \<noteq> S_end n r) \<longrightarrow> sun_path (so_id opt) \<in> set (w_listen (par_w s)) \<and>
       (\<exists>c. get_container_by_id (P_json P) (so_id opt) (w_file (par_w s)) = Inr (Some (norm_info (info c))))) \<and>
    srv s \<noteq> S_end True (Inr ()) \<and>
    (srv s = S_end True (Inl UseAfterFree) \<longrightarrow>
       (\<exists>c. get_container_by_id (P_json P) (so_id opt) (w_file (par_w s)) =
          Inr (Some (sync_info (w_env (par_w s)) (norm_info (info c))))))"
proof -
  have inv: "sync_inv (dao_state (P_json P) jtext) cs info (so_id opt) sem (now (w_env w)) s"
    by (rule reach_inv [OF lib new run_callback_records [OF join info] w reach])
  then have n: "notified (srv s)" using par by (simp add: sync_inv_def)
  have sh: "w_file (par_w s) = w_file (srv_w s)" "w_listen (par_w s) = w_listen (srv_w s)" "w_env (par_w s) = w_env (srv_w s)"
    using inv by (simp_all add: sync_inv_def shared_def)
  have look: "get_container_by_id (P_json P) (so_id opt) f = Inr (Some row)"
    if "dao_state (P_json P) jtext f (cs @ [row])" "cid row = so_id opt" for f row
  proof -
    have "\<forall>x \<in> set cs. cid x \<noteq> so_id opt" using new by (auto simp: new_container_def)
    from upd_first_last(2) [where Q = "\<lambda>x. cid x = so_id opt", OF this that(2)]
    show ?thesis using container_store.by_id_law [OF json_library.dao_store [OF lib] that(1)] by simp
  qed
  have cid: "cid (norm_info (info c)) = so_id opt" "cid (sync_info env (norm_info (info c))) = so_id opt" for c env
    using new by (simp_all add: new_container_def)
  have run: "listening (srv s) \<and> (\<exists>c. table_at cs info (srv s) = {cs @ [norm_info (info c)]})"
    if "\<forall>n r. srv s \<noteq> S_end n r" using that n by (cases "srv s") auto
  have c: "core_inv (dao_state (P_json P) jtext) cs info (so_id opt) sem (now (w_env w)) (srv s) (srv_w s)"
    using inv by (simp add: sync_inv_def)
  show ?thesis
  proof (intro conjI impI)
    assume e: "\<forall>n r. srv s \<noteq> S_end n r"
    with run c sh(2) show "sun_path (so_id opt) \<in> set (w_listen (par_w s))" by (simp add: core_inv_def)
    from e run c have "\<exists>x. dao_state (P_json P) jtext (w_file (srv_w s)) (cs @ [norm_info (info x)])"
      by (fastforce simp: core_inv_def)
    with look cid(1) sh(1)
    show "\<exists>c. get_container_by_id (P_json P) (so_id opt) (w_file (par_w s)) = Inr (Some (norm_info (info c)))"
      by metis
  next
    assume "srv s = S_end True (Inl UseAfterFree)"
    with c have "\<exists>x. dao_state (P_json P) jtext (w_file (srv_w s)) (cs @ [sync_info (w_env (srv_w s)) (norm_info (info x))])"
      by (auto simp: core_inv_def)
    with look cid(2) sh(1,3) show "\<exists>c. get_container_by_id (P_json P) (so_id opt) (w_file (par_w s)) =
        Inr (Some (sync_info (w_env (par_w s)) (norm_info (info c))))" by metis
  qed (use n c in \<open>simp_all add: core_inv_def\<close>)
qed

text \<open>C28 (error): a server that ends before it has notified (the clone, the record, the socket or the table
  of descriptors failed) leaves its caller waiting: in every state that follows, the caller still waits.\<close>

theorem start_can_wait_for_ever:
  assumes lib: "json_library (P_json P) jdoc jtext" and join: "array_join (mem_ok (P_kernel P)) ENOMEM (ra_cmd a) '' '' = Inr (Some cmd)"
    and info: "info = run_info (so_id opt) a cmd (now (w_env w))" and new: "new_container jtext cs info (so_id opt)"
    and w: "dao_state (P_json P) jtext (w_file w) cs" "writable (w_env w)" "sem_value sem (w_ipc w) = Some 1"
    and reach: "rtranclp (sync_step P opt sem (run_callback P (so_id opt) a)) (sync_init w) s"
    and dead: "srv s = S_end False r"
    and later: "rtranclp (sync_step P opt sem (run_callback P (so_id opt) a)) s s'"
  shows "srv s' = S_end False r \<and> par s' = P_waits"
proof -
  have "srv s' = S_end False r"
    using later
  proof (induction rule: rtranclp_induct)
    case (step x y)
    from step(2,3) show ?case by cases auto
  qed (rule dead)
  moreover have "rtranclp (sync_step P opt sem (run_callback P (so_id opt) a)) (sync_init w) s'"
    using reach later by (rule rtranclp_trans)
  from reach_inv [OF lib new run_callback_records [OF join info] w this] have "par s' \<noteq> P_waits \<longrightarrow> notified (srv s')" by (simp add: sync_inv_def)
  ultimately show ?thesis by auto
qed

section \<open>A container that stays silent\<close>

text \<open>Where the server is before the container has written anything, and that it has opened no socket by then.\<close>

definition silent_inv :: "string list \<Rightarrow> sync \<Rightarrow> bool" where
  "silent_inv ls s \<longleftrightarrow>
     (chl s = C_none \<longrightarrow> (srv s = S_begin \<or> (\<exists>r. srv s = S_end False r)) \<and> w_listen (srv_w s) = ls) \<and>
     (chl s = C_mounts \<or> chl s = C_done \<longrightarrow> (\<exists>c m. srv s = S_cloned c m) \<and> w_listen (srv_w s) = ls) \<and>
     (chl s = C_spoke \<or> chl s = C_gone \<longrightarrow> srv s \<noteq> S_begin)"

lemma silent_step:
  assumes "sync_step P opt sem cb s s'" "silent_inv ls s"
  shows "silent_inv ls s'"
  using assms(1)
proof cases
  case (server inp pc w)
  show ?thesis
  proof (cases "chl s = C_none")
    case True
    then have b: "srv s = S_begin" using server(2) assms(2) by (auto simp: silent_inv_def)
    obtain r v where m: "srv_clone P opt (srv_w s) = (r, v)" by fastforce
    show ?thesis using True b server assms(2) m srv_clone_frame [OF m]
      by (auto simp: silent_inv_def advance_def split: sum.splits prod.splits)
  next
    case False
    with server(2) assms(2) have k: "chl s = C_spoke \<or> chl s = C_gone" "srv s \<noteq> S_begin"
      by (cases "chl s"; auto simp: silent_inv_def)+
    moreover have "pc \<noteq> S_begin" using server(3) k(2)
      by (cases "(P, opt, sem, cb, inp, srv s)" rule: srv_next.cases) (auto simp: advance_def split: prod.splits sum.splits if_splits)
    ultimately show ?thesis using server(1) by (auto simp: silent_inv_def)
  qed
next
  case (child w)
  then show ?thesis using assms(2) srv_child_frame [OF child(3)] by (auto simp: silent_inv_def shared_def)
qed (use assms(2) in \<open>auto simp: silent_inv_def\<close>)

text \<open>C29 (error): a container that writes nothing, such as \<open>sleep infinity\<close>, is started and never recorded: as long as
  its process has neither written nor ended, whatever has happened before, the server waits in its first read of the
  master, the table is the one from before the start, no socket has been opened, the caller waits, and nothing can happen
  next but that the container writes or ends.\<close>

theorem silent_container_blocks_start:
  assumes lib: "json_library (P_json P) jdoc jtext" and join: "array_join (mem_ok (P_kernel P)) ENOMEM (ra_cmd a) '' '' = Inr (Some cmd)"
    and info: "info = run_info (so_id opt) a cmd (now (w_env w))" and new: "new_container jtext cs info (so_id opt)"
    and w: "dao_state (P_json P) jtext (w_file w) cs" "writable (w_env w)" "sem_value sem (w_ipc w) = Some 1"
    and reach: "rtranclp (sync_step P opt sem (run_callback P (so_id opt) a)) (sync_init w) s" and silent: "chl s = C_done"
  shows "(\<exists>c m. srv s = S_cloned c m) \<and> par s = P_waits \<and> dao_state (P_json P) jtext (w_file (par_w s)) cs \<and>
    w_listen (par_w s) = w_listen w \<and>
    (\<forall>s'. sync_step P opt sem (run_callback P (so_id opt) a) s s' \<longrightarrow> s' = s\<lparr>chl := C_spoke\<rparr> \<or> s' = s\<lparr>chl := C_gone\<rparr>)"
proof -
  have "silent_inv (w_listen w) s" using reach
    by (induction rule: rtranclp_induct) (auto intro: silent_step, simp add: silent_inv_def sync_init_def)
  then obtain c m where c: "srv s = S_cloned c m" "w_listen (srv_w s) = w_listen w" using silent by (auto simp: silent_inv_def)
  have inv: "sync_inv (dao_state (P_json P) jtext) cs info (so_id opt) sem (now (w_env w)) s"
    by (rule reach_inv [OF lib new run_callback_records [OF join info] w reach])
  then have p: "par s = P_waits" "sem_value sem (w_ipc (par_w s)) = Some 1" "dao_state (P_json P) jtext (w_file (par_w s)) cs"
    "w_listen (par_w s) = w_listen (srv_w s)"
    using c(1) by (auto simp: sync_inv_def core_inv_def shared_def)
  have "s' = s\<lparr>chl := C_spoke\<rparr> \<or> s' = s\<lparr>chl := C_gone\<rparr>" if "sync_step P opt sem (run_callback P (so_id opt) a) s s'" for s'
    using that
  proof cases
    case (woken i)
    then show ?thesis using p(2)
      by (auto simp: semop_def sem_value_def Let_def split: option.splits if_splits)
  qed (use c(1) p(1) silent in auto)
  with c p show ?thesis by auto
qed

section \<open>A concrete start\<close>

definition demo_opt :: start_opt where
  "demo_opt = \<lparr>so_id = ''a1'', so_cmd = Some [''bash''], so_detach = True, so_volumes = None, so_ws = None, so_attr = None\<rparr>"

definition demo_run :: container_run_arg_t where
  "demo_run = \<lparr>ra_detach = True, ra_volumes = [''/data:/data''], ra_name = Some ''web'', ra_cmd = [''bash'']\<rparr>"

definition demo_start :: "int \<Rightarrow> container_info" where
  "demo_start = run_info ''a1'' demo_run ''bash'' (now demo_env)"

lemma demo_join: "array_join (mem_ok (P_kernel demo_plat)) ENOMEM (ra_cmd demo_run) '' '' = Inr (Some ''bash'')"
  by (simp add: array_join_def Let_def strcat_def demo_plat_def demo_kernel_def demo_run_def)

lemma demo_info_eq: "demo_start = run_info (so_id demo_opt) demo_run ''bash'' (now (w_env (demo_world None)))"
  by (simp add: demo_start_def demo_opt_def demo_world_def)

lemma demo_new: "new_container text_jv [] demo_start (so_id demo_opt)"
  by (simp add: new_container_def demo_start_def run_info_def demo_run_def demo_opt_def storable_def text_jv_def empty_info_def is_set_def is_int32_def [of 0] is_int32_def [of 1])

lemma demo_world_start:
  "dao_state (P_json demo_plat) text_jv (w_file (demo_world None)) []" "writable (w_env (demo_world None))"
  "sem_value 0 (w_ipc (demo_world None)) = Some 1" "json_library (P_json demo_plat) doc_jv text_jv"
  using jimpl.no_file jimpl.json_library_axioms
  by (simp_all add: demo_plat_def demo_world_def sem_value_def demo_ipc_def)

text \<open>The server clones the container, which mounts its root and has written nothing yet.\<close>

abbreviation demo_step :: "sync \<Rightarrow> sync \<Rightarrow> bool" where
  "demo_step \<equiv> sync_step demo_plat demo_opt 0 (run_callback demo_plat (so_id demo_opt) demo_run)"

abbreviation demo_next :: "srv_pc \<Rightarrow> world \<Rightarrow> srv_pc \<times> world" where
  "demo_next \<equiv> srv_next demo_plat demo_opt 0 (run_callback demo_plat (so_id demo_opt) demo_run) (Sel_fail EINTR, Inl 0)"

lemma demo_reaches_silent:
  "\<exists>s. rtranclp demo_step (sync_init (demo_world None)) s \<and> srv s = S_cloned 7 5 \<and> chl s = C_done \<and> par s = P_waits"
proof -
  let ?s = "sync_init (demo_world None)"
  have "\<exists>v. demo_next (srv ?s) (srv_w ?s) = (S_cloned 7 5, v)"
    by (simp add: advance_def srv_clone_def demo_plat_def demo_world_def demo_opt_def ptyClone_def ptyMasterOpen_def
        demo_pty_env_def MAX_SNAME_def Let_def sync_init_def)
  then obtain v where "demo_next (srv ?s) (srv_w ?s) = (S_cloned 7 5, v)" by blast
  from sync_step.server [OF _ this] obtain s1 where
    s1: "demo_step ?s s1" "srv s1 = S_cloned 7 5" "chl s1 = C_mounts" "par s1 = P_waits" by (auto simp: sync_init_def)
  obtain u where "srv_child demo_plat demo_opt (srv_w s1) = (Inr (), u)" by (simp add: srv_child_def)
  from sync_step.child [OF s1(3) this] obtain s2 where
    "demo_step s1 s2" "srv s2 = S_cloned 7 5" "chl s2 = C_done" "par s2 = P_waits" using s1 by fastforce
  with s1(1) show ?thesis by (meson rtranclp.rtrancl_refl rtranclp.rtrancl_into_rtrancl)
qed

lemma demo_inv:
  "rtranclp demo_step (sync_init (demo_world None)) s \<Longrightarrow>
    sync_inv (dao_state (P_json demo_plat) text_jv) [] demo_start (so_id demo_opt) 0 (now (w_env (demo_world None))) s"
  by (rule reach_inv [OF demo_world_start(4) demo_new run_callback_records [OF demo_join demo_info_eq] demo_world_start(1-3)])

text \<open>A step of the server of a container that has written.\<close>

lemma demo_chain:
  assumes "rtranclp demo_step (sync_init (demo_world None)) s" "chl s = C_spoke" "par s = P_waits" "srv s \<noteq> S_begin"
    and "demo_next (srv s) (srv_w s) = (pc, v)" "srv_may (srv s) C_spoke"
  shows "\<exists>s'. rtranclp demo_step (sync_init (demo_world None)) s' \<and> srv s' = pc \<and> chl s' = C_spoke \<and> par s' = P_waits"
  using sync_step.server [OF _ assms(5)] assms rtranclp.rtrancl_into_rtrancl [OF assms(1)] by fastforce

text \<open>It writes, the server goes on to the notification, and the caller wakes up.\<close>

lemma demo_reaches_saved:
  "\<exists>s hdr. rtranclp demo_step (sync_init (demo_world None)) s \<and> srv s = S_saved 7 5 hdr \<and> chl s = C_spoke \<and> par s = P_waits"
proof -
  from demo_reaches_silent obtain s0 where
    s0: "rtranclp demo_step (sync_init (demo_world None)) s0" "srv s0 = S_cloned 7 5" "chl s0 = C_done" "par s0 = P_waits" by blast
  define s1 where "s1 = s0\<lparr>chl := C_spoke\<rparr>"
  have s1: "rtranclp demo_step (sync_init (demo_world None)) s1" "chl s1 = C_spoke" "par s1 = P_waits" "srv s1 = S_cloned 7 5"
    using rtranclp.rtrancl_into_rtrancl [OF s0(1) sync_step.speaks [OF s0(3)]] s0 by (simp_all add: s1_def)
  obtain n bs t where "sys_read 5 BUF_SIZE (w_sys (srv_w s1)) = (n, bs, t)" using prod_cases3 by blast
  then obtain hdr v where "demo_next (srv s1) (srv_w s1) = (S_read 7 5 hdr, v)" by (simp add: s1(4) advance_def srv_read_def)
  from demo_chain [OF s1(1-3) _ this] s1(4) obtain s2 where
    s2: "rtranclp demo_step (sync_init (demo_world None)) s2" "chl s2 = C_spoke" "par s2 = P_waits" "srv s2 = S_read 7 5 hdr" by auto
  obtain r v where sv: "saves demo_plat demo_start 7 (srv_w s2) = (r, v)" by fastforce
  have "dao_state (P_json demo_plat) text_jv (w_file (srv_w s2)) []" "writable (w_env (srv_w s2))"
    using demo_inv [OF s2(1)] s2(4) by (simp_all add: sync_inv_def core_inv_def)
  with save_table(1) [OF demo_world_start(4) _ demo_new _ sv [unfolded saves_def]] have "r = Inr ()" by blast
  moreover have "run_callback demo_plat (so_id demo_opt) demo_run 7 (srv_w s2) = saves demo_plat demo_start 7 (srv_w s2)"
    using run_callback_records [OF demo_join demo_info_eq] demo_inv [OF s2(1)] by (simp add: records_def sync_inv_def core_inv_def)
  ultimately have "demo_next (srv s2) (srv_w s2) = (S_saved 7 5 hdr, v)" using sv s2(4) by (simp add: advance_def)
  from demo_chain [OF s2(1-3) _ this] s2(4) show ?thesis by auto
qed

lemma demo_reaches_notified: "\<exists>s. rtranclp demo_step (sync_init (demo_world None)) s \<and> par s = P_goes"
proof -
  from demo_reaches_saved obtain s3 hdr where
    s3: "rtranclp demo_step (sync_init (demo_world None)) s3" "chl s3 = C_spoke" "par s3 = P_waits" "srv s3 = S_saved 7 5 hdr" by blast
  have "\<exists>v. demo_next (srv s3) (srv_w s3) = (S_listens 7 5 hdr 6, v)"
    by (simp add: s3(4) advance_def srv_listen_def demo_plat_def cmd_defs)
  with demo_chain [OF s3(1-3)] s3(4) obtain s4 where
    s4: "rtranclp demo_step (sync_init (demo_world None)) s4" "chl s4 = C_spoke" "par s4 = P_waits" "srv s4 = S_listens 7 5 hdr 6"
    by fastforce
  obtain p where "init_pool 6 5 pool0 = Inr p" by (simp add: init_pool_def FD_SET_def FD_SETSIZE_def)
  then have "demo_next (srv s4) (srv_w s4) = (S_ready 7 5 hdr 6 p, srv_w s4)" by (simp add: s4(4) advance_def lift_res_def)
  from demo_chain [OF s4(1-3) _ this] s4(4) obtain s5 where
    s5: "rtranclp demo_step (sync_init (demo_world None)) s5" "chl s5 = C_spoke" "par s5 = P_waits" "srv s5 = S_ready 7 5 hdr 6 p" by auto
  have "\<exists>v. demo_next (srv s5) (srv_w s5) = (S_notified 7 5 hdr 6 p, v)" by (simp add: s5(4) advance_def srv_notify_def cput_def)
  with demo_chain [OF s5(1-3)] s5(4) obtain s6 where
    s6: "rtranclp demo_step (sync_init (demo_world None)) s6" "par s6 = P_waits" "srv s6 = S_notified 7 5 hdr 6 p" by fastforce
  have "sem_at_zero 0 (w_ipc (par_w s6))" using demo_inv [OF s6(1)] s6(3)
    by (auto simp: sync_inv_def core_inv_def shared_def sem_value_def sem_at_zero_def split: option.splits)
  from semop_zero_ready [OF this] sync_step.woken [OF s6(2)] obtain s7 where "demo_step s6 s7" "par s7 = P_goes" by fastforce
  with s6(1) show ?thesis by (meson rtranclp.rtrancl_into_rtrancl)
qed

theorem start_synchronises_witness:
  "\<exists>s. rtranclp (sync_step demo_plat demo_opt 0 (run_callback demo_plat (so_id demo_opt) demo_run)) (sync_init (demo_world None)) s \<and>
     par s = P_goes \<and> notified (srv s)"
proof -
  from demo_reaches_notified obtain s where s: "rtranclp demo_step (sync_init (demo_world None)) s" "par s = P_goes" by blast
  have "par s \<noteq> P_waits" using s(2) by simp
  from start_synchronises [OF demo_world_start(4) demo_join demo_info_eq demo_new demo_world_start(1-3) s(1) this] s show ?thesis by blast
qed

theorem silent_container_blocks_start_witness:
  "\<exists>s. rtranclp (sync_step demo_plat demo_opt 0 (run_callback demo_plat (so_id demo_opt) demo_run)) (sync_init (demo_world None)) s \<and>
     chl s = C_done \<and> dao_state (P_json demo_plat) text_jv (w_file (par_w s)) [] \<and> par s = P_waits"
proof -
  from demo_reaches_silent obtain s where s: "rtranclp demo_step (sync_init (demo_world None)) s" "chl s = C_done" by blast
  from silent_container_blocks_start [OF demo_world_start(4) demo_join demo_info_eq demo_new demo_world_start(1-3) s] s
  show ?thesis by blast
qed

text \<open>A platform on which the pseudo-terminal cannot be opened.\<close>

definition poor_plat :: "jv plat" where
  "poor_plat = demo_plat\<lparr>P_pty := (demo_pty_env (In_parent 7))\<lparr>openpt := Inl 24\<rparr>\<rparr>"

theorem start_can_wait_for_ever_witness:
  "\<exists>s. sync_step poor_plat demo_opt 0 (run_callback poor_plat (so_id demo_opt) demo_run) (sync_init (demo_world None)) s \<and>
     srv s = S_end False (Inl (Exit 24)) \<and>
     (\<forall>s'. rtranclp (sync_step poor_plat demo_opt 0 (run_callback poor_plat (so_id demo_opt) demo_run)) s s' \<longrightarrow> par s' = P_waits)"
proof -
  let ?step = "sync_step poor_plat demo_opt 0 (run_callback poor_plat (so_id demo_opt) demo_run)"
  have J: "P_json poor_plat = P_json demo_plat" "P_kernel poor_plat = P_kernel demo_plat" by (simp_all add: poor_plat_def)
  have "\<exists>v. srv_next poor_plat demo_opt 0 (run_callback poor_plat (so_id demo_opt) demo_run) (Sel_fail EINTR, Inl 0) S_begin (demo_world None) = (S_end False (Inl (Exit 24)), v)"
    by (simp add: advance_def srv_clone_def poor_plat_def demo_plat_def demo_world_def ptyClone_def ptyMasterOpen_def
        demo_pty_env_def demo_proc_def)
  then obtain v where "srv_next poor_plat demo_opt 0 (run_callback poor_plat (so_id demo_opt) demo_run) (Sel_fail EINTR, Inl 0) (srv (sync_init (demo_world None)))
      (srv_w (sync_init (demo_world None))) = (S_end False (Inl (Exit 24)), v)" by (auto simp: sync_init_def)
  from sync_step.server [OF _ this] obtain s where s: "?step (sync_init (demo_world None)) s" "srv s = S_end False (Inl (Exit 24))"
    by (auto simp: sync_init_def)
  have "rtranclp ?step (sync_init (demo_world None)) s" using s(1) by simp
  from start_can_wait_for_ever [of poor_plat, unfolded J, OF demo_world_start(4) demo_join demo_info_eq demo_new demo_world_start(1-3) this s(2)]
  show ?thesis using s by blast
qed

end
