(* ===== verification/Lifecycle.thy ===== *)
theory Lifecycle
  imports StartSync
begin

text \<open>
  Commands in a row. The lemmas say what the commands, called from \<open>main\<close>, and the server of a container leave
  to the next one: \<open>run -d\<close>, \<open>stop\<close>, the server when the container has ended, \<open>rm\<close>. The theorems are in the root theory.
\<close>

section \<open>The host after a start\<close>

abbreviation child_host :: "'j plat \<Rightarrow> start_opt \<Rightarrow> host \<Rightarrow> host" where
  "child_host P opt h \<equiv> snd (container_child P opt h)"

lemma srv_child_host: "srv_child P opt w = (Inr (), w\<lparr>w_host := child_host P opt (w_host w)\<rparr>)"
  by (simp add: srv_child_def)

text \<open>Without volumes the container's process does nothing to the host but mount its root, also when it fails.\<close>

lemma child_host_ext:
  assumes "tree_ok (hfs h)" "so_volumes opt = Some []"
  shows "fs_ext h (child_host P opt h)"
proof -
  have "grows (container_child P opt)" using assms(2)
    by (auto simp: container_child_def Let_def intro!: grows_hbind mount_container_grows split: option.split list.split)
  then show ?thesis using assms(1) by (simp add: grows_def)
qed

lemma child_host_mounted:
  assumes "mount_container (P_kernel P) (so_id opt) h = Inr h'" "so_volumes opt = Some []" "so_cmd opt = Some cmd"
    "length (so_id opt) < 990"
  shows "child_host P opt h = h'"
proof -
  have "mount_container_st (P_kernel P) (so_id opt) h = (Inr (), h')"
    using assms(1) by (auto simp: mount_container_def done_host_def split: prod.splits sum.splits)
  then show ?thesis using assms(2-4)
    by (cases cmd) (simp_all add: container_child_def path_results hbind_def hlift_def hret_def Let_def)
qed

section \<open>The server up to the notification\<close>

text \<open>The kernel refuses none of the calls with which a container is started: the semaphore, the fork, the
  pseudo-terminal (the container's process gets the number \<open>c\<close>, the master is \<open>m\<close>) and the socket \<open>fd\<close>.\<close>

definition grants :: "'j plat \<Rightarrow> proc \<Rightarrow> string \<Rightarrow> int \<Rightarrow> int \<Rightarrow> int \<Rightarrow> bool" where
  "grants P p ctr c m fd \<longleftrightarrow>
     create_fails (P_sem P) = None \<and> get_fails (P_sem P) = None \<and> ctl_fails (P_sem P) = None \<and> op_fails (P_sem P) = None \<and>
     P_fork P = None \<and> (\<forall>t s. \<exists>p'. ptyClone (P_pty P) t s (\<lambda>p. Inr (0, p)) p = Inr (Parent_ret c (Some m) p')) \<and>
     P_socket P = Inr fd \<and> P_bind P (sun_path ctr) = None \<and> P_listen P = None \<and>
     0 \<le> fd \<and> fd < int FD_SETSIZE \<and> 0 \<le> m \<and> m < int FD_SETSIZE"

lemma grants_pool: "grants P p ctr c m fd \<Longrightarrow> \<exists>q. init_pool fd m pool0 = Inr q"
  by (simp add: grants_def init_pool_def FD_SET_def)

text \<open>What the world of a host is after a start: the table with its new row, the listening socket, the process and
  the mounts of the container; the other processes are as before.\<close>

definition started ::
  "'j plat \<Rightarrow> (string \<Rightarrow> bool) \<Rightarrow> container_info list \<Rightarrow> container_info \<Rightarrow> start_opt \<Rightarrow> int \<Rightarrow> world \<Rightarrow> world \<Rightarrow> bool" where
  "started P jtext cs row opt c w w' \<longleftrightarrow>
     dao_state (P_json P) jtext (w_file w') (cs @ [row]) \<and> sun_path (so_id opt) \<in> set (w_listen w') \<and>
     w_env w' = (w_env w)\<lparr>proc_alive := (proc_alive (w_env w))(c := True)\<rparr> \<and> w_host w' = child_host P opt (w_host w)"

lemma srv_setup_ok:
  assumes speaks: "P_speaks P" and lib: "json_library (P_json P) jdoc jtext" and tab: "dao_state (P_json P) jtext (w_file w) cs"
    and wr: "writable (w_env w)" and new: "new_container jtext cs info (so_id opt)" and rec: "records P info (now (w_env w)) cb"
    and gr: "grants P (w_proc w) (so_id opt) c m fd" and sem: "sem_value sem (w_ipc w) = Some 1"
  shows "\<exists>s r. srv_setup P opt sem cb w = (Inr r, s) \<and> sem_value sem (w_ipc s) = Some 0 \<and>
    started P jtext cs (norm_info (info c)) opt c w s"
proof -
  let ?env = "(w_env w)\<lparr>proc_alive := (proc_alive (w_env w))(c := True)\<rparr>"
  from gr obtain p where "ptyClone (P_pty P) (so_attr opt) (so_ws opt) (\<lambda>p. Inr (0, p)) (w_proc w) = Inr (Parent_ret c (Some m) p)"
    unfolding grants_def by blast
  then have cl: "srv_clone P opt w = (Inr (c, m), w\<lparr>w_proc := p, w_env := ?env\<rparr>)" by (simp add: srv_clone_def)
  let ?w2 = "w\<lparr>w_proc := p, w_env := ?env, w_host := child_host P opt (w_host w)\<rparr>"
  obtain n bs s3 where "sys_read m BUF_SIZE (w_sys ?w2) = (n, bs, s3)" using prod_cases3 by blast
  then have hd: "srv_header P m ?w2 = (Inr (n, bs), ?w2\<lparr>w_sys := s3\<rparr>)" using speaks by (simp add: srv_header_def srv_read_def)
  let ?w3 = "?w2\<lparr>w_sys := s3\<rparr>"
  obtain r w4 where sv: "saves P info c ?w3 = (r, w4)" by fastforce
  have w3: "dao_state (P_json P) jtext (w_file ?w3) cs" "writable (w_env ?w3)" using tab wr by simp_all
  note st = save_table [OF lib w3(1) new w3(2) sv [unfolded saves_def]] and fr4 = on_file_u_frame [OF sv [unfolded saves_def]]
  have h4: "w_host w4 = child_host P opt (w_host w)"
    using sv by (auto simp: saves_def on_file_u_def on_file_def split: sum.splits)
  have cb: "cb c ?w3 = (Inr (), w4)" using rec sv st(1) by (simp add: records_def)
  let ?w5 = "w4\<lparr>w_listen := sun_path (so_id opt) # w_listen w4\<rparr>"
  have ls: "srv_listen P (so_id opt) w4 = (Inr fd, ?w5)" using gr by (simp add: grants_def srv_listen_def cmd_defs)
  obtain v w6 where nt: "srv_notify sem ?w5 = (v, w6)" by fastforce
  have "sem_value sem (w_ipc ?w5) = Some 1" using sem fr4 by simp
  note ns = srv_notify_result [OF nt this]
  have h6: "w_host w6 = w_host w4" using nt by (auto simp: srv_notify_def cput_def)
  obtain q where "init_pool fd m pool0 = Inr q" using grants_pool [OF gr] by blast
  then have "srv_setup P opt sem cb w = (Inr (c, fd, (n, bs), q), w6)"
    using cl hd cb ls nt ns(1) by (simp add: srv_setup_def srv_child_host cbind_def cthen_def lift_res_def cret_def)
  then show ?thesis using st(2) ns fr4 h4 h6 by (simp add: started_def)
qed

text \<open>A container that never writes keeps the server in its first read.\<close>

lemma srv_setup_silent:
  assumes "\<not> P_speaks P" "grants P (w_proc w) (so_id opt) c m fd"
  shows "\<exists>s. srv_setup P opt sem cb w = (Inl Hangs, s) \<and> w_file s = w_file w \<and> w_ipc s = w_ipc w \<and> w_listen s = w_listen w \<and>
    w_env s = (w_env w)\<lparr>proc_alive := (proc_alive (w_env w))(c := True)\<rparr> \<and> w_host s = child_host P opt (w_host w)"
proof -
  from assms(2) obtain p where "ptyClone (P_pty P) (so_attr opt) (so_ws opt) (\<lambda>p. Inr (0, p)) (w_proc w) = Inr (Parent_ret c (Some m) p)"
    unfolding grants_def by blast
  then have "srv_clone P opt w = (Inr (c, m), w\<lparr>w_proc := p, w_env := (w_env w)\<lparr>proc_alive := (proc_alive (w_env w))(c := True)\<rparr>\<rparr>)"
    by (simp add: srv_clone_def)
  then show ?thesis using assms(1) by (simp add: srv_setup_def cbind_def cthen_def srv_child_host srv_header_def cfail_def)
qed

text \<open>\<open>ContainerService::start\<close> of a detached container: the semaphore, then the server, as the container writes or not.\<close>

lemma grants_sem:
  assumes "grants P p ctr c m fd"
  shows "\<exists>sem j. sem_get (P_sem P) IPC_PRIVATE 1 i = Some (Inr (sem, j)) \<and> sems j sem = Some \<lparr>semval = 1, otime = True\<rparr>"
  using sem_get_initialised [of "P_sem P" 1 IPC_PRIVATE i] assms by (auto simp: SEMVMX_def grants_def)

lemma service_start_detached:
  assumes speaks: "P_speaks P" and lib: "json_library (P_json P) jdoc jtext" and tab: "dao_state (P_json P) jtext (w_file w) cs"
    and wr: "writable (w_env w)" and new: "new_container jtext cs info (so_id opt)" and rec: "records P info (now (w_env w)) cb"
    and gr: "grants P (w_proc w) (so_id opt) c m fd" and detach: "so_detach opt"
  shows "\<exists>w'. service_start P opt cb w = (Inr (), w') \<and> started P jtext cs (norm_info (info c)) opt c w w' \<and>
    w_out w' = w_out w @ so_id opt @ NL"
proof -
  have fork: "P_fork P = None" using gr by (simp add: grants_def)
  from grants_sem [OF gr, of "w_ipc w"] obtain sem i where
    s: "sem_get (P_sem P) IPC_PRIVATE 1 (w_ipc w) = Some (Inr (sem, i))" "sems i sem = Some \<lparr>semval = 1, otime = True\<rparr>" by blast
  let ?w = "w\<lparr>w_ipc := i\<rparr>"
  have "dao_state (P_json P) jtext (w_file ?w) cs" "writable (w_env ?w)" "records P info (now (w_env ?w)) cb"
    "sem_value sem (w_ipc ?w) = Some 1" "grants P (w_proc ?w) (so_id opt) c m fd"
    using tab wr rec s(2) gr by (simp_all add: sem_value_def)
  from srv_setup_ok [OF speaks lib this(1,2) new this(3,5,4)] obtain t r where
    t: "srv_setup P opt sem cb ?w = (Inr r, t)" "sem_value sem (w_ipc t) = Some 0"
      "started P jtext cs (norm_info (info c)) opt c ?w t" by blast
  have "sem_at_zero sem (w_ipc t)" using t(2) by (auto simp: sem_value_def sem_at_zero_def)
  then obtain z where "sem_zero sem ([] @ Others (w_ipc t) # []) i = Some (0, z)"
    using semop_retry_zero_returns [of i sem "[]" "w_ipc t" "[]"] s(2) unfolding sem_zero_def by auto
  with s(1) fork t detach show ?thesis
    by (simp add: service_start_def print_out_def cput_def srv_state_def started_def)
qed

lemma service_start_silent:
  assumes "\<not> P_speaks P" and gr: "grants P (w_proc w) (so_id opt) c m fd"
  shows "\<exists>w'. service_start P opt cb w = (Inl Hangs, w') \<and> w_file w' = w_file w \<and> w_listen w' = w_listen w \<and> w_out w' = w_out w \<and>
    proc_alive (w_env w') c \<and> w_host w' = child_host P opt (w_host w)"
proof -
  have fork: "P_fork P = None" using gr by (simp add: grants_def)
  from grants_sem [OF gr, of "w_ipc w"] obtain sem i where
    s: "sem_get (P_sem P) IPC_PRIVATE 1 (w_ipc w) = Some (Inr (sem, i))" "sems i sem = Some \<lparr>semval = 1, otime = True\<rparr>" by blast
  have "grants P (w_proc (w\<lparr>w_ipc := i\<rparr>)) (so_id opt) c m fd" using gr by simp
  from srv_setup_silent [OF assms(1) this, of sem cb] obtain t where
    t: "srv_setup P opt sem cb (w\<lparr>w_ipc := i\<rparr>) = (Inl Hangs, t)" "w_file t = w_file w" "w_ipc t = i" "w_listen t = w_listen w"
      "proc_alive (w_env t) c" "w_host t = child_host P opt (w_host w)" by auto
  have "sem_zero sem [Others (w_ipc t)] i = None" using s(2) t(3)
    by (simp add: sem_zero_def semop_retry.simps semop_def)
  with s(1) fork t show ?thesis by (simp add: service_start_def srv_state_def)
qed

section \<open>The row of a new container\<close>

lemma filter_new: "\<forall>x \<in> set cs. \<not> matches ctr x \<Longrightarrow> cid y = ctr \<Longrightarrow> filter (\<lambda>x. cid x \<noteq> ctr) (cs @ [y]) = cs"
  by (induction cs) auto

lemma hex_char_no_dash: "\<not> hex_char (CHR ''-'')"
proof -
  have "\<forall>d \<in> set [0..<16]. hex_digit d \<noteq> CHR ''-''" by code_simp
  then show ?thesis by (auto simp: hex_char_def)
qed

text \<open>No identifier reads as an option.\<close>

lemma gen_id_operand: "\<not> is_option (gen_id r1 r2)" "gen_id r1 r2 \<noteq> ''--''" "gen_id r1 r2 \<noteq> ''--help''"
  using gen_id_start [of r1 r2] hex_char_no_dash by (auto simp: is_option_def split: list.split)

section \<open>The commands from \<open>main\<close>\<close>

definition run_options :: "cli_env \<Rightarrow> world \<Rightarrow> string \<Rightarrow> container_run_arg_t \<Rightarrow> start_opt" where
  "run_options C w ctr a =
     \<lparr>so_id = ctr, so_cmd = Some (ra_cmd a), so_detach = ra_detach a, so_volumes = Some (ra_volumes a),
      so_ws = Some (ce_ws C), so_attr = Some (case tty_of (w_ttys w) STDIN_FILENO of Some x \<Rightarrow> x | None \<Rightarrow> ce_junk C)\<rparr>"

lemma run_options_sel [simp]:
  "so_id (run_options C w ctr a) = ctr" "so_cmd (run_options C w ctr a) = Some (ra_cmd a)"
  "so_detach (run_options C w ctr a) = ra_detach a" "so_volumes (run_options C w ctr a) = Some (ra_volumes a)"
  by (simp_all add: run_options_def)

text \<open>\<open>run -d\<close> makes the directories and starts the container.\<close>

lemma main_run_start:
  assumes root: "ce_euid C = 0" and prog: "\<not> is_option prog" "prog \<noteq> ''--''"
    and ctr: "ctr = gen_id (fst (ce_rand C)) (snd (ce_rand C))"
    and a: "a = \<lparr>ra_detach = True, ra_volumes = [], ra_name = None, ra_cmd = prog # args\<rparr>"
  shows "\<exists>h0 h1. create_repo (w_host w) = Inr h0 \<and> create_container ctr h0 = Inr h1 \<and>
    hoststack_main C P ([''hoststack'', ''run'', ''-d''] @ prog # args) w =
      cthen (service_start P (run_options C w ctr a) (run_callback P ctr a)) (cret 0) (w\<lparr>w_host := h1\<rparr>)"
proof -
  from create_repo_ok obtain h0 where h0: "create_repo (w_host w) = Inr h0" by blast
  have "length ctr < 900" by (simp add: ctr)
  from create_container_paths [OF this] obtain h1 where h1: "create_container ctr h0 = Inr h1" by blast
  have opts: "getopt_long True run_short run_long (''-d'' # prog # args) = ([Opt (CHR ''d'') None], prog # args)"
    using prog by (simp add: getopt_long.simps(2) one_arg_def is_option_def run_short_def getopt_first_operand)
  have args: "run_args C [Opt (CHR ''d'') None] (prog # args) = a" by (simp add: run_args_def a)
  have "run_handleCommand C P (''run'' # ''-d'' # prog # args) (w\<lparr>w_host := h0\<rparr>) =
      service_start P (run_options C w ctr a) (run_callback P ctr a) (w\<lparr>w_host := h1\<rparr>)"
    using h1 opts args
    by (simp add: run_handleCommand_def asks_help_def run_start_def run_options_def tty_attr_def cmd_defs ctr [symmetric] a Let_def)
  then have "hoststack_main C P ([''hoststack'', ''run'', ''-d''] @ prog # args) w =
      cthen (service_start P (run_options C w ctr a) (run_callback P ctr a)) (cret 0) (w\<lparr>w_host := h1\<rparr>)"
    using root h0 by (simp add: hoststack_main_def cmd_defs)
  with h0 h1 show ?thesis by blast
qed

lemma main_run:
  assumes speaks: "P_speaks P" and lib: "json_library (P_json P) jdoc jtext" and tab: "dao_state (P_json P) jtext (w_file w) cs"
    and wr: "writable (w_env w)" and root: "ce_euid C = 0" and prog: "\<not> is_option prog" "prog \<noteq> ''--''"
    and ctr: "ctr = gen_id (fst (ce_rand C)) (snd (ce_rand C))"
    and a: "a = \<lparr>ra_detach = True, ra_volumes = [], ra_name = None, ra_cmd = prog # args\<rparr>"
    and join: "array_join (mem_ok (P_kernel P)) ENOMEM (prog # args) '' '' = Inr (Some cmd)"
    and new: "new_container jtext cs (run_info ctr a cmd (now (w_env w))) ctr" and gr: "grants P (w_proc w) ctr c m fd"
  shows "\<exists>h0 h1 w'. create_repo (w_host w) = Inr h0 \<and> create_container ctr h0 = Inr h1 \<and>
    hoststack_main C P ([''hoststack'', ''run'', ''-d''] @ prog # args) w = (Inr 0, w') \<and>
    started P jtext cs (norm_info (run_info ctr a cmd (now (w_env w)) c)) (run_options C w ctr a) c (w\<lparr>w_host := h1\<rparr>) w' \<and>
    w_out w' = w_out w @ ctr @ NL"
proof -
  from main_run_start [OF root prog ctr a, of w P] obtain h0 h1 where
    h: "create_repo (w_host w) = Inr h0" "create_container ctr h0 = Inr h1"
      "hoststack_main C P ([''hoststack'', ''run'', ''-d''] @ prog # args) w =
        cthen (service_start P (run_options C w ctr a) (run_callback P ctr a)) (cret 0) (w\<lparr>w_host := h1\<rparr>)" by blast
  let ?w = "w\<lparr>w_host := h1\<rparr>" and ?info = "run_info ctr a cmd (now (w_env w))" and ?opt = "run_options C w ctr a"
  have "records P ?info (now (w_env ?w)) (run_callback P ctr a)"
    using run_callback_records [of P a cmd ?info ctr "now (w_env w)"] join by (simp add: a)
  with service_start_detached [of P jdoc jtext ?w cs ?info ?opt "run_callback P ctr a" c m fd] speaks lib tab wr new gr obtain w' where
    "service_start P ?opt (run_callback P ctr a) ?w = (Inr (), w')" "started P jtext cs (norm_info (?info c)) ?opt c ?w w'"
      "w_out w' = w_out w @ ctr @ NL" by (auto simp: a)
  with h show ?thesis by (simp add: cthen_def cbind_def cret_def)
qed

lemma main_stop:
  assumes lib: "json_library (P_json P) jdoc jtext" and tab: "dao_state (P_json P) jtext (w_file w) cs"
    and wr: "writable (w_env w)" and root: "ce_euid C = 0" and v: "v \<noteq> ''--help''"
    and c: "find (matches v) cs = Some c" "status c = CONTAINER_RUNNING" "proc_alive (w_env w) (pid c)"
  shows "\<exists>h f. create_repo (w_host w) = Inr h \<and> dao_state (P_json P) jtext f cs \<and>
    hoststack_main C P [''hoststack'', ''stop'', v] w = (Inr 0, (snd (reap P (pid c) w))\<lparr>w_host := h, w_file := f\<rparr>)"
proof -
  from create_repo_ok obtain h where h: "create_repo (w_host w) = Inr h" by blast
  let ?w = "w\<lparr>w_host := h\<rparr>"
  from service_stop_running [OF lib _ _ c(1,2), of ?w] tab wr c(3) obtain f where
    f: "service_stop P v ?w = (Inr (), (snd (reap P (pid c) ?w))\<lparr>w_file := f\<rparr>)" "dao_state (P_json P) jtext f cs" by auto
  then have "hoststack_main C P [''hoststack'', ''stop'', v] w = (Inr 0, (snd (reap P (pid c) w))\<lparr>w_host := h, w_file := f\<rparr>)"
    using root h v by (simp add: hoststack_main_def stop_handleCommand_def asks_help_def cmd_defs reap_def)
  with h f(2) show ?thesis by blast
qed

lemma main_rm:
  assumes lib: "json_library (P_json P) jdoc jtext" and tab: "dao_state (P_json P) jtext (w_file w) cs"
    and wr: "writable (w_env w)" and root: "ce_euid C = 0" and v: "\<not> is_option v" "v \<noteq> ''--''" "v \<noteq> ''--help''"
    and c: "find (matches v) cs = Some c" "\<forall>x \<in> set cs. cname x = cid c \<longrightarrow> cid x = cid c"
      "\<not> (status c = CONTAINER_RUNNING \<and> proc_alive (w_env w) (pid c))"
    and rm: "create_repo (w_host w) = Inr h" "remove_container (P_kernel P) (cid c) h = Inr (0, h')"
  shows "\<exists>f. dao_state (P_json P) jtext f (filter (\<lambda>x. cid x \<noteq> cid c) cs) \<and>
    hoststack_main C P [''hoststack'', ''rm'', v] w = (Inr 0, w\<lparr>w_host := h', w_file := f\<rparr>)"
proof -
  from remove_stopped [OF lib _ _ c(1,2), of "w\<lparr>w_host := h\<rparr>" h' False] tab wr c(3) rm(2) obtain f where
    f: "dao_state (P_json P) jtext f (filter (\<lambda>x. cid x \<noteq> cid c) cs)"
      "removeContainer P False v (w\<lparr>w_host := h\<rparr>) = (Inr (), w\<lparr>w_host := h', w_file := f\<rparr>)" by auto
  have "getopt_long True [(CHR ''f'', No_arg)] [(''force'', No_arg, CHR ''f'')] [v] = ([], [v])"
    using v by (simp add: getopt_first_operand)
  with f(2) have "rm_handleCommand P [''rm'', v] (w\<lparr>w_host := h\<rparr>) = (Inr (), w\<lparr>w_host := h', w_file := f\<rparr>)"
    using v by (simp add: rm_handleCommand_def asks_help_def cmd_defs)
  then have "hoststack_main C P [''hoststack'', ''rm'', v] w = (Inr 0, w\<lparr>w_host := h', w_file := f\<rparr>)"
    using root rm(1) by (simp add: hoststack_main_def cmd_defs)
  with f(1) show ?thesis by blast
qed

section \<open>The end of the server\<close>

text \<open>How far the server of a known container gets: the directories are unmounted and the record is that of a container
  without a process when the server reads the destroyed set.\<close>

lemma srv_finish_known:
  assumes lib: "json_library (P_json P) jdoc jtext" and tab: "dao_state (P_json P) jtext (w_file w) (cs @ [row])"
    and wr: "writable (w_env w)" and row: "\<forall>x \<in> set cs. \<not> matches ctr x" "cid row = ctr"
    and "P_wait P = c" "umount_dirs (P_kernel P) (P_junk P) ctr (w_host w) = Inr h"
  shows "\<exists>f. dao_state (P_json P) jtext f (cs @ [sync_info (w_env (snd (reap P c w))) row]) \<and>
    srv_finish P ctr c w = (Inl UseAfterFree, (snd (reap P c w))\<lparr>w_host := h, w_file := f\<rparr>)"
proof -
  let ?w = "snd (reap P c w)"
  have w: "writable (w_env ?w)" "w_file ?w = w_file w" "w_host ?w = w_host w" using wr by (simp_all add: reap_def cput_def)
  from container_store.lookup_law [OF json_library.dao_store [OF lib] tab w(1), of ctr] obtain f where
    f: "get_container_by_id_or_name (P_json P) (w_env ?w) ctr (w_file w) = Inr (Some (sync_info (w_env ?w) row), f)"
      "dao_state (P_json P) jtext f (cs @ [sync_info (w_env ?w) row])"
    using upd_first_last [OF row(1), of row] row by auto
  have "c_umount P ctr ?w = (Inl UseAfterFree, ?w\<lparr>w_host := h, w_file := f\<rparr>)"
    using assms(7) f(1) w by (simp add: c_umount_def umount_container_def umount_volume_list_def)
  then have "srv_finish P ctr c w = (Inl UseAfterFree, ?w\<lparr>w_host := h, w_file := f\<rparr>)"
    using assms(6) by (simp add: srv_finish_def cthen_def cbind_def reap_def cput_def)
  with f(2) show ?thesis by blast
qed

text \<open>A server whose container is not in the table any more.\<close>

lemma srv_finish_unknown:
  assumes lib: "json_library (P_json P) jdoc jtext" and tab: "dao_state (P_json P) jtext (w_file w) cs"
    and wr: "writable (w_env w)" and "\<forall>x \<in> set cs. \<not> matches ctr x" "P_wait P = c" "length ctr < 900"
  shows "fst (srv_finish P ctr c w) = Inl EmptyOptional"
proof -
  let ?env = "w_env (snd (reap P c w))"
  from umount_dirs_total [OF assms(6)] obtain h where h: "umount_dirs (P_kernel P) (P_junk P) ctr (w_host w) = Inr h" by blast
  have "writable ?env" using wr by (simp add: reap_def cput_def)
  from container_store.lookup_law [OF json_library.dao_store [OF lib] tab this, of ctr] assms(4) obtain f where
    "get_container_by_id_or_name (P_json P) ?env ctr (w_file w) = Inr (None, f)" by (auto simp: find_None_iff)
  then have "fst (umount_volume_list (P_json P) ?env ctr (w_file w)) = Inl EmptyOptional"
    by (simp add: umount_volume_list_def)
  then show ?thesis using assms(5) h
    by (auto simp: srv_finish_def c_umount_def umount_container_def cmd_defs reap_def split: prod.split)
qed

section \<open>The mounts of a container\<close>

definition mounted :: "string \<Rightarrow> mnt list \<Rightarrow> host \<Rightarrow> bool" where
  "mounted ctr rest h \<longleftrightarrow> tree_ok (hfs h) \<and> host_has mnt_dir_arr h \<and>
     (\<exists>ms. mounts h = ms @ rest \<and>
        map m_target ms = map (\<lambda>d. (layer_path ctr @ ''/merged'') @ target d) (rev (hd mnt_dir_arr # mnt_dir_arr)))"

lemma host_has_ext: "host_has ds h \<Longrightarrow> fs_ext h h' \<Longrightarrow> host_has ds h'"
  using fs_ext_access by (auto simp: host_has_def)

lemma child_mounted:
  assumes h: "tree_ok (hfs h)" "host_has mnt_dir_arr h" and ok: "\<And>x. mount_ok (P_kernel P) x"
    and opt: "length (so_id opt) < 900" "so_volumes opt = Some []" "so_cmd opt = Some cmd"
  shows "mounted (so_id opt) (mounts h) (child_host P opt h)"
proof -
  from mount_container_ok [OF h(1) opt(1) h(2) ok] obtain h' ms where
    m: "mount_container (P_kernel P) (so_id opt) h = Inr h'" "mounts h' = ms @ mounts h" "fs_ext h h'"
      "map m_target ms = map (\<lambda>d. (layer_path (so_id opt) @ ''/merged'') @ target d) (rev (hd mnt_dir_arr # mnt_dir_arr))" by blast
  have "child_host P opt h = h'" by (rule child_host_mounted [OF m(1) opt(2,3)]) (use opt(1) in simp)
  then show ?thesis using m host_has_ext [OF h(2) m(3)] by (auto simp: mounted_def fs_ext_def)
qed

lemma mounted_create_repo:
  assumes "mounted ctr rest h" "create_repo h = Inr h'"
  shows "mounted ctr rest h'"
proof -
  have "fs_ext h h'" using assms create_ext(1) by (auto simp: mounted_def)
  moreover have "mounts h' = mounts h" using create_repo_ok [of h] assms(2) by auto
  ultimately show ?thesis using assms(1) host_has_ext by (auto simp: mounted_def fs_ext_def)
qed

lemma mounted_umount:
  "mounted ctr rest h \<Longrightarrow> length ctr < 900 \<Longrightarrow> (\<And>t. \<not> busy K t) \<Longrightarrow> umount_dirs K junk ctr h = Inr (h\<lparr>mounts := rest\<rparr>)"
  using umount_dirs_ok by (auto simp: mounted_def)

lemma created_host:
  assumes "tree_ok (hfs h)" "create_repo h = Inr h0" "create_container ctr h0 = Inr h1" "length ctr < 900"
  shows "fs_ext h h1" "mounts h1 = mounts h"
proof -
  have "fs_ext h h0" "fs_ext h0 h1" using create_ext [OF assms(1)] create_ext(2) [of h0] assms(2,3) by (auto simp: fs_ext_def)
  then show "fs_ext h h1" by (rule fs_ext_trans)
  show "mounts h1 = mounts h" using create_repo_ok [of h] create_container_paths [OF assms(4), of h0] assms(2,3) by auto
qed

lemma remove_container_ok:
  assumes "length ctr < 900"
    and "\<And>l h. fst (shell K l h) = 0 \<and> mounts (snd (shell K l h)) = mounts h"
  shows "\<exists>h'. remove_container K ctr h = Inr (0, h') \<and> mounts h' = mounts h"
proof -
  obtain line line2 layer where l: "sprintf 1024 (''sudo rm  -rf '' @ hoststack_repo @ ''/containers/'' @ ctr) = Inr line"
    "getLayerDir ctr None = Inr layer" "sprintf 1024 (''sudo rm -rf '' @ layer) = Inr line2"
    using assms(1) path_results [of ctr] by (simp add: sprintf_def hoststack_repo_def layer_path_def)
  obtain r1 h1 where s1: "shell K line h = (r1, h1)" by force
  obtain r2 h2 where s2: "shell K line2 h1 = (r2, h2)" by force
  show ?thesis using l s1 s2 assms(2) [of line h] assms(2) [of line2 h1] by (simp add: remove_container_def)
qed

section \<open>After the start\<close>

text \<open>The container of the last row: \<open>stop\<close> and how far its server gets then.\<close>

lemma stop_finish:
  assumes lib: "json_library (P_json P) jdoc jtext" and tab: "dao_state (P_json P) jtext (w_file w) (cs @ [row])"
    and wr: "writable (w_env w)" and root: "ce_euid C = 0" and ctr: "ctr \<noteq> ''--help''" "length ctr < 900"
    and row: "\<forall>x \<in> set cs. \<not> matches ctr x" "cid row = ctr" "pid row = c" "status row = CONTAINER_RUNNING"
    and live: "proc_alive (w_env w) c" "P_wait P = c" and mnt: "mounted ctr rest (w_host w)" "\<And>t. \<not> busy (P_kernel P) t"
  shows "\<exists>w2 w3. hoststack_main C P [''hoststack'', ''stop'', ctr] w = (Inr 0, w2) \<and> srv_finish P ctr c w2 = (Inl UseAfterFree, w3) \<and>
    dao_state (P_json P) jtext (w_file w3) (cs @ [row\<lparr>status := CONTAINER_STOPED, pid := 0\<rparr>]) \<and> mounts (w_host w3) = rest \<and>
    w_env w3 = w_env (snd (reap P c w))"
proof -
  let ?J = "P_json P"
  from main_stop [OF lib tab wr root ctr(1) upd_first_last(2) [OF row(1)] row(4)] row live(1) obtain h2 f2 where
    s2: "create_repo (w_host w) = Inr h2" "dao_state ?J jtext f2 (cs @ [row])"
      "hoststack_main C P [''hoststack'', ''stop'', ctr] w = (Inr 0, (snd (reap P c w))\<lparr>w_host := h2, w_file := f2\<rparr>)" by auto
  let ?w2 = "(snd (reap P c w))\<lparr>w_host := h2, w_file := f2\<rparr>"
  have w2: "writable (w_env ?w2)" "dao_state ?J jtext (w_file ?w2) (cs @ [row])"
    "umount_dirs (P_kernel P) (P_junk P) ctr (w_host ?w2) = Inr (h2\<lparr>mounts := rest\<rparr>)"
    using wr s2(2) mounted_umount [OF mounted_create_repo [OF mnt(1) s2(1)] ctr(2) mnt(2)] by simp_all
  have again: "w_env (snd (reap P c ?w2)) = w_env (snd (reap P c w))" by (simp add: reap_def cput_def fun_eq_iff)
  have "sync_info (w_env (snd (reap P c ?w2))) row = row\<lparr>status := CONTAINER_STOPED, pid := 0\<rparr>"
    using row(3,4) by (simp add: sync_info_def)
  with srv_finish_known [OF lib w2(2,1) row(1,2) live(2) w2(3)] s2(3) again show ?thesis by fastforce
qed

text \<open>And \<open>rm\<close>, whatever the server has done to the row and to the host.\<close>

lemma rm_last:
  assumes lib: "json_library (P_json P) jdoc jtext" and tab: "dao_state (P_json P) jtext (w_file w) (cs @ [row])"
    and wr: "writable (w_env w)" and root: "ce_euid C = 0" and ctr: "\<not> is_option ctr" "ctr \<noteq> ''--''" "ctr \<noteq> ''--help''" "length ctr < 900"
    and row: "\<forall>x \<in> set cs. \<not> matches ctr x" "cid row = ctr" "\<not> (status row = CONTAINER_RUNNING \<and> proc_alive (w_env w) (pid row))"
    and sh: "\<And>l h. fst (shell (P_kernel P) l h) = 0 \<and> mounts (snd (shell (P_kernel P) l h)) = mounts h"
  shows "\<exists>w'. hoststack_main C P [''hoststack'', ''rm'', ctr] w = (Inr 0, w') \<and> dao_state (P_json P) jtext (w_file w') cs \<and>
    mounts (w_host w') = mounts (w_host w) \<and> w_env w' = w_env w"
proof -
  obtain h3 where h3: "create_repo (w_host w) = Inr h3" "mounts h3 = mounts (w_host w)" using create_repo_ok [of "w_host w"] by auto
  from remove_container_ok [OF ctr(4) sh, of h3] obtain h4 where
    h4: "remove_container (P_kernel P) (cid row) h3 = Inr (0, h4)" "mounts h4 = mounts (w_host w)" using h3(2) row(2) by auto
  have "\<forall>x \<in> set (cs @ [row]). cname x = cid row \<longrightarrow> cid x = cid row" using row(1,2) by auto
  from main_rm [OF lib tab wr root ctr(1-3) upd_first_last(2) [OF row(1)] this row(3) h3(1) h4(1)] row(2) filter_new [OF row(1,2)] obtain f4 where
    "dao_state (P_json P) jtext f4 cs" "hoststack_main C P [''hoststack'', ''rm'', ctr] w = (Inr 0, w\<lparr>w_host := h4, w_file := f4\<rparr>)" by auto
  with h4(2) show ?thesis by auto
qed

end
