(* ===== verification/PtyServer.thy ===== *)
theory PtyServer
  imports PtyPool
begin

text \<open>
  The rounds of the server of a container (\<open>pty_run_container\<close> in \<open>src/pty/pty_exec_util.cpp\<close>): what a round of
  its loop keeps and passes on, and what follows for any number of rounds.
\<close>

section \<open>What a round does\<close>

text \<open>What one or several rounds do for the clients: \<open>out\<close> is what was read from the master; a client
  that was there before and still is has received exactly that, a new one a part of the header (all of
  it when it could be written) and then everything read since.\<close>

definition served :: "int \<Rightarrow> string \<Rightarrow> pool \<Rightarrow> sys \<Rightarrow> pool \<Rightarrow> sys \<Rightarrow> bool" where
  "served M h p s p' s' \<longleftrightarrow>
     (\<exists>out. inq (ports s M) = out @ inq (ports s' M) \<and>
        (\<forall>c \<in> clients p'.
           (c \<in> clients p \<longrightarrow> outq (ports s' c) = outq (ports s c) @ out) \<and>
           (c \<notin> clients p \<longrightarrow>
              (\<exists>k o1 o2. out = o1 @ o2 \<and> outq (ports s' c) = outq (ports s c) @ take k h @ o2))))"

lemma served_refl: "served M h p s p s"
  by (auto simp: served_def)

lemma served_trans:
  assumes "served M h p s p1 s1" and "served M h p1 s1 p2 s2"
    and "\<And>c. c \<in> clients p2 \<Longrightarrow> c \<notin> clients p1 \<Longrightarrow> c \<notin> clients p \<and> outq (ports s1 c) = outq (ports s c)"
  shows "served M h p s p2 s2"
proof -
  from assms(1) obtain o1 where o1: "inq (ports s M) = o1 @ inq (ports s1 M)"
    "\<And>c. c \<in> clients p1 \<Longrightarrow> c \<in> clients p \<Longrightarrow> outq (ports s1 c) = outq (ports s c) @ o1"
    "\<And>c. c \<in> clients p1 \<Longrightarrow> c \<notin> clients p \<Longrightarrow>
      \<exists>k a b. o1 = a @ b \<and> outq (ports s1 c) = outq (ports s c) @ take k h @ b"
    by (auto simp: served_def)
  from assms(2) obtain o2 where o2: "inq (ports s1 M) = o2 @ inq (ports s2 M)"
    "\<And>c. c \<in> clients p2 \<Longrightarrow> c \<in> clients p1 \<Longrightarrow> outq (ports s2 c) = outq (ports s1 c) @ o2"
    "\<And>c. c \<in> clients p2 \<Longrightarrow> c \<notin> clients p1 \<Longrightarrow>
      \<exists>k a b. o2 = a @ b \<and> outq (ports s2 c) = outq (ports s1 c) @ take k h @ b"
    by (auto simp: served_def)
  have "(c \<in> clients p \<longrightarrow> outq (ports s2 c) = outq (ports s c) @ o1 @ o2) \<and>
    (c \<notin> clients p \<longrightarrow> (\<exists>k a b. o1 @ o2 = a @ b \<and> outq (ports s2 c) = outq (ports s c) @ take k h @ b))"
    if "c \<in> clients p2" for c
  proof (cases "c \<in> clients p1")
    case True
    show ?thesis
    proof (cases "c \<in> clients p")
      case in_p: True
      with o1(2) [OF True] o2(2) [OF that True] show ?thesis by simp
    next
      case False
      from o1(3) [OF True False] obtain k a b where "o1 = a @ b" "outq (ports s1 c) = outq (ports s c) @ take k h @ b"
        by blast
      with o2(2) [OF that True] False show ?thesis by (metis append.assoc)
    qed
  next
    case False
    from o2(3) [OF that False] obtain k a b where "o2 = a @ b" "outq (ports s2 c) = outq (ports s1 c) @ take k h @ b"
      by blast
    with assms(3) [OF that False] show ?thesis by (metis append.assoc)
  qed
  with o1(1) o2(1) show ?thesis by (auto simp: served_def intro!: exI [of _ "o1 @ o2"])
qed

text \<open>The other direction: \<open>q\<close> are the pieces taken from the clients, each with the client it came from, in the
  order in which they were written to the master. Every client's pieces together are what was taken from it.\<close>

definition picked :: "int \<Rightarrow> (int \<times> string) list \<Rightarrow> string" where
  "picked c q = concat (map snd (filter (\<lambda>x. fst x = c) q))"

definition gathered :: "int \<Rightarrow> sys \<Rightarrow> sys \<Rightarrow> bool" where
  "gathered M s s' \<longleftrightarrow>
     (\<exists>q. (\<forall>c. c \<noteq> M \<longrightarrow> inq (ports s c) = picked c q @ inq (ports s' c)) \<and>
        outq (ports s' M) = outq (ports s M) @ concat (map snd q))"

lemma picked_simps [simp]: "picked c [] = []" "picked c (q @ r) = picked c q @ picked c r"
  by (simp_all add: picked_def)

lemma picked_map: "distinct xs \<Longrightarrow> picked c (map (\<lambda>x. (x, d x)) xs) = (if c \<in> set xs then d c else [])"
  by (induction xs) (auto simp: picked_def)

lemma gathered_none:
  assumes "\<And>c. c \<noteq> M \<Longrightarrow> inq (ports s' c) = inq (ports s c)" "outq (ports s' M) = outq (ports s M)"
  shows "gathered M s s'"
  using assms by (auto simp: gathered_def intro: exI [of _ "[]"])

lemma gathered_trans: "gathered M s s1 \<Longrightarrow> gathered M s1 s2 \<Longrightarrow> gathered M s s2"
proof -
  assume "gathered M s s1" "gathered M s1 s2"
  then obtain q r where "\<forall>c. c \<noteq> M \<longrightarrow> inq (ports s c) = picked c q @ inq (ports s1 c)"
    "\<forall>c. c \<noteq> M \<longrightarrow> inq (ports s1 c) = picked c r @ inq (ports s2 c)"
    "outq (ports s1 M) = outq (ports s M) @ concat (map snd q)" "outq (ports s2 M) = outq (ports s1 M) @ concat (map snd r)"
    unfolding gathered_def by blast
  then show ?thesis by (auto simp: gathered_def intro!: exI [of _ "q @ r"])
qed

lemma input_relayed_pieces:
  assumes "input_relayed M cs s s'" "distinct (filter ((<) 0) cs)"
  shows "gathered M s s'"
proof -
  from assms(1) obtain d where d: "\<forall>c. inq (ports s c) = d c @ inq (ports s' c)" "\<forall>c. c \<notin> set (filter ((<) 0) cs) \<longrightarrow> d c = []"
    "outq (ports s' M) = outq (ports s M) @ concat (map d (filter ((<) 0) cs))"
    by (auto simp: input_relayed_def)
  let ?q = "map (\<lambda>x. (x, d x)) (filter ((<) 0) cs)"
  have "picked c ?q = d c" for c using picked_map [OF assms(2), of c d] d(2) by auto
  moreover have "map snd ?q = map d (filter ((<) 0) cs)" by simp
  ultimately show ?thesis unfolding gathered_def using d(1,3) by metis
qed

text \<open>One or several rounds, with the connections \<open>A\<close> accepted in them; \<open>fin\<close> when the loop is left.\<close>

definition round_ok :: "int \<Rightarrow> int \<Rightarrow> string \<Rightarrow> int set \<Rightarrow> pool \<Rightarrow> sys \<Rightarrow> bool \<Rightarrow> pool \<Rightarrow> sys \<Rightarrow> bool" where
  "round_ok L M h A p s fin p' s' \<longleftrightarrow>
     pool_ok L M p' \<and> fds_open p' s' \<and> clients p' \<subseteq> clients p \<union> A \<and>
     (\<forall>fd. fd \<notin> clients p \<and> fd \<notin> A \<and> fd \<noteq> M \<longrightarrow> ports s' fd = ports s fd) \<and>
     (\<forall>c \<in> clients p - clients p'. \<not> is_open (ports s' c)) \<and>
     served M h p s p' s' \<and> (\<not> fin \<longrightarrow> gathered M s s')"

lemma master_no_client: "pool_ok L M p \<Longrightarrow> M \<notin> clients p"
  by (auto simp: clients_nth dest: pool_ok_slot(3))

lemma round_trans:
  assumes p: "pool_ok L M p" and r1: "round_ok L M h A p s False p1 s1" and r2: "round_ok L M h B p1 s1 fin p2 s2"
    and new: "\<And>c. c \<in> B \<Longrightarrow> c \<notin> clients p \<and> c \<notin> A \<and> c \<noteq> M"
  shows "round_ok L M h (A \<union> B) p s fin p2 s2"
proof -
  note d = r1 [unfolded round_ok_def] r2 [unfolded round_ok_def]
  have fr: "ports s1 c = ports s c" if "c \<in> B" for c using d(1) new [OF that] by blast
  have "served M h p s p2 s2"
    by (rule served_trans [of M h p s p1 s1]) (use d new fr in auto)
  moreover have "\<not> is_open (ports s2 c)" if c: "c \<in> clients p" "c \<notin> clients p2" for c
  proof (cases "c \<in> clients p1")
    case False
    then have "ports s2 c = ports s1 c" using d(2) new c(1) master_no_client [OF p] by blast
    then show ?thesis using d(1) c(1) False by simp
  qed (use d(2) c(2) in blast)
  moreover have "ports s2 fd = ports s fd" if "fd \<notin> clients p" "fd \<notin> A \<union> B" "fd \<noteq> M" for fd
    using d that by (metis UnE UnI1 UnI2 subsetD)
  moreover have "\<not> fin \<longrightarrow> gathered M s s2" using d gathered_trans by blast
  moreover have "clients p2 \<subseteq> clients p \<union> (A \<union> B)" using d by blast
  ultimately show ?thesis using d(2) unfolding round_ok_def by blast
qed

lemma round_same:
  assumes "pool_ok L M p'" "fds_open p' s'" "clients p' = clients p" "ports s' = ports s"
  shows "round_ok L M h {} p s fin p' s'"
  using assms by (auto simp: round_ok_def served_def intro: gathered_none)

section \<open>The parts of a round\<close>

text \<open>The loop over the clients.\<close>

lemma round_clients:
  assumes p: "pool_ok L M p" and ok: "checked L M 0 p s (g, p1, s1)"
  shows "round_ok L M h {} p s g p1 s1"
proof -
  note c = ok [unfolded checked_def prod.case]
  have "served M h p s p1 s1" using c master_no_client [OF p] by (auto simp: served_def)
  moreover have "distinct (filter ((<) 0) (clientfd p))" using pool_ok_inj [OF p] by (intro distinct_filter_pos) auto
  then have "\<not> g \<longrightarrow> gathered M s s1" using c input_relayed_pieces by auto
  ultimately show ?thesis using c unfolding round_ok_def by blast
qed

text \<open>A read of the master that gives nothing, and one whose bytes are sent to the clients.\<close>

lemma round_no_output:
  assumes "pool_ok L M p" "fds_open p s" and r: "sys_read M BUF_SIZE s = (n, bs, s1)" "n \<le> 0"
  shows "round_ok L M h {} p s fin (p\<lparr>nready := k\<rparr>) s1"
proof -
  note rd = client_read [OF r(1)]
  have "fds_open p s1" using assms(2) rd(1) by (simp add: fds_open_def)
  with assms(1) rd(2,3) rd(4) [OF r(2)] show ?thesis by (auto simp: round_ok_def served_def intro: gathered_none)
qed

lemma round_output:
  assumes ok: "pool_ok L M p" "fds_open p s" and r: "sys_read M BUF_SIZE s = (n, bs, s1)" "\<not> n \<le> 0"
  shows "\<exists>p' s'. send_clients bs 0 (p\<lparr>nready := k\<rparr>) s1 = Inr (p', s') \<and> round_ok L M h {} p s False p' s'"
proof -
  let ?p = "p\<lparr>nready := k\<rparr>"
  note rd = client_read [OF r(1)]
  have "fds_open ?p s1" using ok(2) rd(1) by (simp add: fds_open_def)
  with send_clients_ok [of L M ?p s1 bs 0] ok(1) obtain p' s' where
    t: "send_clients bs 0 ?p s1 = Inr (p', s')" "sent L M bs 0 ?p s1 p' s'" by auto
  note st = t(2) [unfolded sent_def, simplified]
  have "served M h p s p' s'" unfolding served_def using st rd(2) rd(5) [OF r(2)] by (intro exI [of _ bs]) fastforce
  moreover have "gathered M s s'"
  proof (rule gathered_none)
    show "inq (ports s' c) = inq (ports s c)" if "c \<noteq> M" for c using st rd(3) [OF that] by simp
    show "outq (ports s' M) = outq (ports s M)" using st rd(2) master_no_client [OF ok(1)] by simp
  qed
  moreover have "ports s' fd = ports s fd" if "fd \<notin> clients p" "fd \<noteq> M" for fd using st rd(3) [OF that(2)] that(1) by simp
  ultimately show ?thesis using t(1) st unfolding round_ok_def by auto
qed

lemma check_clients_and_master_ok:
  assumes "pool_ok L M p" and "fds_open p s"
  shows "\<exists>rc p' s'. check_clients_and_master p s = Inr (rc, p', s') \<and> round_ok L M h {} p s (rc = 1) p' s'"
proof -
  from check_clients_ok [OF assms, of 0] obtain g p1 s1 where
    c: "check_clients 0 p s = Inr (g, p1, s1)" "checked L M 0 p s (g, p1, s1)" by auto
  note r1 = round_clients [OF assms(1) c(2), of h]
  have p1: "pool_ok L M p1" "fds_open p1 s1" "masterfd p1 = M" "M \<noteq> -1" using c(2) by (auto simp: checked_def pool_ok_def)
  show ?thesis
  proof (cases "\<not> g \<and> M \<in> ready_set p1")
    case False
    with c(1) p1(3) have "check_clients_and_master p s = Inr (if g then 1 else 0, p1, s1)"
      by (auto simp: check_clients_and_master_def)
    with r1 show ?thesis by auto
  next
    case True
    then have r1: "round_ok L M h {} p s False p1 s1" using r1 by simp
    obtain n bs s2 where r: "sys_read M BUF_SIZE s1 = (n, bs, s2)" using prod_cases3 by blast
    show ?thesis
    proof (cases "n \<le> 0")
      case none: True
      then have "check_clients_and_master p s = Inr (if errno s2 \<noteq> EINTR then 1 else 0, p1\<lparr>nready := nready p1 - 1\<rparr>, s2)"
        using c True r p1 by (auto simp: check_clients_and_master_def Let_def)
      with round_trans [OF assms(1) r1 round_no_output [OF p1(1,2) r none]] show ?thesis by auto
    next
      case some: False
      from round_output [OF p1(1,2) r some, of "nready p1 - 1" h] obtain p3 s3 where
        t: "send_clients bs 0 (p1\<lparr>nready := nready p1 - 1\<rparr>) s2 = Inr (p3, s3)" "round_ok L M h {} p1 s1 False p3 s3" by blast
      have "check_clients_and_master p s = Inr (0, p3, s3)"
        using c True r p1 some t(1) by (auto simp: check_clients_and_master_def Let_def)
      with round_trans [OF assms(1) r1 t(2)] show ?thesis by auto
    qed
  qed
qed

section \<open>Rounds in a row\<close>

text \<open>The connections \<open>accept\<close> returns in the coming rounds. For what the rounds pass on, a number stands for one
  connection, \<open>ports s c\<close>, so it comes up once, and it has a bit in the set. (The invariant of the pool, below,
  needs neither: a number that was closed may come back.)\<close>

definition accepted :: "(sel \<times> acc) list \<Rightarrow> int list" where
  "accepted inps = concat (map (\<lambda>inp. case snd inp of Inl e \<Rightarrow> [] | Inr (c, conn) \<Rightarrow> [c]) inps)"

definition accepts_ok :: "int \<Rightarrow> int \<Rightarrow> pool \<Rightarrow> sys \<Rightarrow> (sel \<times> acc) list \<Rightarrow> bool" where
  "accepts_ok L M p s inps \<longleftrightarrow>
     distinct (accepted inps) \<and> (\<forall>inp \<in> set inps. \<forall>c conn. snd inp = Inr (c, conn) \<longrightarrow> conn = ports s c) \<and>
     (\<forall>c \<in> set (accepted inps). 0 < c \<and> c < int FD_SETSIZE \<and> c \<noteq> L \<and> c \<noteq> M \<and> c \<notin> clients p \<and> is_open (ports s c))"

lemma in_accepted: "snd inp = Inr (c, conn) \<Longrightarrow> inp \<in> set inps \<Longrightarrow> c \<in> set (accepted inps)"
  by (force simp: accepted_def)

lemma set_port_same: "set_port fd (ports s fd) s = s"
  by (simp add: set_port_def)

lemma select_pool_ok:
  assumes "select_pool sl p s = (again, p1, s1)"
  shows "pool_ok L M p1 = pool_ok L M p" "clients p1 = clients p" "ports s1 = ports s" "fds_open p1 s1 = fds_open p s"
    "read_set p1 = read_set p"
proof -
  have "(\<exists>r n. p1 = p\<lparr>ready_set := r, nready := n\<rparr>) \<and> ports s1 = ports s"
    using assms by (cases sl) (auto simp: select_pool_def Let_def)
  then obtain r n where p: "p1 = p\<lparr>ready_set := r, nready := n\<rparr>" and s: "ports s1 = ports s" by blast
  from p have "pool_ok L M p1 = pool_ok L M p" "clients p1 = clients p" "read_set p1 = read_set p"
    by (simp_all add: pool_ok_def slot_ok_def clients_def)
  then show "pool_ok L M p1 = pool_ok L M p" "clients p1 = clients p" "ports s1 = ports s" "fds_open p1 s1 = fds_open p s"
    "read_set p1 = read_set p" using s by (simp_all add: fds_open_def)
qed

text \<open>A new client is added and gets the header.\<close>

lemma round_accept:
  assumes ok: "pool_ok L M p" "fds_open p s" and c: "0 < c" "c < int FD_SETSIZE" "c \<noteq> L" "c \<noteq> M" "c \<notin> clients p"
    "is_open (ports s c)"
  shows "\<exists>p'. add_client c p = Inr p' \<and> round_ok L M h {c} p s False p' (snd (rio_writen c h s))"
proof -
  from add_client_ok [OF ok(1) c(1-5)] obtain p' where
    a: "add_client c p = Inr p'" "pool_ok L M p'" "clients p' = clients p \<or> clients p' = insert c (clients p)"
    by (auto split: if_splits)
  obtain w s1 where w: "rio_writen c h s = (w, s1)" by fastforce
  note wf = rio_writen_frame [OF w]
  have "\<exists>k. outq (ports s1 c) = outq (ports s c) @ take k h"
    using rio_writen_loop_prefix [where fd = c and n = "length h" and bs = h and s = s] w
    by (auto simp: rio_writen_def intro: exI [of _ "length h"])
  then obtain k where k: "outq (ports s1 c) = outq (ports s c) @ take k h" by blast
  have "ports s1 x = ports s x" if "x \<in> clients p" for x using wf(1) [of x] that c(5) by auto
  then have "served M h p s p' s1" using wf(2) a(3) c(5) k unfolding served_def by (intro exI [of _ "[]"]) auto
  moreover have "fds_open p' s1" using a(2,3) ok c(6) wf(3) by (auto simp: fds_open_def pool_ok_def)
  moreover have "gathered M s s1" using wf(1,2) c(4) by (auto intro: gathered_none)
  ultimately show ?thesis using a wf(1) w unfolding round_ok_def by auto
qed

text \<open>The rounds without a new client: no answer of \<open>accept\<close> is asked for, or it failed.\<close>

lemma server_iter_quiet:
  assumes ok: "pool_ok L M p" "fds_open p s" and sel: "select_pool (fst inp) p s = (again, p1, s1)"
    and q: "again \<or> L \<notin> ready_set p1 \<or> (\<exists>e. snd inp = Inl e)"
  shows "\<exists>fin p' s'. server_iter L (hl, h) inp p s = Inr (fin, p', s') \<and> round_ok L M h {} p s fin p' s'"
proof -
  note sp = select_pool_ok [OF sel]
  have p1: "pool_ok L M p1" "fds_open p1 s1" using ok sp by simp_all
  define s2 where "s2 = (case snd inp of Inl e \<Rightarrow> if L \<in> ready_set p1 then s1\<lparr>errno := e\<rparr> else s1 | Inr x \<Rightarrow> s1)"
  have s2: "ports s2 = ports s1" by (simp add: s2_def split: sum.split)
  have p2: "fds_open p1 s2" using p1(2) s2 by (simp add: fds_open_def)
  have r1: "round_ok L M h {} p s fin p1 s'" if "ports s' = ports s1" for fin s'
    using round_same [of L M p1 s' p s] p1 sp(2,3) that by (simp add: fds_open_def)
  from check_clients_and_master_ok [OF p1(1) p2, of h] obtain rc p3 s3 where
    k: "check_clients_and_master p1 s2 = Inr (rc, p3, s3)" "round_ok L M h {} p1 s2 (rc = 1) p3 s3" by blast
  have "server_iter L (hl, h) inp p s = (if again then Inr (False, p1, s1) else Inr (rc = 1, p3, s3))"
    using sel q k(1) by (auto simp: server_iter_def s2_def split: sum.splits)
  moreover have "round_ok L M h {} p s (rc = 1) p3 s3" using round_trans [OF ok(1) r1 [OF s2] k(2)] by simp
  ultimately show ?thesis using r1 [of s1] by auto
qed

text \<open>The rounds with one.\<close>

lemma server_iter_accept:
  assumes ok: "pool_ok L M p" "fds_open p s" and sel: "select_pool (fst inp) p s = (False, p1, s1)"
    and acc: "snd inp = Inr (c, conn)" "L \<in> ready_set p1" "0 \<le> hl"
    and c: "0 < c" "c < int FD_SETSIZE" "c \<noteq> L" "c \<noteq> M" "c \<notin> clients p" "is_open conn"
  shows "\<exists>fin p' s'. server_iter L (hl, h) inp p s = Inr (fin, p', s') \<and> round_ok L M h {c} p (set_port c conn s) fin p' s'"
proof -
  let ?s = "set_port c conn s" and ?s1 = "set_port c conn s1"
  note sp = select_pool_ok [OF sel]
  have p: "fds_open p ?s" using ok c by (auto simp: fds_open_def pool_ok_def)
  have p1: "pool_ok L M p1" "fds_open p1 ?s1" using ok(1) p sp by (simp_all add: fds_open_def)
  have r1: "round_ok L M h {} p ?s False p1 ?s1" using round_same [OF p1 sp(2)] sp(3) by simp
  have "c \<notin> clients p1" "is_open (ports ?s1 c)" using c sp(2) by simp_all
  from round_accept [OF p1 c(1-4) this, of h] obtain p2 where
    a: "add_client c p1 = Inr p2" "round_ok L M h {c} p1 ?s1 False p2 (snd (rio_writen c h ?s1))" by blast
  from round_trans [OF ok(1) r1 a(2)] c(4,5) have r2: "round_ok L M h {c} p ?s False p2 (snd (rio_writen c h ?s1))" by simp
  from check_clients_and_master_ok [of L M p2 "snd (rio_writen c h ?s1)" h] a(2) obtain rc p3 s3 where
    k: "check_clients_and_master p2 (snd (rio_writen c h ?s1)) = Inr (rc, p3, s3)"
      "round_ok L M h {} p2 (snd (rio_writen c h ?s1)) (rc = 1) p3 s3" by (auto simp: round_ok_def)
  have "server_iter L (hl, h) inp p s = Inr (rc = 1, p3, s3)"
    using sel acc k(1) a(1) by (auto simp: server_iter_def rio_writen_len_def)
  with round_trans [OF ok(1) r2 k(2)] show ?thesis by simp
qed

text \<open>In the round that accepts it, a client gets a part of the header and all output from then on.\<close>

lemma header_then_output:
  assumes acc: "server_iter L (hl, h) inp p s = Inr (fin, p', s')" "select_pool (fst inp) p s = (False, p1, s1)" "snd inp = Inr (c, conn)"
      "L \<in> ready_set p1" "0 \<le> hl" and ok: "pool_ok L M p" "fds_open p s"
    and c: "0 < c" "c < int FD_SETSIZE" "c \<noteq> L" "c \<noteq> M" "c \<notin> clients p" "is_open conn" "c \<in> clients p'"
  shows "\<exists>n out. inq (ports s M) = out @ inq (ports s' M) \<and> outq (ports s' c) = outq conn @ take n h @ out"
proof -
  let ?s1 = "set_port c conn s1"
  note sp = select_pool_ok [OF acc(2)]
  have "\<forall>fd \<in> read_set p. is_open (ports (set_port c conn s) fd)" using ok c(6) by (simp add: fds_open_def)
  then have p1: "pool_ok L M p1" "fds_open p1 ?s1" using ok(1) sp by (simp_all add: fds_open_def)
  have "c \<notin> clients p1" "is_open (ports ?s1 c)" using c sp(2) by simp_all
  from round_accept [OF p1 c(1-4) this, of h] obtain p2 where
    a: "add_client c p1 = Inr p2" "round_ok L M h {c} p1 ?s1 False p2 (snd (rio_writen c h ?s1))" by blast
  obtain w s2 where w: "rio_writen c h ?s1 = (w, s2)" by fastforce
  note wf = rio_writen_frame [OF w]
  have "\<exists>n. outq (ports s2 c) = outq conn @ take n h"
    using rio_writen_loop_prefix [where fd = c and n = "length h" and bs = h and s = ?s1] w
    by (auto simp: rio_writen_def intro: exI [of _ "length h"])
  then obtain n where n: "outq (ports s2 c) = outq conn @ take n h" by blast
  from check_clients_and_master_ok [of L M p2 s2 h] a(2) w obtain rc p3 s3 where
    k: "check_clients_and_master p2 s2 = Inr (rc, p3, s3)" "round_ok L M h {} p2 s2 (rc = 1) p3 s3" by (auto simp: round_ok_def)
  have e: "p3 = p'" "s3 = s'" using acc k(1) a(1) w by (auto simp: server_iter_def rio_writen_len_def)
  then have "c \<in> clients p2" "served M h p2 s2 p' s'" using k(2) c(7) by (auto simp: round_ok_def)
  then obtain out where "inq (ports s2 M) = out @ inq (ports s' M)" "outq (ports s' c) = outq (ports s2 c) @ out"
    using c(7) by (auto simp: served_def)
  moreover have "inq (ports s2 M) = inq (ports s M)" using wf(2) [of M] sp(3) c(4) by simp
  ultimately show ?thesis using n by auto
qed

lemma server_iter_ok:
  assumes ok: "pool_ok L M p" "fds_open p s" and acc: "accepts_ok L M p s [inp]" and "0 \<le> hl"
  shows "\<exists>fin p' s'. server_iter L (hl, h) inp p s = Inr (fin, p', s') \<and> round_ok L M h (set (accepted [inp])) p s fin p' s'"
proof -
  obtain again p1 s1 where sel: "select_pool (fst inp) p s = (again, p1, s1)" using prod_cases3 by blast
  show ?thesis
  proof (cases "again \<or> L \<notin> ready_set p1 \<or> (\<exists>e. snd inp = Inl e)")
    case True
    have "round_ok L M h (set (accepted [inp])) p s fin p' s'" if "round_ok L M h {} p s fin p' s'" for fin p' s'
      using that unfolding round_ok_def by auto
    with server_iter_quiet [OF ok sel True, of hl h] show ?thesis by blast
  next
    case False
    then obtain c conn where i: "snd inp = Inr (c, conn)" "L \<in> ready_set p1" "\<not> again" by (cases "snd inp") auto
    have c: "conn = ports s c" "0 < c" "c < int FD_SETSIZE" "c \<noteq> L" "c \<noteq> M" "c \<notin> clients p" "is_open conn" "accepted [inp] = [c]"
      using acc i(1) by (auto simp: accepts_ok_def accepted_def)
    have "select_pool (fst inp) p s = (False, p1, s1)" using sel i(3) by simp
    from server_iter_accept [OF ok this i(1,2) assms(4) c(2-7), of h] c(1,8) show ?thesis by (simp add: set_port_same)
  qed
qed

lemma accepted_Cons: "accepted (inp # inps) = accepted [inp] @ accepted inps"
  by (simp add: accepted_def)

lemma accepts_ok_later:
  assumes "accepts_ok L M p s (inp # inps)" and r: "round_ok L M h (set (accepted [inp])) p s fin p1 s1"
  shows "accepts_ok L M p1 s1 inps"
    "\<And>c. c \<in> set (accepted inps) \<Longrightarrow> c \<notin> clients p \<and> c \<notin> set (accepted [inp]) \<and> c \<noteq> M"
proof -
  note a = assms(1) [unfolded accepts_ok_def accepted_Cons [of inp inps], simplified]
  show new: "c \<notin> clients p \<and> c \<notin> set (accepted [inp]) \<and> c \<noteq> M" if "c \<in> set (accepted inps)" for c
    using a that by blast
  have "c \<notin> clients p1 \<and> ports s1 c = ports s c" if "c \<in> set (accepted inps)" for c
    using r new [OF that] unfolding round_ok_def by blast
  then show "accepts_ok L M p1 s1 inps" using a in_accepted by (simp add: accepts_ok_def)
qed

lemma server_loop_ok:
  assumes "pool_ok L M p" and "fds_open p s" and "accepts_ok L M p s inps" and "0 \<le> hl"
  shows "\<exists>fin p' s'. server_loop L (hl, h) inps p s = Inr (fin, p', s') \<and> round_ok L M h (set (accepted inps)) p s fin p' s'"
  using assms(1-3)
proof (induction inps arbitrary: p s)
  case Nil
  then show ?case using round_same [of L M p s p s h False] by (auto simp: accepted_def)
next
  case (Cons inp inps)
  have "accepts_ok L M p s [inp]" using Cons.prems(3) by (auto simp: accepts_ok_def accepted_def)
  from server_iter_ok [OF Cons.prems(1,2) this assms(4), of h] obtain fin p1 s1 where
    it: "server_iter L (hl, h) inp p s = Inr (fin, p1, s1)" "round_ok L M h (set (accepted [inp])) p s fin p1 s1" by blast
  note acc = accepts_ok_later [OF Cons.prems(3) it(2)]
  show ?case
  proof (cases fin)
    case True
    have "round_ok L M h (set (accepted (inp # inps))) p s True p1 s1"
      using it(2) True unfolding round_ok_def accepted_Cons [of inp inps] by auto
    with it(1) True show ?thesis by (intro exI [of _ True] exI [of _ p1] exI [of _ s1]) simp
  next
    case False
    from Cons.IH [OF _ _ acc(1)] it(2) obtain fin' p2 s2 where
      r: "server_loop L (hl, h) inps p1 s1 = Inr (fin', p2, s2)" "round_ok L M h (set (accepted inps)) p1 s1 fin' p2 s2"
      by (auto simp: round_ok_def)
    from round_trans [OF Cons.prems(1) _ r(2) acc(2)] it(2) False
    have "round_ok L M h (set (accepted (inp # inps))) p s fin' p2 s2" unfolding accepted_Cons [of inp inps] by simp
    with it(1) r(1) False show ?thesis by simp
  qed
qed

text \<open>A client that is accepted in the first of several rounds and stays.\<close>

lemma accepted_first:
  assumes ok: "pool_ok L M p" "fds_open p s" and acc: "accepts_ok L M p s ((sl, Inr (c, conn)) # inps)" "0 \<le> hl"
    and run: "server_loop L (hl, h) ((sl, Inr (c, conn)) # inps) p s = Inr (fin, p', s')" "c \<in> clients p'"
  shows "\<exists>n out. inq (ports s M) = out @ inq (ports s' M) \<and> outq (ports s' c) = outq (ports s c) @ take n h @ out"
proof -
  let ?inp = "(sl, Inr (c, conn)) :: sel \<times> acc"
  have one: "accepts_ok L M p s [?inp]" using acc(1) by (auto simp: accepts_ok_def accepted_def)
  have c: "conn = ports s c" "0 < c" "c < int FD_SETSIZE" "c \<noteq> L" "c \<noteq> M" "c \<notin> clients p" "is_open conn" "c \<notin> set (accepted inps)"
    using acc(1) by (auto simp: accepts_ok_def accepted_def)
  from server_iter_ok [OF ok one acc(2), of h] obtain fin1 p1 s1 where
    it: "server_iter L (hl, h) ?inp p s = Inr (fin1, p1, s1)" "round_ok L M h (set (accepted [?inp])) p s fin1 p1 s1" by blast
  have later: "p' = p1 \<and> s' = s1 \<or> round_ok L M h (set (accepted inps)) p1 s1 fin p' s'"
  proof (cases fin1)
    case True
    then show ?thesis using run(1) it(1) by simp
  next
    case False
    from server_loop_ok [OF _ _ accepts_ok_later(1) [OF acc(1) it(2)] acc(2), of h] it(2) run(1) it(1) False show ?thesis
      by (auto simp: round_ok_def)
  qed
  then have c1: "c \<in> clients p1" using run(2) c(8) by (auto simp: round_ok_def)
  obtain again q t where sel: "select_pool sl p s = (again, q, t)" using prod_cases3 by blast
  have "\<not> again" "L \<in> ready_set q"
    using server_iter_quiet [OF ok, of ?inp again q t hl h] sel it(1) c1 c(6) by (auto simp: round_ok_def)
  with header_then_output [OF it(1) _ _ _ acc(2) ok c(2-7) c1] sel obtain n out where
    o: "inq (ports s M) = out @ inq (ports s1 M)" "outq (ports s1 c) = outq (ports s c) @ take n h @ out" using c(1) by auto
  from later c1 run(2) obtain out2 where "inq (ports s1 M) = out2 @ inq (ports s' M)" "outq (ports s' c) = outq (ports s1 c) @ out2"
    by (auto simp: round_ok_def served_def)
  with o show ?thesis by (intro exI [of _ n] exI [of _ "out @ out2"]) simp
qed

section \<open>Properties\<close>

text \<open>A connection that \<open>accept\<close> returns is open and has a number that is not in use: neither that of the listening
  socket, of the master and of standard input (0), nor that of a client in the pool at that moment. The number of a
  client that was given up may come back, and nothing bounds it.\<close>

fun accepts_unused :: "int \<Rightarrow> int \<Rightarrow> (int \<times> string) \<Rightarrow> (sel \<times> acc) list \<Rightarrow> pool \<Rightarrow> sys \<Rightarrow> bool" where
  "accepts_unused L M header [] p s = True"
| "accepts_unused L M header (inp # inps) p s \<longleftrightarrow>
     (case snd inp of
        Inl e \<Rightarrow> True
      | Inr (c, conn) \<Rightarrow> 0 < c \<and> c \<noteq> L \<and> c \<noteq> M \<and> c \<notin> clients p \<and> is_open conn) \<and>
     (case server_iter L header inp p s of Inr (False, p', s') \<Rightarrow> accepts_unused L M header inps p' s' | _ \<Rightarrow> True)"

text \<open>A number without a bit in the set.\<close>

lemma server_iter_beyond:
  assumes ok: "pool_ok L M p" "fds_open p s" and sel: "select_pool (fst inp) p s = (False, p1, s1)"
    and acc: "snd inp = Inr (c, conn)" "L \<in> ready_set p1" "0 \<le> hl" and c: "int FD_SETSIZE \<le> c" "c \<noteq> L" "c \<noteq> M" "c \<notin> clients p"
  shows "server_iter L (hl, h) inp p s = Inl OutOfBounds \<or>
    (\<exists>fin p' s'. server_iter L (hl, h) inp p s = Inr (fin, p', s') \<and> pool_ok L M p' \<and> fds_open p' s')"
proof (cases "free_slot 0 (clientfd p1)")
  case None
  let ?p = "p1\<lparr>nready := nready p1 - 1\<rparr>" and ?s = "snd (rio_writen c h (set_port c conn s1))"
  note sp = select_pool_ok [OF sel]
  obtain w s2 where w: "rio_writen c h (set_port c conn s1) = (w, s2)" by fastforce
  note wf = rio_writen_frame [OF w]
  have "pool_ok L M ?p" using ok sp by simp
  moreover from ok c sp have "c \<notin> read_set p1" "fds_open p1 s1" by (auto simp: pool_ok_def)
  then have "fds_open ?p s2" using wf(3) unfolding fds_open_def by auto
  ultimately obtain rc p3 s3 where k: "check_clients_and_master ?p s2 = Inr (rc, p3, s3)" "round_ok L M h {} ?p s2 (rc = 1) p3 s3"
    using check_clients_and_master_ok by blast
  have "server_iter L (hl, h) inp p s = Inr (rc = 1, p3, s3)"
    using sel acc k(1) None w by (simp add: server_iter_def rio_writen_len_def add_client_def)
  with k(2) show ?thesis by (auto simp: round_ok_def)
next
  case (Some i)
  then have "add_client c p1 = Inl OutOfBounds" using c(1) by (simp add: add_client_def FD_SET_def Let_def)
  then show ?thesis using sel acc by (simp add: server_iter_def)
qed

lemma server_iter_unused:
  assumes ok: "pool_ok L M p" "fds_open p s" and un: "accepts_unused L M (hl, h) (inp # inps) p s" and "0 \<le> hl"
  shows "(server_iter L (hl, h) inp p s = Inl OutOfBounds \<and> (\<exists>c conn. snd inp = Inr (c, conn) \<and> int FD_SETSIZE \<le> c)) \<or>
    (\<exists>fin p' s'. server_iter L (hl, h) inp p s = Inr (fin, p', s') \<and> pool_ok L M p' \<and> fds_open p' s')"
proof -
  obtain again p1 s1 where sel: "select_pool (fst inp) p s = (again, p1, s1)" using prod_cases3 by blast
  show ?thesis
  proof (cases "again \<or> L \<notin> ready_set p1 \<or> (\<exists>e. snd inp = Inl e)")
    case True
    with server_iter_quiet [OF ok sel True, of hl h] show ?thesis by (auto simp: round_ok_def)
  next
    case False
    then obtain c conn where i: "snd inp = Inr (c, conn)" "L \<in> ready_set p1" "\<not> again" by (cases "snd inp") auto
    have c: "0 < c" "c \<noteq> L" "c \<noteq> M" "c \<notin> clients p" "is_open conn" using un i(1) by simp_all
    have sel': "select_pool (fst inp) p s = (False, p1, s1)" using sel i(3) by simp
    show ?thesis
    proof (cases "c < int FD_SETSIZE")
      case True
      from server_iter_accept [OF ok sel' i(1,2) assms(4) c(1) True c(2-5), of h] show ?thesis by (auto simp: round_ok_def)
    next
      case False
      with server_iter_beyond [OF ok sel' i(1,2) assms(4) _ c(2-4), of h] i(1) show ?thesis by auto
    qed
  qed
qed

lemma server_loop_unused:
  assumes "pool_ok L M p" "fds_open p s" "accepts_unused L M (hl, h) inps p s" "0 \<le> hl"
  shows "(server_loop L (hl, h) inps p s = Inl OutOfBounds \<and> (\<exists>c conn. Inr (c, conn) \<in> snd ` set inps \<and> int FD_SETSIZE \<le> c)) \<or>
    (\<exists>fin p' s'. server_loop L (hl, h) inps p s = Inr (fin, p', s') \<and> pool_ok L M p' \<and> fds_open p' s')"
  using assms(1-3)
proof (induction inps arbitrary: p s)
  case (Cons inp inps)
  from server_iter_unused [OF Cons.prems assms(4)] show ?case
  proof (elim disjE conjE exE)
    fix c conn
    assume "server_iter L (hl, h) inp p s = Inl OutOfBounds" "snd inp = Inr (c, conn)" "int FD_SETSIZE \<le> c"
    then show ?thesis by (intro disjI1) (auto intro!: image_eqI [of _ _ inp])
  next
    fix fin p1 s1
    assume it: "server_iter L (hl, h) inp p s = Inr (fin, p1, s1)" "pool_ok L M p1" "fds_open p1 s1"
    show ?thesis
    proof (cases fin)
      case True
      with it show ?thesis by (intro disjI2 exI [of _ True] exI [of _ p1] exI [of _ s1]) simp
    next
      case False
      then have "accepts_unused L M (hl, h) inps p1 s1" using Cons.prems(3) it(1) by simp
      from Cons.IH [OF it(2,3) this] it(1) False show ?thesis by auto
    qed
  qed
qed (auto intro: exI [of _ False])

text \<open>What the invariant says of the watched descriptors.\<close>

lemma pool_ok_watched:
  assumes "pool_ok L M p" "fds_open p s"
  shows "read_set p = {L, M} \<union> clients p \<and> (\<forall>fd \<in> read_set p. fd \<le> maxfd p \<and> is_open (ports s fd)) \<and>
    distinct (filter (\<lambda>c. 0 < c) (clientfd p))"
proof -
  have "c \<le> maxfd p" if "c \<in> clients p" for c
  proof -
    from that obtain i where i: "i < length (clientfd p)" "clientfd p ! i = c" "0 < c" by (auto simp: clients_nth)
    from assms(1) i(1) have "slot_ok L M p i" by (simp add: pool_ok_def)
    with i show ?thesis by (simp add: slot_ok_def Let_def)
  qed
  moreover have "distinct (filter (\<lambda>c. 0 < c) (clientfd p))"
    using pool_ok_inj [OF assms(1)] by (intro distinct_filter_pos) auto
  ultimately show ?thesis using assms by (auto simp: pool_ok_def fds_open_def)
qed

text \<open>C7 (invariant): from \<open>init_pool\<close> on, through every sequence of \<open>select\<close> and \<open>accept\<close> results, each client
  occupies one slot, the watched descriptors are exactly the listening socket, the master and the clients,
  none above \<open>maxfd\<close>, and all of them are open. Only one thing can go wrong, and it is not prevented: \<open>accept\<close> has
  returned a descriptor of \<open>FD_SETSIZE\<close> or more, for which \<open>FD_SET\<close> writes outside the set. What is assumed of \<open>accept\<close> is
  that the descriptor is not in use, so the number of a client that has left may come back. The master was opened
  before the listening socket, so its number is not larger.\<close>

theorem server_pool_invariant:
  assumes "0 \<le> M" "M \<le> L" "L < int FD_SETSIZE" "is_open (ports s L)" "is_open (ports s M)" "0 \<le> hl"
    and "init_pool L M p0 = Inr p" and "accepts_unused L M (hl, h) inps p s"
  shows "case server_loop L (hl, h) inps p s of
      Inl e \<Rightarrow> e = OutOfBounds \<and> (\<exists>c conn. Inr (c, conn) \<in> snd ` set inps \<and> int FD_SETSIZE \<le> c)
    | Inr (fin, p', s') \<Rightarrow>
        read_set p' = {L, M} \<union> clients p' \<and> (\<forall>fd \<in> read_set p'. fd \<le> maxfd p' \<and> is_open (ports s' fd)) \<and>
        distinct (filter (\<lambda>c. 0 < c) (clientfd p'))"
proof -
  from init_pool_ok [of L M p0] assms have p: "pool_ok L M p" "clients p = {}" by auto
  then have "fds_open p s" using assms(4,5) by (auto simp: fds_open_def pool_ok_def)
  from server_loop_unused [OF p(1) this assms(8,6)] show ?thesis
  proof (elim disjE conjE exE)
    fix fin p' s'
    assume "server_loop L (hl, h) inps p s = Inr (fin, p', s')" "pool_ok L M p'" "fds_open p' s'"
    with pool_ok_watched [of L M p' s'] show ?thesis by simp
  qed auto
qed

definition demo_pool :: pool where
  "demo_pool = \<lparr>maxfd = 0, read_set = {}, ready_set = {}, nready = 0, maxi = 0, clientfd = [], masterfd = 0\<rparr>"

text \<open>Client 5 joins; its connection has ended already, so it leaves in the next round, and 5 is accepted again.\<close>

definition mute_port :: port where
  "mute_port = \<lparr>inq = [], rsched = [], outq = [], wsched = [], is_open = True\<rparr>"

definition demo_rounds :: "(sel \<times> acc) list" where
  "demo_rounds = [(Sel_ready {4}, Inr (5, mute_port)), (Sel_ready {5}, Inl 0), (Sel_ready {4}, Inr (5, mute_port))]"

lemma demo_joined:
  assumes "init_pool 4 3 demo_pool = Inr p" "wsched conn = []"
  shows "\<exists>p1 s1. server_iter 4 (2, ''$ '') (Sel_ready {4}, Inr (5, conn)) p s = Inr (False, p1, s1) \<and>
    clientfd p1 = 5 # replicate 1023 (-1) \<and> maxi p1 = 0 \<and> read_set p1 = {3, 4, 5} \<and> maxfd p1 = 5 \<and> masterfd p1 = 3 \<and>
    inq (ports s1 5) = inq conn \<and> rsched (ports s1 5) = rsched conn \<and> outq (ports s1 5) = outq conn @ ''$ '' \<and> errno s1 = errno s"
proof -
  have r: "replicate FD_SETSIZE (-1 :: int) = -1 # replicate 1023 (-1)" by (simp add: FD_SETSIZE_def flip: replicate_Suc)
  have p: "p = \<lparr>maxfd = 4, read_set = {3, 4}, ready_set = {}, nready = 0, maxi = -1, clientfd = -1 # replicate 1023 (-1), masterfd = 3\<rparr>"
    using assms r by (simp add: init_pool_def FD_SET_def FD_SETSIZE_def demo_pool_def insert_commute)
  have f: "Set.filter (\<lambda>fd. fd < 4 + 1 \<and> fd \<in> {4}) {3, 4 :: int} = {4}" by auto
  show ?thesis using assms(2)
    by (simp add: server_iter_def select_pool_def p f add_client_def FD_SET_def FD_SETSIZE_def rio_writen_len_def rio_writen_def
        rio_writen_loop.simps sys_write_def check_clients_and_master_def check_clients.simps Let_def insert_commute)
qed

lemma demo_left:
  assumes "clientfd p = 5 # replicate 1023 (-1)" "maxi p = 0" "read_set p = {3, 4, 5}" "maxfd p = 5" "masterfd p = 3"
    "inq (ports s 5) = []" "rsched (ports s 5) = []" "errno s = 0"
  shows "\<exists>p1 s1. server_iter 4 (2, ''$ '') (Sel_ready {5}, Inl 0) p s = Inr (False, p1, s1) \<and> clients p1 = {}"
proof -
  have f: "Set.filter (\<lambda>fd. fd < 5 + 1 \<and> fd \<in> {5}) {3, 4, 5 :: int} = {5}" by auto
  show ?thesis using assms
    by (simp add: server_iter_def select_pool_def f check_clients_and_master_def check_clients.simps sys_read_def EINTR_def
        drop_client_def clients_def Let_def)
qed

theorem server_pool_invariant_witness:
  "\<exists>p. init_pool 4 3 demo_pool = Inr p \<and>
    (case server_loop 4 (2, ''$ '') demo_rounds p demo_sys of
       Inl e \<Rightarrow> False
     | Inr (fin, p', s') \<Rightarrow> \<forall>fd \<in> read_set p'. fd \<le> maxfd p' \<and> is_open (ports s' fd))"
proof -
  have L: "(4::int) < int FD_SETSIZE" by (simp add: FD_SETSIZE_def)
  from init_pool_ok [of 4 3 demo_pool] L obtain p where p: "init_pool 4 3 demo_pool = Inr p" "clients p = {}" by auto
  have open_all: "is_open (ports demo_sys fd)" for fd by (simp add: demo_sys_def demo_port_def)
  from demo_joined [OF p(1), of mute_port demo_sys] obtain p1 s1 where
    1: "server_iter 4 (2, ''$ '') (Sel_ready {4}, Inr (5, mute_port)) p demo_sys = Inr (False, p1, s1)"
      "clientfd p1 = 5 # replicate 1023 (-1)" "maxi p1 = 0" "read_set p1 = {3, 4, 5}" "maxfd p1 = 5" "masterfd p1 = 3"
      "inq (ports s1 5) = []" "rsched (ports s1 5) = []" "errno s1 = 0" by (auto simp: mute_port_def demo_sys_def)
  from demo_left [OF 1(2-9)] obtain p2 s2 where
    2: "server_iter 4 (2, ''$ '') (Sel_ready {5}, Inl 0) p1 s1 = Inr (False, p2, s2)" "clients p2 = {}" by blast
  have "accepts_unused 4 3 (2, ''$ '') demo_rounds p demo_sys"
    using p(2) 1(1) 2 by (simp add: demo_rounds_def mute_port_def split: sum.split prod.split bool.split)
  from server_pool_invariant [OF _ _ L open_all open_all _ p(1) this] p(1) show ?thesis
    by (auto simp: demo_rounds_def FD_SETSIZE_def split: sum.splits)
qed

text \<open>C5 (functional): whatever the interleaving of ready clients, new connections and output, the
  server loses, repeats and reorders no byte of the container's output: \<open>out\<close>, the bytes taken from
  the master during the rounds, has reached every client that stayed connected, and a client that
  joined meanwhile has received a prefix of the header and then all output since it joined.\<close>

theorem server_broadcasts_output:
  assumes "pool_ok L M p" and "fds_open p s" and "accepts_ok L M p s inps" and "0 \<le> hl"
  shows "\<exists>fin p' s' out. server_loop L (hl, h) inps p s = Inr (fin, p', s') \<and>
    inq (ports s M) = out @ inq (ports s' M) \<and>
    (\<forall>c \<in> clients p'.
       (c \<in> clients p \<longrightarrow> outq (ports s' c) = outq (ports s c) @ out) \<and>
       (c \<notin> clients p \<longrightarrow> (\<exists>k o1 o2. out = o1 @ o2 \<and> outq (ports s' c) = outq (ports s c) @ take k h @ o2)))"
  using server_loop_ok [OF assms, of h] unfolding round_ok_def served_def by blast

theorem server_broadcasts_output_witness:
  "\<exists>p fin p' s' out. init_pool 4 3 demo_pool = Inr p \<and>
    server_loop 4 (2, ''$ '') [(Sel_ready {4}, Inr (5, demo_port)), (Sel_ready {3}, Inl 0)] p demo_sys = Inr (fin, p', s') \<and>
    ''hello'' = out @ inq (ports s' 3)"
proof -
  have L: "(4::int) < int FD_SETSIZE" by (simp add: FD_SETSIZE_def)
  from init_pool_ok [of 4 3 demo_pool] L obtain p where
    p: "init_pool 4 3 demo_pool = Inr p" "pool_ok 4 3 p" "clients p = {}" by auto
  have open_all: "is_open (ports demo_sys fd)" for fd by (simp add: demo_sys_def demo_port_def)
  have "accepts_ok 4 3 p demo_sys [(Sel_ready {4}, Inr (5, demo_port)), (Sel_ready {3}, Inl 0)]"
    using p(3) open_all by (simp add: accepts_ok_def accepted_def FD_SETSIZE_def demo_sys_def)
  moreover have "fds_open p demo_sys" using open_all by (simp add: fds_open_def)
  moreover have "inq (ports demo_sys 3) = ''hello''" by (simp add: demo_sys_def demo_port_def)
  ultimately show ?thesis
    using server_broadcasts_output [OF p(2), of demo_sys "[(Sel_ready {4}, Inr (5, demo_port)), (Sel_ready {3}, Inl 0)]" 2 "''$ ''"] p(1)
    by auto
qed


text \<open>C6 (functional): nor does the server lose, repeat or reorder a byte of what the clients type: as long as it
  runs, the master has received the pieces \<open>q\<close> taken from the clients, and nothing else; the pieces of one
  client, in their order, are what was taken from its input. A client that has left the pool was closed.\<close>

theorem server_relays_input:
  assumes "pool_ok L M p" and "fds_open p s" and "accepts_ok L M p s inps" and "0 \<le> hl"
  shows "\<exists>fin p' s'. server_loop L (hl, h) inps p s = Inr (fin, p', s') \<and>
    (\<forall>c \<in> clients p - clients p'. \<not> is_open (ports s' c)) \<and>
    (fin \<or> (\<exists>q. outq (ports s' M) = outq (ports s M) @ concat (map snd q) \<and>
       (\<forall>c. c \<noteq> M \<longrightarrow> inq (ports s c) = picked c q @ inq (ports s' c))))"
  using server_loop_ok [OF assms, of h] unfolding round_ok_def gathered_def by blast

text \<open>Client 5 joins, and what waits in its connection goes to the master in the round after.\<close>

theorem server_relays_input_witness:
  "\<exists>p fin p' s'. init_pool 4 3 demo_pool = Inr p \<and>
    server_loop 4 (2, ''$ '') [(Sel_ready {4}, Inr (5, demo_port)), (Sel_ready {5}, Inl 0)] p demo_sys = Inr (fin, p', s') \<and>
    (fin \<or> (\<exists>q. outq (ports s' 3) = concat (map snd q) \<and> ''hello'' = picked 5 q @ inq (ports s' 5)))"
proof -
  have L: "(4::int) < int FD_SETSIZE" by (simp add: FD_SETSIZE_def)
  from init_pool_ok [of 4 3 demo_pool] L obtain p where
    p: "init_pool 4 3 demo_pool = Inr p" "pool_ok 4 3 p" "clients p = {}" by auto
  have port: "is_open (ports demo_sys fd)" "inq (ports demo_sys fd) = ''hello''" "outq (ports demo_sys fd) = []" for fd
    by (simp_all add: demo_sys_def demo_port_def)
  have "accepts_ok 4 3 p demo_sys [(Sel_ready {4}, Inr (5, demo_port)), (Sel_ready {5}, Inl 0)]"
    using p(3) port by (simp add: accepts_ok_def accepted_def FD_SETSIZE_def demo_sys_def)
  moreover have "fds_open p demo_sys" using port by (simp add: fds_open_def)
  ultimately obtain fin p' s' where
    r: "server_loop 4 (2, ''$ '') [(Sel_ready {4}, Inr (5, demo_port)), (Sel_ready {5}, Inl 0)] p demo_sys = Inr (fin, p', s')"
      "fin \<or> (\<exists>q. outq (ports s' 3) = outq (ports demo_sys 3) @ concat (map snd q) \<and>
         (\<forall>c. c \<noteq> 3 \<longrightarrow> inq (ports demo_sys c) = picked c q @ inq (ports s' c)))"
    using server_relays_input [OF p(2), of demo_sys "[(Sel_ready {4}, Inr (5, demo_port)), (Sel_ready {5}, Inl 0)]" 2 "''$ ''"] by auto
  from r(2) have "fin \<or> (\<exists>q. outq (ports s' 3) = concat (map snd q) \<and> ''hello'' = picked 5 q @ inq (ports s' 5))"
  proof (elim disjE exE conjE)
    fix q
    assume "outq (ports s' 3) = outq (ports demo_sys 3) @ concat (map snd q)"
      "\<forall>c. c \<noteq> 3 \<longrightarrow> inq (ports demo_sys c) = picked c q @ inq (ports s' c)"
    then show ?thesis by (intro disjI2 exI [of _ q]) (simp add: port)
  qed simp
  with r(1) p(1) show ?thesis by blast
qed

end
