(* ===== verification/Supervisor.thy ===== *)
theory Supervisor
  imports Commands
begin

text \<open>
  \<open>src/hoststack_supervisor.cpp\<close>: the daemon that looks at the table every three seconds and starts again every
  container whose process is gone. Its check threads are taken one after the other; the world may change before
  each of them and before each round. What its logger writes is left out.
\<close>

definition sup_ws :: winsize where "sup_ws = (67, 204)"

text \<open>\<open>info.status == CONTAINER_RUNNING\<close> and no \<open>/proc/<pid>\<close>.\<close>

definition vanished :: "dao_env \<Rightarrow> container_info \<Rightarrow> bool" where
  "vanished env c \<longleftrightarrow> status c = CONTAINER_RUNNING \<and> \<not> proc_alive env (pid c)"

text \<open>The thread, after its three seconds; an empty \<open>optional\<close> is dereferenced.\<close>

definition run_checkandrestart :: "'j plat \<Rightarrow> string \<Rightarrow> unit cmd" where
  "run_checkandrestart P v =
     cbind (on_file (\<lambda>env f. rbind (get_container_by_id (P_json P) v f) (\<lambda>x. Inr (x, f)))) (\<lambda>info.
     case info of
       None \<Rightarrow> cfail EmptyOptional
     | Some c \<Rightarrow>
         cbind (cget w_env) (\<lambda>env.
         if vanished env c
         then cthen (on_file_u (\<lambda>env. change_status_to_stop (P_json P) env (cid c)))
             (cthen (startContainer P True (cid c) None sup_ws)
               (print_out (''2 start '' @ cname c @ NL)))
         else cret ()))"

text \<open>The identifiers for which a round creates a thread; \<open>list()\<close> gives \<open>NULL\<close> for an empty table.\<close>

definition sup_scan :: "'j plat \<Rightarrow> string list cmd" where
  "sup_scan P =
     cbind (on_file (\<lambda>env f. rbind (dao_list (P_json P) f) (\<lambda>x. Inr (x, f)))) (\<lambda>vec.
     case vec of
       None \<Rightarrow> cfail NullDeref
     | Some cs \<Rightarrow> cget (\<lambda>w. map cid (filter (vanished (w_env w)) cs)))"

fun sup_threads :: "'j plat \<Rightarrow> (nat \<Rightarrow> world \<Rightarrow> world) \<Rightarrow> nat \<Rightarrow> string list \<Rightarrow> unit cmd" where
  "sup_threads P ev k [] = cret ()"
| "sup_threads P ev k (v # vs) = cthen (cput (ev k)) (cthen (run_checkandrestart P v) (sup_threads P ev (Suc k) vs))"

definition sup_round :: "'j plat \<Rightarrow> (nat \<Rightarrow> world \<Rightarrow> world) \<Rightarrow> unit cmd" where
  "sup_round P ev = cbind (sup_scan P) (sup_threads P ev 0)"

text \<open>The endless loop, for as many rounds as \<open>evs\<close> has; each round has what happens before it and during it.\<close>

fun sup_loop :: "'j plat \<Rightarrow> ((world \<Rightarrow> world) \<times> (nat \<Rightarrow> world \<Rightarrow> world)) list \<Rightarrow> unit cmd" where
  "sup_loop P [] = cret ()"
| "sup_loop P ((pre, acts) # evs) = cthen (cput pre) (cthen (sup_round P acts) (sup_loop P evs))"

text \<open>\<open>main\<close>; the text for another user than root is not ASCII and left out, and so is the failure of \<open>daemon\<close>,
  which is only logged.\<close>

definition supervisor_main :: "cli_env \<Rightarrow> 'j plat \<Rightarrow> ((world \<Rightarrow> world) \<times> (nat \<Rightarrow> world \<Rightarrow> world)) list \<Rightarrow> unit cmd" where
  "supervisor_main C P evs = (if ce_euid C \<noteq> 0 then cfail (Exit 1) else sup_loop P evs)"

section \<open>Properties\<close>

lemma sup_scan_result:
  assumes lib: "json_library (P_json P) jdoc jtext" and tab: "dao_state (P_json P) jtext (w_file w) cs"
  shows "sup_scan P w =
    (if cs = [] then (Inl NullDeref, w) else (Inr (map cid (filter (vanished (w_env w)) cs)), w))"
  using container_store.list_law [OF json_library.dao_store [OF lib] tab]
  by (simp add: sup_scan_def cmd_defs)

lemma find_by_id:
  "distinct (map cid cs) \<Longrightarrow> c \<in> set cs \<Longrightarrow> find (\<lambda>x. cid x = cid c) cs = Some c"
  by (induction cs) force+

lemma by_id_result:
  assumes lib: "json_library (P_json P) jdoc jtext" and tab: "dao_state (P_json P) jtext (w_file w) cs"
    and "c \<in> set cs"
  shows "get_container_by_id (P_json P) (cid c) (w_file w) = Inr (Some c)"
  using container_store.by_id_law [OF json_library.dao_store [OF lib] tab, of "cid c"] tab assms(3)
  by (simp add: find_by_id dao_state_def)

lemma restart_vanished:
  assumes lib: "json_library (P_json P) jdoc jtext" and tab: "dao_state (P_json P) jtext (w_file w) cs"
    and wr: "writable (w_env w)" and mem: "\<forall>k. mem_ok (P_kernel P) k"
    and c: "c \<in> set cs" "vanished (w_env w) c" "find (matches (cid c)) cs = Some c"
  shows "\<exists>f. run_checkandrestart P (cid c) w =
      cthen (service_start P \<lparr>so_id = cid c, so_cmd = Some (strtok_all BLANK (command c)), so_detach = True,
          so_volumes = Some (volume_list c), so_ws = Some sup_ws, so_attr = None\<rparr> (start_callback P (stopped c)))
        (print_out (''2 start '' @ cname c @ NL)) (w\<lparr>w_file := f\<rparr>) \<and>
    dao_state (P_json P) jtext f (upd_first (matches (cid c)) stopped cs)"
proof -
  let ?v = "cid c"
  from json_library.stop_table [OF lib tab c(3) wr] obtain f1 where
    f1: "change_status_to_stop (P_json P) (w_env w) ?v (w_file w) = Inr f1"
      "dao_state (P_json P) jtext f1 (upd_first (matches ?v) stopped cs)" by blast
  have fnd: "find (matches ?v) (upd_first (matches ?v) stopped cs) = Some (stopped c)"
    by (rule container_store.find_upd_first_same [OF json_library.dao_store [OF lib] c(3)]) simp
  have sync: "sync_info env (stopped x) = stopped x" for env x by (simp add: sync_info_def stopped_def)
  from lookup_result [of P jdoc jtext "w\<lparr>w_file := f1\<rparr>" "upd_first (matches ?v) stopped cs" ?v] lib f1(2) wr obtain f where
    l: "lookup P ?v (w\<lparr>w_file := f1\<rparr>) = (Inr (Some (stopped c)), w\<lparr>w_file := f\<rparr>)"
      "dao_state (P_json P) jtext f (upd_first (matches ?v) (sync_info (w_env w)) (upd_first (matches ?v) stopped cs))"
    by (auto simp: fnd sync)
  have "upd_first (matches ?v) (sync_info (w_env w)) (upd_first (matches ?v) stopped cs) = upd_first (matches ?v) stopped cs"
    by (subst upd_first_twice) (auto simp: comp_def sync)
  moreover have "status (stopped c) \<noteq> CONTAINER_RUNNING" "command (stopped c) = command c"
    "volume_list (stopped c) = volume_list c" by (simp_all add: stopped_def)
  ultimately show ?thesis
    using l c(2) f1(1) by_id_result [OF lib tab c(1)] str_split_ok [OF mem, of "command c" BLANK]
    by (auto simp: run_checkandrestart_def startContainer_def cmd_defs)
qed

text \<open>C11 (functional): when every container recorded as running has its process, a round of the supervisor changes
  nothing; when exactly one has lost it, the round marks that one stopped in the table and then starts it,
  detached, with the recorded command and volumes on a terminal of 67 rows and 204 columns.\<close>

theorem supervisor_restarts_vanished:
  assumes lib: "json_library (P_json P) jdoc jtext" and tab: "dao_state (P_json P) jtext (w_file w) cs"
    and wr: "writable (w_env w)" and mem: "\<forall>k. mem_ok (P_kernel P) k" and ne: "cs \<noteq> []"
  shows "(filter (vanished (w_env w)) cs = [] \<longrightarrow> sup_round P (\<lambda>_ w. w) w = (Inr (), w)) \<and>
    (\<forall>c. filter (vanished (w_env w)) cs = [c] \<and> find (matches (cid c)) cs = Some c \<longrightarrow>
      (\<exists>f. sup_round P (\<lambda>_ w. w) w =
        cthen (service_start P \<lparr>so_id = cid c, so_cmd = Some (strtok_all BLANK (command c)), so_detach = True,
            so_volumes = Some (volume_list c), so_ws = Some sup_ws, so_attr = None\<rparr> (start_callback P (stopped c)))
          (print_out (''2 start '' @ cname c @ NL)) (w\<lparr>w_file := f\<rparr>) \<and>
      dao_state (P_json P) jtext f (upd_first (matches (cid c)) stopped cs)))"
proof (intro conjI impI allI)
  note scan = sup_scan_result [OF lib tab]
  show "sup_round P (\<lambda>_ w. w) w = (Inr (), w)" if "filter (vanished (w_env w)) cs = []"
    using that ne by (simp add: sup_round_def scan cbind_def cret_def)
  fix c
  assume c: "filter (vanished (w_env w)) cs = [c] \<and> find (matches (cid c)) cs = Some c"
  then have "c \<in> set (filter (vanished (w_env w)) cs)" by simp
  then have "c \<in> set cs" "vanished (w_env w) c" by auto
  from restart_vanished [OF lib tab wr mem this] c obtain f where
    r: "run_checkandrestart P (cid c) w =
      cthen (service_start P \<lparr>so_id = cid c, so_cmd = Some (strtok_all BLANK (command c)), so_detach = True,
          so_volumes = Some (volume_list c), so_ws = Some sup_ws, so_attr = None\<rparr> (start_callback P (stopped c)))
        (print_out (''2 start '' @ cname c @ NL)) (w\<lparr>w_file := f\<rparr>)"
    "dao_state (P_json P) jtext f (upd_first (matches (cid c)) stopped cs)" by auto
  have "sup_round P (\<lambda>_ w. w) w = run_checkandrestart P (cid c) w"
    using c ne by (simp add: sup_round_def scan cbind_def cthen_def cput_def cret_def split: prod.splits sum.splits)
  with r show "\<exists>f. sup_round P (\<lambda>_ w. w) w =
      cthen (service_start P \<lparr>so_id = cid c, so_cmd = Some (strtok_all BLANK (command c)), so_detach = True,
          so_volumes = Some (volume_list c), so_ws = Some sup_ws, so_attr = None\<rparr> (start_callback P (stopped c)))
        (print_out (''2 start '' @ cname c @ NL)) (w\<lparr>w_file := f\<rparr>) \<and>
    dao_state (P_json P) jtext f (upd_first (matches (cid c)) stopped cs)" by auto
qed

text \<open>C32 (error): on a table without a container, such as that of a new installation without a data file, the
  supervisor ends in its first round, dereferencing the null pointer that \<open>list()\<close> returned.\<close>

theorem supervisor_dies_on_empty_table:
  assumes lib: "json_library (P_json P) jdoc jtext" and tab: "dao_state (P_json P) jtext (w_file w) []"
    and root: "ce_euid C = 0"
  shows "supervisor_main C P ((\<lambda>w. w, acts) # evs) w = (Inl NullDeref, w)"
  using sup_scan_result [OF lib tab] root
  by (simp add: supervisor_main_def sup_round_def cthen_def cbind_def cput_def)

theorem supervisor_dies_on_empty_table_witness:
  "supervisor_main demo_cli demo_plat [(\<lambda>w. w, \<lambda>_ w. w)] (demo_world None) = (Inl NullDeref, demo_world None)"
proof -
  have j: "P_json demo_plat = json_impl" "w_file (demo_world None) = None" "ce_euid demo_cli = 0"
    by (simp_all add: demo_plat_def demo_world_def demo_cli_def)
  show ?thesis
    by (rule supervisor_dies_on_empty_table [of demo_plat doc_jv text_jv]) (simp_all add: j jimpl.json_library_axioms jimpl.no_file)
qed

theorem supervisor_restarts_vanished_witness:
  "\<exists>f. sup_round demo_plat (\<lambda>_ w. w) (demo_world demo_file) =
     cthen (service_start demo_plat \<lparr>so_id = ''a1'', so_cmd = Some [''bash''], so_detach = True,
         so_volumes = Some [''/data:/data''], so_ws = Some sup_ws, so_attr = None\<rparr> (start_callback demo_plat (stopped demo_info)))
       (print_out (''2 start web'' @ NL)) ((demo_world demo_file)\<lparr>w_file := f\<rparr>)"
proof -
  have P: "P_json demo_plat = json_impl" "P_kernel demo_plat = demo_kernel" "w_file (demo_world demo_file) = demo_file"
    "w_env (demo_world demo_file) = demo_env" by (simp_all add: demo_plat_def demo_world_def)
  have m: "\<forall>k. mem_ok demo_kernel k" by (simp add: demo_kernel_def)
  have toks: "strtok_all BLANK ''bash'' = [''bash'']"
    by (simp add: strtok_all.simps strtok_next_def BLANK_def)
  have v: "filter (vanished demo_env) [demo_info] = [demo_info]" "find (matches (cid demo_info)) [demo_info] = Some demo_info"
    by (simp_all add: vanished_def empty_info_def)
  have ne: "[demo_info] \<noteq> []" by simp
  have wr: "writable demo_env" by simp
  from supervisor_restarts_vanished [of demo_plat doc_jv text_jv "demo_world demo_file", unfolded P,
      OF jimpl.json_library_axioms demo_file_state wr m ne] v
  obtain f where "sup_round demo_plat (\<lambda>_ w. w) (demo_world demo_file) =
      cthen (service_start demo_plat \<lparr>so_id = cid demo_info, so_cmd = Some (strtok_all BLANK (command demo_info)), so_detach = True,
          so_volumes = Some (volume_list demo_info), so_ws = Some sup_ws, so_attr = None\<rparr> (start_callback demo_plat (stopped demo_info)))
        (print_out (''2 start '' @ cname demo_info @ NL)) ((demo_world demo_file)\<lparr>w_file := f\<rparr>)"
    by blast
  then show ?thesis by (auto simp: toks empty_info_def)
qed

end
