(* ===== verification/PropertiesConfig.thy ===== *)
theory PropertiesConfig
  imports CStrings
begin

text \<open>
  \<open>src/common/properties_config.cpp\<close>: a file of lines \<open>key = value\<close>. The file is its text; \<open>getline\<close> with a
  buffer of 1024 bytes ends the reading at a line that does not fit. A \<open>std::string\<close> made from \<open>NULL\<close> throws.
\<close>

definition LINE_SIZE :: nat where "LINE_SIZE = 1024"

definition newline :: char where "newline = CHR 0x0A"

text \<open>The lines \<open>getline\<close> delivers: up to the first that is too long; a last line needs no newline.\<close>

function read_lines :: "string \<Rightarrow> string list" where
  "read_lines tx =
     (if tx = [] then []
      else (let line = takeWhile (\<lambda>c. c \<noteq> newline) tx in
            if length line < LINE_SIZE then line # read_lines (tl (dropWhile (\<lambda>c. c \<noteq> newline) tx))
            else []))"
  by pat_completeness auto
termination
proof (relation "measure length", goal_cases)
  case (2 tx x)
  have "length (dropWhile (\<lambda>c. c \<noteq> newline) tx) \<le> length tx" by (rule length_dropWhile_le)
  moreover have "0 < length tx" using 2 by simp
  ultimately have "length (tl (dropWhile (\<lambda>c. c \<noteq> newline) tx)) < length tx" by (simp only: length_tl)
  then show ?case by simp
qed auto

declare read_lines.simps [simp del]

text \<open>One line: nothing for an empty one or a comment, else the pair to insert. \<open>trim\<close> works in place, so the
  tests see the trimmed line.\<close>

definition parse_line :: "string \<Rightarrow> (string \<times> string) option res" where
  "parse_line raw =
     (case trim (Some (c_str raw)) None of
        None \<Rightarrow> Inl NullDeref
      | Some line \<Rightarrow>
          if line = [] then Inr None
          else if hd line = CHR ''#'' then Inr None
          else
            (let (key, rest) = (case strtok_next ''='' line of None \<Rightarrow> (None, []) | Some (t, r) \<Rightarrow> (Some t, r));
                 val = (case strtok_next ''='' rest of None \<Rightarrow> None | Some (t, r) \<Rightarrow> Some t) in
             case trim key None of
               None \<Rightarrow> Inl StdThrow
             | Some k \<Rightarrow> (case trim val None of None \<Rightarrow> Inl StdThrow | Some v \<Rightarrow> Inr (Some (k, v)))))"

text \<open>\<open>std::map::insert\<close> keeps an entry that is there.\<close>

definition map_insert :: "string \<times> string \<Rightarrow> (string \<rightharpoonup> string) \<Rightarrow> (string \<rightharpoonup> string)" where
  "map_insert kv m = (if m (fst kv) = None then m(fst kv \<mapsto> snd kv) else m)"

fun load_lines :: "string list \<Rightarrow> (string \<rightharpoonup> string) \<Rightarrow> (string \<rightharpoonup> string) res" where
  "load_lines [] m = Inr m"
| "load_lines (l # ls) m =
     rbind (parse_line l) (\<lambda>kv. load_lines ls (case kv of None \<Rightarrow> m | Some p \<Rightarrow> map_insert p m))"

text \<open>The constructor; a file that cannot be opened gives no line.\<close>

definition PropertiesConfig :: "string option \<Rightarrow> (string \<rightharpoonup> string) res" where
  "PropertiesConfig file = load_lines (case file of None \<Rightarrow> [] | Some tx \<Rightarrow> read_lines tx) Map.empty"

definition prop_get :: "(string \<rightharpoonup> string) \<Rightarrow> string \<Rightarrow> string" where
  "prop_get m name = (case m name of Some v \<Rightarrow> v | None \<Rightarrow> [])"

text \<open>\<open>std::stoi\<close>: blanks, a sign, then digits as far as they go; throws without a digit or beyond \<open>int\<close>.\<close>

definition stoi :: "string \<Rightarrow> int res" where
  "stoi s =
     (let t = dropWhile (\<lambda>c. c \<in> set BLANK) s;
          (neg, u) = (case t of c # cs \<Rightarrow> if c = CHR ''-'' then (True, cs) else if c = CHR ''+'' then (False, cs) else (False, t)
                      | [] \<Rightarrow> (False, []));
          ds = takeWhile is_digit u; n = int (read_nat ds); i = (if neg then - n else n) in
      if ds = [] \<or> \<not> is_int32 i then Inl StdThrow else Inr i)"

definition prop_getInt :: "(string \<rightharpoonup> string) \<Rightarrow> string \<Rightarrow> int res" where
  "prop_getInt m name = (case m name of Some v \<Rightarrow> stoi v | None \<Rightarrow> Inr 0)"

section \<open>Properties\<close>

text \<open>A word of a configuration: no blank, no \<open>=\<close>, no NUL, no newline, and not the start of a comment.\<close>

definition plain_word :: "string \<Rightarrow> bool" where
  "plain_word s \<longleftrightarrow> s \<noteq> [] \<and> set s \<inter> (set BLANK \<union> {CHR ''='', NUL}) = {} \<and> hd s \<noteq> CHR ''#''"

definition print_line :: "string \<times> string \<Rightarrow> string" where
  "print_line kv = fst kv @ '' = '' @ snd kv"

definition print_props :: "(string \<times> string) list \<Rightarrow> string" where
  "print_props kvs = concat (map (\<lambda>kv. print_line kv @ [newline]) kvs)"

lemma strip_word:
  assumes "s \<noteq> []" "hd s \<notin> set BLANK" "last s \<notin> set BLANK" "is_cstr s"
  shows "trim (Some s) None = Some s"
proof -
  have "strip_right BLANK s = s"
    using assms(1,3) by (cases s rule: rev_cases) auto
  moreover have "strip_left BLANK s = s" using assms(1,2) by (cases s) auto
  ultimately show ?thesis using assms(4) by (simp add: trim_def rtrim_eq ltrim_eq seps_or_blank_def)
qed

lemma plain_wordD:
  assumes "plain_word s"
  shows "s \<noteq> []" "set s \<inter> set BLANK = {}" "CHR ''='' \<notin> set s" "NUL \<notin> set s" "hd s \<noteq> CHR ''#''"
  using assms by (auto simp: plain_word_def)

lemma plain_word_trim: "plain_word s \<Longrightarrow> trim (Some s) None = Some s"
  using hd_in_set [of s] last_in_set [of s] plain_wordD [of s]
  by (intro strip_word) (force simp: is_cstr_def)+

lemma trim_pad:
  assumes "plain_word s"
  shows "trim (Some (s @ '' '')) None = Some s" "trim (Some ('' '' @ s)) None = Some s"
proof -
  have w: "strip_right BLANK s = s" "strip_left BLANK s = s"
    using plain_wordD [OF assms] by (cases s rule: rev_cases, auto) (cases s, auto)
  have b: "CHR '' '' \<in> set BLANK" by (simp add: BLANK_def)
  have c: "is_cstr (s @ '' '')" "is_cstr ('' '' @ s)" using plain_wordD(4) [OF assms] by (auto simp: is_cstr_def)
  show "trim (Some (s @ '' '')) None = Some s"
    using b w c(1) by (simp add: trim_def rtrim_eq ltrim_eq seps_or_blank_def)
  have "strip_right BLANK ('' '' @ s) = '' '' @ s"
    using plain_wordD [OF assms] by (cases s rule: rev_cases) auto
  then show "trim (Some ('' '' @ s)) None = Some s"
    using b w(2) c(2) by (simp add: trim_def rtrim_eq ltrim_eq seps_or_blank_def)
qed

lemma parse_print_line:
  assumes "plain_word k" "plain_word v"
  shows "parse_line (print_line (k, v)) = Inr (Some (k, v))"
proof -
  note k = plain_wordD [OF assms(1)] and v = plain_wordD [OF assms(2)]
  let ?l = "print_line (k, v)"
  have cs: "is_cstr ?l" using k v by (auto simp: is_cstr_def print_line_def)
  have last: "last ?l \<notin> set BLANK" using v last_in_set [of v] by (force simp: print_line_def)
  have hd: "hd ?l \<notin> set BLANK" "hd ?l \<noteq> CHR ''#''" using k hd_in_set [of k] by (force simp: print_line_def)+
  have tr: "trim (Some ?l) None = Some ?l"
    using strip_word [OF _ hd(1) last cs] k by (simp add: print_line_def)
  have s1: "strtok_next ''='' ?l = Some (k @ '' '', '' '' @ v)"
    using strtok_next_word [of "k @ '' ''" "''=''" "''= '' @ v" "'' '' @ v"] k by (simp add: print_line_def)
  have s2: "strtok_next ''='' ('' '' @ v) = Some ('' '' @ v, [])"
    using strtok_next_word [of "'' '' @ v" "''=''" "[]" "[]"] v by simp
  have "c_str ?l = ?l" using cs by simp
  moreover have "?l \<noteq> []" using k by (simp add: print_line_def)
  ultimately show ?thesis
    using tr s1 s2 hd(2) trim_pad(1) [OF assms(1)] trim_pad(2) [OF assms(2)] by (simp add: parse_line_def)
qed

lemma read_lines_line:
  assumes "newline \<notin> set l" "length l < LINE_SIZE"
  shows "read_lines (l @ newline # rest) = l # read_lines rest"
proof -
  have "takeWhile (\<lambda>c. c \<noteq> newline) (l @ newline # rest) = l"
    "dropWhile (\<lambda>c. c \<noteq> newline) (l @ newline # rest) = newline # rest"
    using assms(1) by (induction l) auto
  with assms(2) show ?thesis by (subst read_lines.simps) simp
qed

lemma plain_no_newline: "plain_word s \<Longrightarrow> newline \<notin> set s"
  using plain_wordD(2) [of s] by (auto simp: BLANK_def newline_def)

text \<open>A pair that fits on a line.\<close>

definition fits :: "string \<times> string \<Rightarrow> bool" where
  "fits kv \<longleftrightarrow> plain_word (fst kv) \<and> plain_word (snd kv) \<and> length (print_line kv) < LINE_SIZE"

lemma read_print_props:
  "\<forall>kv \<in> set kvs. fits kv \<Longrightarrow> read_lines (print_props kvs @ rest) = map print_line kvs @ read_lines rest"
proof (induction kvs)
  case (Cons kv kvs)
  then have "newline \<notin> set (print_line kv)" "length (print_line kv) < LINE_SIZE"
    using plain_no_newline by (auto simp: fits_def print_line_def newline_def)
  with Cons show ?case
    using read_lines_line [of "print_line kv" "print_props kvs @ rest"] by (simp add: print_props_def)
qed (simp add: print_props_def)

lemma load_print_props:
  "\<forall>kv \<in> set kvs. fits kv \<Longrightarrow> load_lines (map print_line kvs @ ls) m = load_lines ls (map_of kvs ++ m)"
proof (induction kvs arbitrary: m)
  case (Cons kv kvs)
  obtain k v where kv: "kv = (k, v)" by (cases kv)
  have "map_of kvs ++ map_insert (k, v) m = map_of ((k, v) # kvs) ++ m"
    by (auto simp: map_insert_def map_add_def fun_eq_iff split: option.splits)
  moreover have "\<forall>x \<in> set kvs. fits x" "fits (k, v)" using Cons.prems by (simp_all add: kv)
  ultimately show ?case using parse_print_line [of k v] Cons.IH [of "map_insert (k, v) m"]
    by (simp add: kv fits_def del: map_of.simps)
qed simp

text \<open>C35 (roundtrip): a configuration written as lines \<open>key = value\<close> of plain words is read back as exactly those
  settings; where a key is given twice the first line counts, and a name that is not there reads as the empty
  string.\<close>

theorem properties_roundtrip:
  assumes "\<forall>kv \<in> set kvs. fits kv"
  shows "\<exists>m. PropertiesConfig (Some (print_props kvs)) = Inr m
    \<and> (\<forall>name. prop_get m name = (case map_of kvs name of Some v \<Rightarrow> v | None \<Rightarrow> []))"
  using read_print_props [OF assms, of "[]"] load_print_props [OF assms, of "[]" Map.empty]
  by (simp add: PropertiesConfig_def prop_get_def read_lines.simps [of "[]"])

theorem properties_roundtrip_witness:
  "\<exists>m. PropertiesConfig (Some (''log_level = 2'' @ [newline] @ ''log_level = 3'' @ [newline])) = Inr m
    \<and> prop_get m ''log_level'' = ''2'' \<and> prop_get m ''console'' = []"
proof -
  have h: "\<forall>kv \<in> set [(''log_level'', ''2''), (''log_level'', ''3'')]. fits kv"
    by (simp add: fits_def plain_word_def print_line_def BLANK_def LINE_SIZE_def)
  have e: "print_props [(''log_level'', ''2''), (''log_level'', ''3'')]
      = ''log_level = 2'' @ [newline] @ ''log_level = 3'' @ [newline]"
    by (simp add: print_props_def print_line_def)
  obtain m where m: "PropertiesConfig (Some (print_props [(''log_level'', ''2''), (''log_level'', ''3'')])) = Inr m"
    and g: "\<And>name. prop_get m name
      = (case map_of [(''log_level'', ''2''), (''log_level'', ''3'')] name of Some v \<Rightarrow> v | None \<Rightarrow> [])"
    using properties_roundtrip [OF h] by blast
  have "prop_get m ''log_level'' = ''2''" "prop_get m ''console'' = []" by (simp_all add: g)
  with m show ?thesis unfolding e by blast
qed

text \<open>A line that is a word without \<open>=\<close> makes the constructor throw (a \<open>std::string\<close> is built from the
  \<open>NULL\<close> of \<open>strtok\<close>), whatever good lines stand before it and whatever follows.\<close>

theorem properties_word_throws:
  assumes "\<forall>kv \<in> set kvs. fits kv" and "plain_word w" and "length w < LINE_SIZE"
  shows "PropertiesConfig (Some (print_props kvs @ w @ newline # rest)) = Inl StdThrow"
proof -
  note w = plain_wordD [OF assms(2)]
  have "strtok_next ''='' w = Some (w, [])"
    using strtok_next_word [of w "''=''" "[]" "[]"] w by simp
  moreover have "strtok_next ''='' [] = None" by (simp add: strtok_next_def)
  moreover have "c_str w = w" using w by (simp add: is_cstr_def)
  ultimately have p: "parse_line w = Inl StdThrow"
    using w plain_word_trim [OF assms(2)] by (simp add: parse_line_def trim_def)
  have "read_lines (print_props kvs @ w @ newline # rest) = map print_line kvs @ w # read_lines rest"
    using read_print_props [OF assms(1)] read_lines_line [OF plain_no_newline [OF assms(2)] assms(3)] by simp
  then show ?thesis by (simp add: PropertiesConfig_def load_print_props [OF assms(1)] p)
qed

theorem properties_word_throws_witness:
  "PropertiesConfig (Some (''console'' @ newline # ''log_level = 2'')) = Inl StdThrow"
proof -
  have "plain_word ''console''" "length ''console'' < LINE_SIZE"
    by (simp_all add: plain_word_def BLANK_def LINE_SIZE_def)
  from properties_word_throws [of "[]", OF _ this] show ?thesis by (simp add: print_props_def)
qed

end
