(* ===== verification/Logging.thy ===== *)
theory Logging
  imports PropertiesConfig PathAssembler
begin

text \<open>
  \<open>src/common/logger.cpp\<close>, \<open>src/common/logger.h\<close>, the messages of \<open>src/common/log.h\<close> and the loggers of
  \<open>src/util/logger_factory.h\<close>. A caller's format string and arguments are the formatted message; the local time
  is a \<open>tm\<close> and a number of microseconds. A call works on the sinks: the log files, \<open>stdout\<close> and \<open>stderr\<close>.
\<close>

section \<open>The line buffer\<close>

definition MAXBUF :: nat where "MAXBUF = 8192"

text \<open>\<open>snprintf(buf + strlen(buf), MAXBUF - strlen(buf) - 1, ...)\<close>: a size of 0 writes nothing, another one writes
  one character less than it, and the NUL.\<close>

definition buf_print :: "string \<Rightarrow> string \<Rightarrow> string" where
  "buf_print buf s = (let size = MAXBUF - length buf - 1 in if size = 0 then buf else buf @ take (size - 1) s)"

text \<open>\<open>strcat\<close>, which needs room for the NUL too.\<close>

definition buf_cat :: "string \<Rightarrow> string \<Rightarrow> string res" where
  "buf_cat buf s = (if length buf + length s + 1 \<le> MAXBUF then Inr (buf @ s) else Inl OutOfBounds)"

record tm =
  tm_sec :: nat
  tm_min :: nat
  tm_hour :: nat
  tm_mday :: nat
  tm_mon :: nat        \<comment> \<open>from 0\<close>
  tm_year :: nat       \<comment> \<open>since 1900\<close>

record clock =
  ck_tm :: tm
  ck_usec :: nat

definition pad2 :: "nat \<Rightarrow> string" where
  "pad2 n = (if n < 10 then ''0'' @ show_nat n else show_nat n)"

text \<open>\<open>strftime\<close> with \<open>"%Y-%d-%m %H:%M:%S"\<close>, into \<open>MAXBUF - 1\<close> bytes.\<close>

definition stamp :: "tm \<Rightarrow> string" where
  "stamp t = show_nat (tm_year t + 1900) @ ''-'' @ pad2 (tm_mday t) @ ''-'' @ pad2 (tm_mon t + 1) @ '' ''
     @ pad2 (tm_hour t) @ '':'' @ pad2 (tm_min t) @ '':'' @ pad2 (tm_sec t)"

section \<open>\<open>Logger\<close>\<close>

definition LOGGER_LEVEL_STR :: "string list" where
  "LOGGER_LEVEL_STR = [''ALL'', ''DEBUG'', ''INFO'', ''WARN'', ''ERROR'', ''FATAL'', ''OFF'']"

definition LEVEL_ALL :: int where "LEVEL_ALL = 0"
definition DEBUG :: int where "DEBUG = 1"
definition INFO :: int where "INFO = 2"
definition WARN :: int where "WARN = 3"
definition ERROR :: int where "ERROR = 4"
definition FATAL :: int where "FATAL = 5"
definition OFF :: int where "OFF = 6"

lemmas level_defs = LEVEL_ALL_def DEBUG_def INFO_def WARN_def ERROR_def FATAL_def OFF_def

definition strlevel :: "int \<Rightarrow> string res" where
  "strlevel level =
     (if 0 \<le> level \<and> nat level < length LOGGER_LEVEL_STR then Inr (LOGGER_LEVEL_STR ! nat level) else Inl OutOfBounds)"

record LoggerConfig =
  lc_logFile :: string
  lc_level :: int
  lc_console :: bool

record Logger =
  lg_config :: LoggerConfig
  lg_file :: "string option"     \<comment> \<open>the open \<open>FILE\<close>, by its path\<close>

record sinks =
  sk_files :: "string \<Rightarrow> string"
  sk_out :: string
  sk_err :: string

type_synonym lcmd = "sinks \<Rightarrow> unit res \<times> sinks"

text \<open>\<open>init\<close>; \<open>fopen\<close> gives the error number with which opening a path fails.\<close>

definition Logger_init :: "(string \<Rightarrow> int option) \<Rightarrow> LoggerConfig \<Rightarrow> Logger res" where
  "Logger_init fopen config =
     (if lc_logFile config \<noteq> []
      then (case fopen (lc_logFile config) of
              Some e \<Rightarrow> Inl (Exit e)
            | None \<Rightarrow> Inr \<lparr>lg_config = config, lg_file = Some (lc_logFile config)\<rparr>)
      else Inr \<lparr>lg_config = config, lg_file = None\<rparr>)"

text \<open>The constructors, from a configuration file, from a configuration and from a level.\<close>

definition Logger_cf :: "(string \<Rightarrow> int option) \<Rightarrow> string option \<Rightarrow> Logger res" where
  "Logger_cf fopen file =
     rbind (PropertiesConfig file) (\<lambda>properties.
     rbind (prop_getInt properties ''log_level'') (\<lambda>l.
     rbind (prop_getInt properties ''console'') (\<lambda>c.
     Logger_init fopen \<lparr>lc_logFile = prop_get properties ''log_file'', lc_level = l, lc_console = (c \<noteq> 0)\<rparr>)))"

definition Logger_conf :: "(string \<Rightarrow> int option) \<Rightarrow> LoggerConfig \<Rightarrow> Logger res" where
  "Logger_conf fopen conf = Logger_init fopen conf"

definition Logger_level :: "(string \<Rightarrow> int option) \<Rightarrow> int \<Rightarrow> Logger res" where
  "Logger_level fopen l = Logger_init fopen \<lparr>lc_logFile = [], lc_level = l, lc_console = True\<rparr>"

text \<open>The destructor; \<open>fclose\<close> gives the error number with which closing fails.\<close>

definition Logger_destroy :: "int option \<Rightarrow> Logger \<Rightarrow> unit res" where
  "Logger_destroy fclose lg = (case (lg_file lg, fclose) of (Some f, Some e) \<Rightarrow> Inl (Exit e) | _ \<Rightarrow> Inr ())"

definition log_line :: "(int \<Rightarrow> string) \<Rightarrow> clock \<Rightarrow> string \<Rightarrow> int \<Rightarrow> int \<Rightarrow> string res" where
  "log_line strerror ck msg level err =
     rbind (strlevel level) (\<lambda>lv.
       (let buf = stamp (ck_tm ck);
            buf = buf_print buf ('','' @ show_nat (ck_usec ck) @ '' ['' @ lv @ ''] '');
            buf = buf_print buf msg;
            buf = (if err \<noteq> 0 then buf_print buf ('': '' @ strerror err) else buf) in
        buf_cat buf [CHR 0x0D, CHR 0x0A]))"

definition log_emit :: "Logger \<Rightarrow> string \<Rightarrow> sinks \<Rightarrow> sinks" where
  "log_emit lg line s =
     (let s = (case lg_file lg of None \<Rightarrow> s | Some f \<Rightarrow> s\<lparr>sk_files := (sk_files s)(f := sk_files s f @ line)\<rparr>) in
      if lc_console (lg_config lg) then s\<lparr>sk_out := sk_out s @ line\<rparr> else s)"

definition dolog :: "(int \<Rightarrow> string) \<Rightarrow> clock \<Rightarrow> Logger \<Rightarrow> string \<Rightarrow> int \<Rightarrow> int \<Rightarrow> lcmd" where
  "dolog strerror ck lg msg level err s =
     (case log_line strerror ck msg level err of Inl e \<Rightarrow> (Inl e, s) | Inr line \<Rightarrow> (Inr (), log_emit lg line s))"

definition Logger_log :: "(int \<Rightarrow> string) \<Rightarrow> clock \<Rightarrow> Logger \<Rightarrow> int \<Rightarrow> string \<Rightarrow> lcmd" where
  "Logger_log strerror ck lg level msg s =
     (if level < lc_level (lg_config lg) then (Inr (), s) else dolog strerror ck lg msg level 0 s)"

text \<open>\<open>debug\<close>, \<open>info\<close>, \<open>warn\<close> and \<open>error\<close>; where the source has two versions, \<open>err\<close> is 0 in the one without it.\<close>

definition Logger_debug :: "(int \<Rightarrow> string) \<Rightarrow> clock \<Rightarrow> Logger \<Rightarrow> int \<Rightarrow> string \<Rightarrow> lcmd" where
  "Logger_debug strerror ck lg err msg s =
     (if DEBUG < lc_level (lg_config lg) then (Inr (), s) else dolog strerror ck lg msg DEBUG err s)"

definition Logger_info :: "(int \<Rightarrow> string) \<Rightarrow> clock \<Rightarrow> Logger \<Rightarrow> string \<Rightarrow> lcmd" where
  "Logger_info strerror ck lg msg s =
     (if INFO < lc_level (lg_config lg) then (Inr (), s) else dolog strerror ck lg msg INFO 0 s)"

definition Logger_warn :: "(int \<Rightarrow> string) \<Rightarrow> clock \<Rightarrow> Logger \<Rightarrow> string \<Rightarrow> lcmd" where
  "Logger_warn strerror ck lg msg s =
     (if WARN < lc_level (lg_config lg) then (Inr (), s) else dolog strerror ck lg msg WARN 0 s)"

definition Logger_error :: "(int \<Rightarrow> string) \<Rightarrow> clock \<Rightarrow> Logger \<Rightarrow> int \<Rightarrow> string \<Rightarrow> lcmd" where
  "Logger_error strerror ck lg err msg s =
     (if ERROR < lc_level (lg_config lg) then (Inr (), s) else dolog strerror ck lg msg ERROR err s)"

definition Logger_fatal :: "(int \<Rightarrow> string) \<Rightarrow> clock \<Rightarrow> Logger \<Rightarrow> int \<Rightarrow> string \<Rightarrow> lcmd" where
  "Logger_fatal strerror ck lg err msg s =
     (if FATAL < lc_level (lg_config lg) then (Inr (), s)
      else (case dolog strerror ck lg msg FATAL err s of (Inl e, s') \<Rightarrow> (Inl e, s') | (Inr _, s') \<Rightarrow> (Inl Aborts, s')))"

section \<open>\<open>log.h\<close>\<close>

definition log_h_dolog :: "clock \<Rightarrow> string \<Rightarrow> string \<Rightarrow> nat \<Rightarrow> string \<Rightarrow> lcmd" where
  "log_h_dolog ck level file line msg s =
     (let buf = stamp (ck_tm ck);
          buf = buf_print buf ('','' @ show_nat (ck_usec ck) @ '' ['' @ level @ '']('' @ file @ '':'' @ show_nat line @ '') '');
          buf = buf_print buf msg in
      case buf_cat buf [CHR 0x0A] of Inl e \<Rightarrow> (Inl e, s) | Inr l \<Rightarrow> (Inr (), s\<lparr>sk_out := sk_out s @ l\<rparr>))"

definition err_msg :: "(int \<Rightarrow> string) \<Rightarrow> clock \<Rightarrow> string \<Rightarrow> nat \<Rightarrow> int \<Rightarrow> string \<Rightarrow> lcmd" where
  "err_msg strerror ck file line errnum msg s =
     (case log_h_dolog ck ''ERROR'' file line msg s of
        (Inl e, s') \<Rightarrow> (Inl e, s')
      | (Inr _, s') \<Rightarrow>
          (Inr (), if errnum \<noteq> 0 then s'\<lparr>sk_err := sk_err s' @ strerror errnum @ [CHR 0x0A]\<rparr> else s'))"

definition err_exit :: "(int \<Rightarrow> string) \<Rightarrow> clock \<Rightarrow> string \<Rightarrow> nat \<Rightarrow> int \<Rightarrow> string \<Rightarrow> lcmd" where
  "err_exit strerror ck file line errnum msg s =
     (case err_msg strerror ck file line errnum msg s of (Inl e, s') \<Rightarrow> (Inl e, s') | (Inr _, s') \<Rightarrow> (Inl (Exit errnum), s'))"

section \<open>\<open>LoggerFactory\<close>\<close>

definition getLogger :: "(string \<Rightarrow> int option) \<Rightarrow> Logger res" where
  "getLogger fopen = Logger_level fopen WARN"

definition getContainerLogger :: "(string \<Rightarrow> int option) \<Rightarrow> string \<Rightarrow> Logger res" where
  "getContainerLogger fopen cid =
     rbind (sprintf 1024 (hoststack_repo @ ''/container/'' @ cid @ ''/container.log'')) (\<lambda>f.
     Logger_conf fopen \<lparr>lc_logFile = f, lc_level = DEBUG, lc_console = True\<rparr>)"

definition getRunLogger :: "(string \<Rightarrow> int option) \<Rightarrow> Logger res" where
  "getRunLogger fopen =
     rbind (sprintf 1024 (hoststack_repo @ ''/run.log'')) (\<lambda>f.
     Logger_conf fopen \<lparr>lc_logFile = f, lc_level = DEBUG, lc_console = True\<rparr>)"

definition getKuckerDaemonLogger :: "(string \<Rightarrow> int option) \<Rightarrow> Logger res" where
  "getKuckerDaemonLogger fopen =
     rbind (sprintf 1024 (hoststack_repo @ ''/hoststack_daemon.log'')) (\<lambda>f.
     Logger_conf fopen \<lparr>lc_logFile = f, lc_level = DEBUG, lc_console = True\<rparr>)"

section \<open>Properties\<close>

text \<open>What \<open>localtime\<close> gives.\<close>

definition tm_ok :: "tm \<Rightarrow> bool" where
  "tm_ok t \<longleftrightarrow> tm_year t + 1900 < 10000 \<and> tm_mon t < 12 \<and> tm_mday t \<le> 31 \<and> tm_hour t < 24 \<and> tm_min t < 60 \<and> tm_sec t \<le> 60"

lemma show_nat_length: "n < 10 ^ Suc k \<Longrightarrow> length (show_nat n) \<le> Suc k"
proof (induction k arbitrary: n)
  case (Suc k)
  show ?case
  proof (cases "n < 10")
    case False
    have "n div 10 < 10 ^ Suc k" using Suc.prems by (simp add: less_mult_imp_div_less)
    with Suc.IH False show ?thesis by (subst show_nat.simps) simp
  qed (subst show_nat.simps, simp)
qed (subst show_nat.simps, simp)

lemma pad2_length: "n < 100 \<Longrightarrow> length (pad2 n) \<le> 2"
  using show_nat_length [of n 1] show_nat_length [of n 0] by (auto simp: pad2_def)

lemma stamp_length:
  assumes "tm_ok t"
  shows "length (stamp t) \<le> 19"
proof -
  have "length (show_nat (tm_year t + 1900)) \<le> 4"
    using assms show_nat_length [of "tm_year t + 1900" 3] by (simp add: tm_ok_def)
  moreover have "length (pad2 (tm_mday t)) \<le> 2" "length (pad2 (tm_mon t + 1)) \<le> 2" "length (pad2 (tm_hour t)) \<le> 2"
    "length (pad2 (tm_min t)) \<le> 2" "length (pad2 (tm_sec t)) \<le> 2"
    using assms by (auto simp: tm_ok_def intro!: pad2_length)
  ultimately show ?thesis by (simp add: stamp_def)
qed

text \<open>What a buffer holds after several prints: the whole text, cut off at \<open>MAXBUF - 2\<close>.\<close>

lemma buf_print_full: "buf_print (take (MAXBUF - 2) a) b = take (MAXBUF - 2) (a @ b)"
  by (auto simp: buf_print_def MAXBUF_def Let_def min_def)

lemma buf_print_first: "length a \<le> 19 \<Longrightarrow> buf_print a b = take (MAXBUF - 2) (a @ b)"
  using buf_print_full [of a b] by (simp add: MAXBUF_def)

definition log_text :: "(int \<Rightarrow> string) \<Rightarrow> clock \<Rightarrow> string \<Rightarrow> int \<Rightarrow> int \<Rightarrow> string" where
  "log_text strerror ck msg level err =
     stamp (ck_tm ck) @ '','' @ show_nat (ck_usec ck) @ '' ['' @ LOGGER_LEVEL_STR ! nat level @ ''] '' @ msg
       @ (if err \<noteq> 0 then '': '' @ strerror err else [])"

lemma log_line_cases:
  assumes "tm_ok (ck_tm ck)" "0 \<le> level" "level \<le> OFF"
  shows "log_line strerror ck msg level err =
    (if length (log_text strerror ck msg level err) + 3 \<le> MAXBUF
     then Inr (log_text strerror ck msg level err @ [CHR 0x0D, CHR 0x0A]) else Inl OutOfBounds)"
proof -
  let ?t = "log_text strerror ck msg level err"
  have "strlevel level = Inr (LOGGER_LEVEL_STR ! nat level)"
    using assms(2,3) by (simp add: strlevel_def LOGGER_LEVEL_STR_def OFF_def)
  then have "log_line strerror ck msg level err = buf_cat (take (MAXBUF - 2) ?t) [CHR 0x0D, CHR 0x0A]"
    by (simp add: log_line_def log_text_def buf_print_first [OF stamp_length [OF assms(1)]] buf_print_full Let_def del: take_append)
  moreover have "buf_cat (take (MAXBUF - 2) ?t) [CHR 0x0D, CHR 0x0A]
      = (if length ?t + 3 \<le> MAXBUF then Inr (?t @ [CHR 0x0D, CHR 0x0A]) else Inl OutOfBounds)"
    by (auto simp: buf_cat_def MAXBUF_def)
  ultimately show ?thesis by simp
qed

text \<open>The text of a message of \<open>log.h\<close>, before it is cut.\<close>

definition log_h_text :: "clock \<Rightarrow> string \<Rightarrow> string \<Rightarrow> nat \<Rightarrow> string \<Rightarrow> string" where
  "log_h_text ck level file line msg =
     stamp (ck_tm ck) @ '','' @ show_nat (ck_usec ck) @ '' ['' @ level @ '']('' @ file @ '':'' @ show_nat line @ '') '' @ msg"

lemma log_h_dolog_line:
  assumes "tm_ok (ck_tm ck)"
  shows "log_h_dolog ck lv file n msg s =
    (Inr (), s\<lparr>sk_out := sk_out s @ take (MAXBUF - 2) (log_h_text ck lv file n msg) @ [CHR 0x0A]\<rparr>)"
proof -
  let ?t = "log_h_text ck lv file n msg"
  have "buf_cat (take (MAXBUF - 2) ?t) [CHR 0x0A] = Inr (take (MAXBUF - 2) ?t @ [CHR 0x0A])"
    by (simp add: buf_cat_def MAXBUF_def del: take_append append.simps)
  then show ?thesis
    by (simp add: log_h_dolog_def log_h_text_def buf_print_first [OF stamp_length [OF assms]] buf_print_full Let_def
        del: take_append)
qed

text \<open>C34 (bounds): a line of \<open>Logger\<close> is written in full, with CR and LF, exactly when its text leaves three bytes of
  the buffer; a longer text is not cut off, \<open>strcat\<close> writes one byte past the end of the buffer. A message of
  \<open>log.h\<close> is its text, cut off after \<open>MAXBUF - 2\<close> bytes, and LF alone: it always fits the buffer.\<close>

theorem log_line_bounds:
  assumes "tm_ok (ck_tm ck)" "0 \<le> level" "level \<le> OFF"
  shows "dolog strerror ck lg msg level err s =
      (let t = log_text strerror ck msg level err in
       if length t + 3 \<le> MAXBUF then (Inr (), log_emit lg (t @ [CHR 0x0D, CHR 0x0A]) s) else (Inl OutOfBounds, s))
    \<and> (let l = take (MAXBUF - 2) (log_h_text ck lv file n msg) @ [CHR 0x0A] in
       log_h_dolog ck lv file n msg s = (Inr (), s\<lparr>sk_out := sk_out s @ l\<rparr>) \<and> length l < MAXBUF)"
proof (rule conjI)
  show "dolog strerror ck lg msg level err s =
      (let t = log_text strerror ck msg level err in
       if length t + 3 \<le> MAXBUF then (Inr (), log_emit lg (t @ [CHR 0x0D, CHR 0x0A]) s) else (Inl OutOfBounds, s))"
    by (simp add: dolog_def log_line_cases [OF assms] Let_def)
  show "let l = take (MAXBUF - 2) (log_h_text ck lv file n msg) @ [CHR 0x0A] in
      log_h_dolog ck lv file n msg s = (Inr (), s\<lparr>sk_out := sk_out s @ l\<rparr>) \<and> length l < MAXBUF"
    by (simp add: log_h_dolog_line [OF assms(1)] Let_def MAXBUF_def del: take_append)
qed

definition demo_clock :: clock where
  "demo_clock = \<lparr>ck_tm = \<lparr>tm_sec = 7, tm_min = 30, tm_hour = 9, tm_mday = 2, tm_mon = 4, tm_year = 120\<rparr>, ck_usec = 41\<rparr>"

lemma demo_tm_ok: "tm_ok (ck_tm demo_clock)"
  by (simp add: demo_clock_def tm_ok_def)

lemma demo_stamp: "stamp (ck_tm demo_clock) = ''2020-02-05 09:30:07''"
  by code_simp

lemma demo_text:
  "log_text strerror demo_clock msg level 0 = ''2020-02-05 09:30:07,41 ['' @ LOGGER_LEVEL_STR ! nat level @ ''] '' @ msg"
proof -
  have "show_nat (ck_usec demo_clock) = ''41''" by code_simp
  then show ?thesis unfolding log_text_def demo_stamp by simp
qed

lemma demo_level: "LOGGER_LEVEL_STR ! nat ERROR = ''ERROR''" "LOGGER_LEVEL_STR ! nat FATAL = ''FATAL''"
  by (simp_all add: LOGGER_LEVEL_STR_def level_defs)

theorem log_line_bounds_witness:
  "\<forall>lg s. dolog (\<lambda>_. []) demo_clock lg (replicate 8160 CHR ''x'') ERROR 0 s = (Inl OutOfBounds, s)
    \<and> fst (dolog (\<lambda>_. []) demo_clock lg ''mount'' ERROR 0 s) = Inr ()"
proof (intro allI)
  fix lg s
  have l: "0 \<le> ERROR" "ERROR \<le> OFF" by (simp_all add: level_defs)
  note b = log_line_bounds [OF demo_tm_ok l, of "\<lambda>_. []" lg _ 0 s, THEN conjunct1, unfolded Let_def demo_text demo_level]
  have "length (''2020-02-05 09:30:07,41 ['' @ ''ERROR'' @ ''] '' @ replicate 8160 CHR ''x'') = 8191" by simp
  then have "dolog (\<lambda>_. []) demo_clock lg (replicate 8160 CHR ''x'') ERROR 0 s = (Inl OutOfBounds, s)"
    unfolding b by (simp add: MAXBUF_def del: replicate.simps append.simps)
  moreover have "fst (dolog (\<lambda>_. []) demo_clock lg ''mount'' ERROR 0 s) = Inr ()"
    unfolding b by (simp add: MAXBUF_def)
  ultimately show "dolog (\<lambda>_. []) demo_clock lg (replicate 8160 CHR ''x'') ERROR 0 s = (Inl OutOfBounds, s)
    \<and> fst (dolog (\<lambda>_. []) demo_clock lg ''mount'' ERROR 0 s) = Inr ()" by blast
qed

lemma stoi_show_nat:
  assumes "is_int32 (int n)"
  shows "stoi (show_nat n) = Inr (int n)"
proof -
  have d: "\<forall>c \<in> set (show_nat n). is_digit c" using show_nat_digits by blast
  obtain c cs where s: "show_nat n = c # cs" by (cases "show_nat n") auto
  have "is_digit c" using d s by simp
  then have "c \<notin> set BLANK" "c \<noteq> CHR ''-''" "c \<noteq> CHR ''+''" by (auto simp: is_digit_def BLANK_def)
  moreover have "takeWhile is_digit (c # cs) = c # cs" using d s by (simp add: takeWhile_eq_all_conv)
  moreover have "read_nat (c # cs) = n" using read_show_nat [of n] s by simp
  ultimately show ?thesis using assms by (simp add: stoi_def s Let_def)
qed

lemma show_nat_plain: "plain_word (show_nat n)"
proof -
  have d: "\<forall>c \<in> set (show_nat n). is_digit c" using show_nat_digits by blast
  moreover have "\<forall>c \<in> set BLANK \<union> {CHR ''='', NUL, CHR ''#''}. \<not> is_digit c" by (simp add: BLANK_def is_digit_def)
  ultimately have "set (show_nat n) \<inter> (set BLANK \<union> {CHR ''='', NUL}) = {}" "hd (show_nat n) \<noteq> CHR ''#''"
    using hd_in_set [of "show_nat n"] by (blast, force)
  then show ?thesis by (simp add: plain_word_def)
qed

text \<open>C33 (functional): a logger made from a configuration file with a level and a file name writes an error to the
  end of that file, exactly when the level does not exceed \<open>ERROR\<close>, and to nothing else; and \<open>fatal\<close> ends the
  process except when the level is \<open>OFF\<close>, where it returns to its caller.\<close>

theorem configured_logger:
  assumes n: "n \<le> 6" and f: "fits (''log_file'', f)" and op: "fopen f = None"
    and tm: "tm_ok (ck_tm ck)"
    and e: "length (log_text strerror ck msg ERROR err) + 3 \<le> MAXBUF"
    and g: "length (log_text strerror ck msg FATAL err) + 3 \<le> MAXBUF"
  shows "\<exists>lg. Logger_cf fopen (Some (print_props [(''log_level'', show_nat n), (''log_file'', f)])) = Inr lg
    \<and> Logger_error strerror ck lg err msg s = (Inr (),
        if n \<le> 4 then s\<lparr>sk_files := (sk_files s)(f := sk_files s f @ log_text strerror ck msg ERROR err @ [CHR 0x0D, CHR 0x0A])\<rparr>
        else s)
    \<and> (fst (Logger_fatal strerror ck lg err msg s) = Inr () \<longleftrightarrow> n = 6)"
proof -
  let ?kvs = "[(''log_level'', show_nat n), (''log_file'', f)]"
  have "length (show_nat n) \<le> 1" using show_nat_length [of n 0] n by simp
  then have fs: "\<forall>kv \<in> set ?kvs. fits kv"
    using f show_nat_plain [of n] by (simp add: fits_def plain_word_def print_line_def BLANK_def LINE_SIZE_def)
  have i: "is_int32 (int n)" using n by (simp add: is_int32_def)
  have ne: "f \<noteq> []" using f by (simp add: fits_def plain_word_def)
  have "PropertiesConfig (Some (print_props ?kvs)) = Inr (map_of ?kvs)"
    using read_print_props [OF fs, of "[]"] load_print_props [OF fs, of "[]" Map.empty]
    by (simp add: PropertiesConfig_def read_lines.simps [of "[]"])
  then have lg: "Logger_cf fopen (Some (print_props ?kvs))
      = Inr \<lparr>lg_config = \<lparr>lc_logFile = f, lc_level = int n, lc_console = False\<rparr>, lg_file = Some f\<rparr>"
    using op ne by (simp add: Logger_cf_def prop_getInt_def prop_get_def stoi_show_nat [OF i] Logger_init_def)
  have "log_line strerror ck msg ERROR err = Inr (log_text strerror ck msg ERROR err @ [CHR 0x0D, CHR 0x0A])"
    "log_line strerror ck msg FATAL err = Inr (log_text strerror ck msg FATAL err @ [CHR 0x0D, CHR 0x0A])"
    using e g log_line_cases [OF tm] by (simp_all add: level_defs)
  with n lg show ?thesis
    by (simp add: Logger_error_def Logger_fatal_def dolog_def log_emit_def level_defs)
qed

theorem configured_logger_witness:
  "\<exists>lg. Logger_cf (\<lambda>_. None) (Some (print_props [(''log_level'', ''6''), (''log_file'', ''/var/log/h'')])) = Inr lg
    \<and> fst (Logger_fatal (\<lambda>_. []) demo_clock lg 0 ''no memory'' \<lparr>sk_files = \<lambda>_. [], sk_out = [], sk_err = []\<rparr>) = Inr ()"
proof -
  have t: "length (log_text (\<lambda>_. []) demo_clock ''no memory'' ERROR 0) + 3 \<le> MAXBUF"
    "length (log_text (\<lambda>_. []) demo_clock ''no memory'' FATAL 0) + 3 \<le> MAXBUF"
    by (simp_all add: demo_text demo_level MAXBUF_def)
  have f: "fits (''log_file'', ''/var/log/h'')"
    by (simp add: fits_def plain_word_def print_line_def BLANK_def LINE_SIZE_def)
  have six: "show_nat 6 = ''6''" by code_simp
  have n: "(6::nat) \<le> 6" by simp
  have "(\<lambda>_. None) ''/var/log/h'' = (None :: int option)" by simp
  from configured_logger [OF n f this demo_tm_ok t, of "\<lparr>sk_files = \<lambda>_. [], sk_out = [], sk_err = []\<rparr>"]
  show ?thesis unfolding six by blast
qed

end
