(* ===== verification/Signals.thy ===== *)
theory Signals
  imports Logging
begin

text \<open>
  Signal dispositions: the wrapper \<open>Signal\<close> of \<open>sigaction\<close> in \<open>src/common/usg_common.cpp\<close> and the handlers of
  \<open>src/util/container_service.cpp\<close> that only log. The calls of \<open>Signal\<close> in the program are commented out.
\<close>

datatype sig_handler = SIG_DFL | SIG_IGN | SIG_ERR | Handler string

record sig_action =
  sa_handler :: sig_handler
  sa_mask :: "int set"
  sa_restart :: bool      \<comment> \<open>\<open>SA_RESTART\<close>, the only flag used\<close>

text \<open>\<open>fails\<close> gives the error number with which \<open>sigaction\<close> refuses a signal.\<close>

definition Signal ::
  "(int \<Rightarrow> int option) \<Rightarrow> (int \<Rightarrow> string) \<Rightarrow> clock \<Rightarrow> int \<Rightarrow> sig_handler \<Rightarrow>
   (int \<Rightarrow> sig_action) \<Rightarrow> sinks \<Rightarrow> sig_handler res \<times> (int \<Rightarrow> sig_action) \<times> sinks" where
  "Signal fails strerror ck signum handler acts s =
     (case fails signum of
        Some e \<Rightarrow>
          (case err_msg strerror ck ''usg_common.cpp'' 25 e ''UsgCommon Signal:'' s of
             (Inl oc, s') \<Rightarrow> (Inl oc, acts, s')
           | (Inr _, s') \<Rightarrow> (Inr SIG_ERR, acts, s'))
      | None \<Rightarrow>
          (Inr (sa_handler (acts signum)),
           acts(signum := \<lparr>sa_handler = handler, sa_mask = {}, sa_restart = True\<rparr>), s))"

definition sigTermHandler :: "(int \<Rightarrow> string) \<Rightarrow> (int \<Rightarrow> string) \<Rightarrow> clock \<Rightarrow> Logger \<Rightarrow> int \<Rightarrow> lcmd" where
  "sigTermHandler strsignal strerror ck run_logger sig =
     Logger_debug strerror ck run_logger 0 (''sigTermHandler '' @ strsignal sig)"

definition sigHupHandler :: "(int \<Rightarrow> string) \<Rightarrow> (int \<Rightarrow> string) \<Rightarrow> clock \<Rightarrow> Logger \<Rightarrow> int \<Rightarrow> lcmd" where
  "sigHupHandler strsignal strerror ck run_logger sig =
     Logger_debug strerror ck run_logger 0 (''sigHupHandler '' @ strsignal sig)"

definition sigQuitHandler :: "(int \<Rightarrow> string) \<Rightarrow> (int \<Rightarrow> string) \<Rightarrow> clock \<Rightarrow> Logger \<Rightarrow> int \<Rightarrow> lcmd" where
  "sigQuitHandler strsignal strerror ck run_logger sig =
     Logger_debug strerror ck run_logger 0 (''sigQuitHandler '' @ strsignal sig)"

text \<open>The handler returned, installed again, is the one that was there; a refused signal keeps its action.\<close>

lemma Signal_back:
  assumes "Signal fails strerror ck n h acts s = (Inr old, acts', s')" "old \<noteq> SIG_ERR"
  shows "\<exists>acts''. Signal fails strerror ck n old acts' s' = (Inr h, acts'', s') \<and>
    sa_handler (acts'' n) = sa_handler (acts n) \<and> (\<forall>m. m \<noteq> n \<longrightarrow> acts'' m = acts m)"
  using assms by (auto simp: Signal_def split: option.splits prod.splits sum.splits)

lemma Signal_refused:
  "fails n \<noteq> None \<Longrightarrow> Signal fails strerror ck n h acts s = (r, acts', s') \<Longrightarrow> acts' = acts \<and> r \<in> {Inr SIG_ERR} \<union> range Inl"
  by (auto simp: Signal_def split: option.splits prod.splits sum.splits)

end
