(* ===== verification/Spec2Isabelle.thy ===== *)
theory Spec2Isabelle
  imports CStrings ContainerStore TableRace RioIo Sockets DirTree ContainerFs SemUtil Tty Lifecycle PtyServer Supervisor Signals
begin

text \<open>
  \<^bold>\<open>hoststack\<close> runs commands in containers: a command gets a root directory put together from an overlay of the
  host's directories, name spaces of its own and a pseudo-terminal; a server process per container keeps the
  master side of that terminal and relays it to any number of clients. This library models the program and proves
  what makes it correct. Paths below are relative to \<open>src/src/\<close> of the repository.

  \<^bold>\<open>How the parts interact.\<close> \<open>hoststack.cpp\<close> dispatches to the commands of \<open>cli/\<close>. \<open>run\<close> makes an identifier
  (\<open>ContainerDao::gen_id\<close>), the directories (\<open>ContainerFs::create_container\<close>) and calls \<open>ContainerService::start\<close>,
  as \<open>start\<close> does for a container of the table. \<open>start\<close> forks a server (\<open>pty_run_container\<close>) that clones the
  container's process (\<open>ptyClone\<close>: mounts, \<open>chroot\<close>, \<open>execvp\<close>), waits for its first output (the header), records it in the table
  (the callback), listens on a socket and then sets a semaphore to 0, for which the caller has been waiting; then the caller attaches its
  terminal (\<open>pty_client\<close>) or prints the identifier. The server serves clients until the container ends, unmounts
  it and means to mark it stopped. \<open>stop\<close>, \<open>rm\<close>, \<open>exec\<close>, \<open>attach\<close>, \<open>ps\<close> work on the table and on processes.
  \<open>hoststack_supervisor.cpp\<close> is a daemon that restarts containers whose process is gone.

  \<^bold>\<open>Theories and sources.\<close>
  \<^item> \<open>Prelude\<close>: outcomes, C strings, 32-bit numbers, decimal numbers, sets of strings.
  \<^item> \<open>CStrings\<close>, \<open>DirTree\<close>: \<open>common/usg_common.cpp\<close>. The string functions with their buffers and
    allocations (\<open>ltrim\<close>, \<open>rtrim\<close>, \<open>trim\<close>, \<open>str_join\<close>, \<open>array_join\<close>, \<open>path_join\<close>, \<open>str_split\<close>, \<open>strstr_r\<close>);
    the recursive directory makers on a tree, behind the locale \<open>dir_maker\<close>.
  \<^item> \<open>ContainerInfo\<close>, \<open>JsonLib\<close>, \<open>ContainerDao\<close>, \<open>ContainerStore\<close>, \<open>TableRace\<close>: \<open>util/container_info.cpp\<close>
    and \<open>util/container_dao.cpp\<close>. The record of a container; what is relied on of the JSON library (locale
    \<open>json_library\<close>, interpreted by an implementation with parser and printer); the table in a file, one function
    per operation of \<open>ContainerDao\<close>; the contract of the table (locale \<open>container_store\<close>, a sublocale of
    \<open>json_library\<close>) and the refinement of a list of records; two processes inserting at the same time, each reading,
    truncating and writing the file.
  \<^item> \<open>ContainerId\<close>: \<open>ContainerDao::gen_id\<close> and what it uses of \<open>include/sole.h\<close>, on 64-bit words.
  \<^item> \<open>SysIo\<close>, \<open>RioIo\<close>, \<open>Sockets\<close>: \<open>common/socket_io.cpp\<close>. Descriptors with queues and a schedule of the
    kernel's answers (short counts, interruptions, errors); the \<open>rio_\<close> functions, the buffered ones behind the
    locale \<open>byte_source\<close>; opening sockets.
  \<^item> \<open>Tty\<close>, \<open>PtyOpen\<close>: \<open>pty/tty_functions.cpp\<close>, \<open>pty/pty_master_open.cpp\<close>, \<open>pty/pty_fork.cpp\<close>. Terminal
    attributes as words of flags, and the input a change of them discards; opening a pair, forking and cloning with every failing call a branch.
  \<^item> \<open>PtyPool\<close>, \<open>PtyServer\<close>, \<open>PtyClient\<close>: \<open>pty/pty_exec_util.cpp\<close>. The pool of clients and the server's
    relay loop; what any number of its rounds does, by a relation that is closed under sequence; the clients \<open>pty_client\<close> and \<open>pty_exec\<close>, whose two loops share the locale \<open>relay_loop\<close>.
  \<^item> \<open>SemUtil\<close>: \<open>common/sem_util.cpp\<close>. System V semaphores that block, fail or are interrupted.
  \<^item> \<open>PathAssembler\<close>, \<open>ContainerFs\<close>: \<open>util/path_assembler.cpp\<close>, \<open>util/container_fs.cpp\<close>. Paths in their
    buffers; layout, mounts and volumes on a tree and a mount table. The functions with suffix \<open>_st\<close> keep the host also
    when they fail half-way; those without are their results for a caller that goes on only when they return.
  \<^item> \<open>ContainerService\<close>, \<open>StartSync\<close>: \<open>util/container_service.cpp\<close> and \<open>pty_run_container\<close>. Commands are
    functions on the \<open>world\<close> (table, processes, mounts, semaphores, sockets, terminals, output) that keep it when
    the process ends early; the start of a container as an \<open>inductive\<close> relation in which caller, server and
    container's process interleave, the server serving one round per step, and the container writing and ending
    when it likes, or never.
  \<^item> \<open>GetOpt\<close>, \<open>Commands\<close>: \<open>getopt_long\<close>; \<open>hoststack.cpp\<close> and \<open>cli/\<close>, one function per \<open>handleCommand\<close>.
  \<^item> \<open>Lifecycle\<close>: what the commands, called from \<open>main\<close>, and the server leave to the next one.
  \<^item> \<open>Supervisor\<close>: \<open>hoststack_supervisor.cpp\<close>.
  \<^item> \<open>PropertiesConfig\<close>, \<open>Logging\<close>, \<open>Signals\<close>: \<open>common/properties_config.cpp\<close>, \<open>common/logger.cpp\<close>,
    \<open>common/log.h\<close>, \<open>util/logger_factory.h\<close>; the wrapper \<open>Signal\<close> and the handlers that only log.

  \<^bold>\<open>What is shown.\<close>
  \<^item> The table refines a list of records under every sequence of its operations and reports no container as
    running without a process; it loses a record when two processes insert and neither writes before the
    other reads, and all old records when one reads between the truncation and the write of the other
    (\<open>ContainerStore\<close>, \<open>TableRace\<close>).
  \<^item> The server keeps its pool well formed as long as \<open>accept\<close> returns no descriptor of \<open>FD_SETSIZE\<close> or more, sends every client that stays exactly the output, and the
    container what the clients typed (\<open>PtyServer\<close>); a client's session relays in order and restores the terminal
    (\<open>PtyClient\<close>); opening a pseudo-terminal leaks no descriptor, and its two children agree (\<open>PtyOpen\<close>).
  \<^item> \<open>hoststack run -d\<close>, from its argument vector on, records exactly one new container with the identifier it
    prints and a process that exists, and leaves its socket listening, if the container writes something; if it never
    does, the command never returns. Followed by \<open>stop\<close> and \<open>rm\<close> it leaves the table and the processes as they were,
    and the server has unmounted what was mounted before it reads a destroyed set; \<open>rm -f\<close> makes the server end in
    another error; a terminal attached to the container shows its output and the container gets what is typed (below).
  \<^item> The caller of \<open>run\<close> goes on only when the container is recorded and reachable, a container that stays silent
    keeps server and caller waiting, and a server that dies early leaves its caller waiting (\<open>StartSync\<close>).
  \<^item> \<open>stop\<close>, \<open>rm\<close>, \<open>start\<close> and \<open>ps\<close> do what they say to exactly the container named, both ways to call a
    command agree (\<open>ContainerService\<close>, \<open>Commands\<close>), and the supervisor restarts what has vanished, unless the
    table is empty, where it dies (\<open>Supervisor\<close>).
  \<^item> Transfers are complete and in order whatever the kernel splits or interrupts (\<open>RioIo\<close>); joins, splits and
    paths are right and within their buffers (\<open>CStrings\<close>); directories, mounts and volumes come and go in
    pairs (\<open>DirTree\<close>, \<open>ContainerFs\<close>); a wait for a semaphore ends only at zero (\<open>SemUtil\<close>); identifiers have
    their form (\<open>ContainerId\<close>); settings are read back and log lines written where they fit
    (\<open>PropertiesConfig\<close>, \<open>Logging\<close>).

  \<^bold>\<open>Conventions.\<close> A null dereference, an access outside a buffer, a use of freed or unassigned memory, an
  uncaught exception and a call of \<open>exit\<close> are values of \<open>outcome\<close>. What the kernel, the shell and the JSON
  library answer is an argument, so that a theorem holds for every answer unless it says otherwise. Lists of
  answers drive the \<open>select\<close> loops: a loop takes one answer per round, so a theorem over all lists is one about
  every number of rounds, and no fuel is needed; loops that wait for an event are relations or give \<open>None\<close>. A call
  that never returns is the outcome \<open>Hangs\<close>; a use of destroyed memory is an end, so nothing is claimed of what
  the program does after it.

  \<^bold>\<open>Assumptions of the model.\<close> Printing keeps \<open>errno\<close>. \<open>accept\<close> returns a descriptor that is not in use; where
  the bytes of a connection are followed over several rounds (the exact output and input of a client, an attached
  terminal) a number comes up once and is below \<open>FD_SETSIZE\<close>. A text is written to the data file in one call. The
  mounts of the container's process are seen on the host (shared propagation). A process that was killed is gone
  from \<open>/proc\<close> at the next look, and with the first process of a PID name space all others of it. The first output
  of a container, or the end of it, is what the read of the header waits for. \<open>char\<close> is signed. \<open>.\<close> and \<open>..\<close> are
  ordinary names in paths.
  A \<open>write\<close> of a negative count fails with \<open>EFAULT\<close>. The check threads of the supervisor run one after
  the other. What the commands log is not part of their world. Counters of bytes
  read (\<open>int\<close> in \<open>rio_readlineb\<close>) do not overflow.

  \<^bold>\<open>Not modelled.\<close> The implementation of the JSON library (not in the repository) and its headers; the other
  generators of \<open>include/sole.h\<close>; \<open>common/atomic_ops.h\<close> and the macro \<open>panic\<close>, which the program does not
  use; the debugging output operator of
  \<open>ContainerInfo\<close>; headers that only declare; the trial programs under \<open>test_pty\<close>, \<open>test_fifo\<close> and \<open>test\<close>.
\<close>

section \<open>The life of a container\<close>

text \<open>C2 (functional): \<open>hoststack run -d PROG ARGS\<close> on a host that refuses none of its calls makes the directories, which
  are there from then on, and the process of the container. If the container writes to its terminal or
  closes it, the command returns 0, having recorded exactly one new container in the table with the
  identifier it prints, the command and the process; and the container's socket listens. If the container does
  neither, the command never returns: nothing is recorded, listens or is printed.\<close>

theorem run_detached:
  assumes lib: "json_library (P_json P) jdoc jtext" and tab: "dao_state (P_json P) jtext (w_file w) cs"
    and wr: "writable (w_env w)" and root: "ce_euid C = 0" and prog: "\<not> is_option prog" "prog \<noteq> ''--''"
    and ctr: "ctr = gen_id (fst (ce_rand C)) (snd (ce_rand C))"
    and a: "a = \<lparr>ra_detach = True, ra_volumes = [], ra_name = None, ra_cmd = prog # args\<rparr>"
    and join: "array_join (mem_ok (P_kernel P)) ENOMEM (prog # args) '' '' = Inr (Some cmd)"
    and new: "new_container jtext cs (run_info ctr a cmd (now (w_env w))) ctr" and gr: "grants P (w_proc w) ctr c m fd"
    and tree: "tree_ok (hfs (w_host w))"
  shows "\<exists>h0 h1 r w'. create_repo (w_host w) = Inr h0 \<and> create_container ctr h0 = Inr h1 \<and>
    hoststack_main C P ([''hoststack'', ''run'', ''-d''] @ prog # args) w = (r, w') \<and>
    proc_alive (w_env w') c \<and> fs_ext h1 (w_host w') \<and>
    (if P_speaks P
     then r = Inr 0 \<and> dao_state (P_json P) jtext (w_file w') (cs @ [norm_info (run_info ctr a cmd (now (w_env w)) c)]) \<and>
       sun_path ctr \<in> set (w_listen w') \<and> w_out w' = w_out w @ ctr @ NL
     else r = Inl Hangs \<and> dao_state (P_json P) jtext (w_file w') cs \<and> w_listen w' = w_listen w \<and> w_out w' = w_out w)"
proof (cases "P_speaks P")
  case True
  from main_run [OF True lib tab wr root prog ctr a join new gr] obtain h0 h1 w' where
    w': "create_repo (w_host w) = Inr h0" "create_container ctr h0 = Inr h1"
      "hoststack_main C P ([''hoststack'', ''run'', ''-d''] @ prog # args) w = (Inr 0, w')" "w_out w' = w_out w @ ctr @ NL"
      "started P jtext cs (norm_info (run_info ctr a cmd (now (w_env w)) c)) (run_options C w ctr a) c (w\<lparr>w_host := h1\<rparr>) w'"
    by blast
  have "tree_ok (hfs h1)" using create_ext [OF tree] create_ext(2) [of h0] w'(1,2) by (auto simp: fs_ext_def)
  from child_host_ext [OF this, of "run_options C w ctr a" P] w' True show ?thesis by (auto simp: started_def a)
next
  case False
  from main_run_start [OF root prog ctr a, of w P] obtain h0 h1 where
    h: "create_repo (w_host w) = Inr h0" "create_container ctr h0 = Inr h1"
      "hoststack_main C P ([''hoststack'', ''run'', ''-d''] @ prog # args) w =
        cthen (service_start P (run_options C w ctr a) (run_callback P ctr a)) (cret 0) (w\<lparr>w_host := h1\<rparr>)" by blast
  have "grants P (w_proc (w\<lparr>w_host := h1\<rparr>)) (so_id (run_options C w ctr a)) c m fd" using gr by simp
  from service_start_silent [OF False this, of "run_callback P ctr a"] obtain w' where
    w': "service_start P (run_options C w ctr a) (run_callback P ctr a) (w\<lparr>w_host := h1\<rparr>) = (Inl Hangs, w')" "w_file w' = w_file w"
      "w_listen w' = w_listen w" "w_out w' = w_out w" "proc_alive (w_env w') c" "w_host w' = child_host P (run_options C w ctr a) h1"
    by auto
  have "tree_ok (hfs h1)" using create_ext [OF tree] create_ext(2) [of h0] h(1,2) by (auto simp: fs_ext_def)
  from child_host_ext [OF this, of "run_options C w ctr a" P] h w' False tab show ?thesis
    by (auto simp: a cthen_def cbind_def)
qed

text \<open>C3 (functional): the life of a detached container that writes to its terminal. \<open>hoststack run -d\<close> and \<open>hoststack stop\<close> with
  the identifier printed return 0. The server, which notices that the process is gone, unmounts what was
  mounted, so the mounts are those from before, and the container is recorded as stopped when the server
  comes to the read of a destroyed set that is its undoing. Whatever it has done by the time of \<open>hoststack rm\<close> to the host's
  directories and mounts, and to the row, unless it has given the row another process, \<open>rm\<close> returns 0, changes no mount, and the table and
  the processes of the host are those from before \<open>run\<close>.\<close>

theorem container_lifecycle:
  assumes lib: "json_library (P_json P) jdoc jtext" and tab: "dao_state (P_json P) jtext (w_file w) cs"
    and wr: "writable (w_env w)" and root: "ce_euid C = 0" and prog: "\<not> is_option prog" "prog \<noteq> ''--''"
    and ctr: "ctr = gen_id (fst (ce_rand C)) (snd (ce_rand C))"
    and a: "a = \<lparr>ra_detach = True, ra_volumes = [], ra_name = None, ra_cmd = prog # args\<rparr>"
    and join: "array_join (mem_ok (P_kernel P)) ENOMEM (prog # args) '' '' = Inr (Some cmd)"
    and new: "new_container jtext cs (run_info ctr a cmd (now (w_env w))) ctr" and gr: "grants P (w_proc w) ctr c m fd"
    and tree: "tree_ok (hfs (w_host w))" "host_has mnt_dir_arr (w_host w)"
    and kernel: "\<And>x. mount_ok (P_kernel P) x" "\<And>t. \<not> busy (P_kernel P) t"
      "\<And>l h. fst (shell (P_kernel P) l h) = 0 \<and> mounts (snd (shell (P_kernel P) l h)) = mounts h"
    and child: "P_speaks P" "is_int32 c" "P_wait P = c" "\<forall>p \<in> insert c (P_members P c). \<not> proc_alive (w_env w) p"
  shows "\<exists>w1 w2 w3. hoststack_main C P ([''hoststack'', ''run'', ''-d''] @ prog # args) w = (Inr 0, w1) \<and>
    hoststack_main C P [''hoststack'', ''stop'', ctr] w1 = (Inr 0, w2) \<and>
    srv_finish P ctr c w2 = (Inl UseAfterFree, w3) \<and> mounts (w_host w3) = mounts (w_host w) \<and>
    dao_state (P_json P) jtext (w_file w3) (cs @ [(norm_info (run_info ctr a cmd (now (w_env w)) c))\<lparr>status := CONTAINER_STOPED, pid := 0\<rparr>]) \<and>
    (\<forall>w' row. w_env w' = w_env w3 \<and> dao_state (P_json P) jtext (w_file w') (cs @ [row]) \<and> cid row = ctr \<and>
        (status row = CONTAINER_RUNNING \<longrightarrow> pid row = c) \<longrightarrow>
      (\<exists>w4. hoststack_main C P [''hoststack'', ''rm'', ctr] w' = (Inr 0, w4) \<and> dao_state (P_json P) jtext (w_file w4) cs \<and>
         mounts (w_host w4) = mounts (w_host w') \<and> proc_alive (w_env w4) = proc_alive (w_env w)))"
proof -
  let ?row = "norm_info (run_info ctr a cmd (now (w_env w)) c)"
  have len: "length ctr < 900" by (simp add: ctr)
  from main_run [OF child(1) lib tab wr root prog ctr a join new gr] obtain h0 h1 w1 where
    w1: "create_repo (w_host w) = Inr h0" "create_container ctr h0 = Inr h1"
      "hoststack_main C P ([''hoststack'', ''run'', ''-d''] @ prog # args) w = (Inr 0, w1)"
      "started P jtext cs ?row (run_options C w ctr a) c (w\<lparr>w_host := h1\<rparr>) w1" by blast
  note h1 = created_host [OF tree(1) w1(1,2) len]
  have "mounted ctr (mounts h1) (child_host P (run_options C w ctr a) h1)"
    using child_mounted [of h1 P "run_options C w ctr a"] host_has_ext [OF tree(2) h1(1)] h1(1) kernel(1) len
    by (simp add: fs_ext_def a)
  with w1(4) h1(2) have s1: "dao_state (P_json P) jtext (w_file w1) (cs @ [?row])" "mounted ctr (mounts (w_host w)) (w_host w1)"
      "w_env w1 = (w_env w)\<lparr>proc_alive := (proc_alive (w_env w))(c := True)\<rparr>" by (simp_all add: started_def)
  have row: "cid ?row = ctr" "pid ?row = c" "status ?row = CONTAINER_RUNNING"
    using child(2) by (simp_all add: norm_info_def run_info_def a)
  have env: "writable (w_env w1)" "proc_alive (w_env w1) c" using wr s1(3) by simp_all
  have cs: "\<forall>x \<in> set cs. \<not> matches ctr x" using new by (simp add: new_container_def)
  note op = gen_id_operand [of "fst (ce_rand C)" "snd (ce_rand C)", folded ctr]
  from stop_finish [OF lib s1(1) env(1) root op(3) len cs row env(2) child(3) s1(2) kernel(2)] obtain w2 w3 where
    w3: "hoststack_main C P [''hoststack'', ''stop'', ctr] w1 = (Inr 0, w2)" "srv_finish P ctr c w2 = (Inl UseAfterFree, w3)"
      "dao_state (P_json P) jtext (w_file w3) (cs @ [?row\<lparr>status := CONTAINER_STOPED, pid := 0\<rparr>])"
      "mounts (w_host w3) = mounts (w_host w)" "w_env w3 = w_env (snd (reap P c w1))" by blast
  have e3: "writable (w_env w3)" "proc_alive (w_env w3) = proc_alive (w_env w)"
    using w3(5) wr s1(3) child(4) by (auto simp: fun_eq_iff)
  have rm: "\<exists>w4. hoststack_main C P [''hoststack'', ''rm'', ctr] w' = (Inr 0, w4) \<and> dao_state (P_json P) jtext (w_file w4) cs \<and>
      mounts (w_host w4) = mounts (w_host w') \<and> proc_alive (w_env w4) = proc_alive (w_env w)"
    if "w_env w' = w_env w3" "dao_state (P_json P) jtext (w_file w') (cs @ [r])" "cid r = ctr" "status r = CONTAINER_RUNNING \<longrightarrow> pid r = c" for w' r
    using rm_last [OF lib that(2) _ root op len cs that(3) _ kernel(3)] that(1,4) e3 child(4) by auto
  have "\<forall>w' row. w_env w' = w_env w3 \<and> dao_state (P_json P) jtext (w_file w') (cs @ [row]) \<and> cid row = ctr \<and>
      (status row = CONTAINER_RUNNING \<longrightarrow> pid row = c) \<longrightarrow>
    (\<exists>w4. hoststack_main C P [''hoststack'', ''rm'', ctr] w' = (Inr 0, w4) \<and> dao_state (P_json P) jtext (w_file w4) cs \<and>
       mounts (w_host w4) = mounts (w_host w') \<and> proc_alive (w_env w4) = proc_alive (w_env w))"
    using rm by blast
  with w1(3) w3(1-4) show ?thesis by blast
qed

text \<open>C27 (error): \<open>rm -f\<close> of a running container stops it and removes its row at once; the server of the container,
  which ends when it notices that the process is gone, then looks for the row. If it gets there after the
  removal, as it can when the process did not give in to the first signal, it ends in the dereference of an
  empty optional.\<close>

theorem rm_force_breaks_server:
  assumes lib: "json_library (P_json P) jdoc jtext" and tab: "dao_state (P_json P) jtext (w_file w) cs"
    and wr: "writable (w_env w)" and c: "find (matches v) cs = Some c" "\<forall>x \<in> set cs. cname x = cid c \<longrightarrow> cid x = cid c"
    and live: "status c = CONTAINER_RUNNING" "proc_alive (w_env w) (pid c)" "P_wait P = pid c"
    and rm: "remove_container (P_kernel P) (cid c) (w_host w) = Inr (0, h)" and len: "length (cid c) < 900"
  shows "\<exists>w'. removeContainer P True v w = (Inr (), w') \<and> \<not> proc_alive (w_env w') (pid c) \<and>
    fst (srv_finish P (cid c) (pid c) w') = Inl EmptyOptional"
proof -
  let ?cs = "filter (\<lambda>x. cid x \<noteq> cid c) cs"
  from remove_running [OF lib tab wr c rm live(1,2), of True] obtain f where
    f: "dao_state (P_json P) jtext f ?cs" "removeContainer P True v w = (Inr (), (snd (reap P (pid c) w))\<lparr>w_host := h, w_file := f\<rparr>)"
    by auto
  let ?w = "(snd (reap P (pid c) w))\<lparr>w_host := h, w_file := f\<rparr>"
  have "dao_state (P_json P) jtext (w_file ?w) ?cs" "writable (w_env ?w)" "\<not> proc_alive (w_env ?w) (pid c)"
    using f(1) wr by (simp_all add: reap_def cput_def)
  moreover have "\<forall>x \<in> set ?cs. \<not> matches (cid c) x" using c(2) by auto
  ultimately show ?thesis using srv_finish_unknown [OF lib _ _ _ live(3) len] f(2) by blast
qed

section \<open>An attached terminal\<close>


section \<open>Examples\<close>

text \<open>A run on the example host: its identifier, and what it needs of the kernel.\<close>

lemma demo_gen_id: "gen_id 1 2 = ''00000000-0000-4001-8000-000000000002''"
proof -
  have u: "uuid4 1 2 = Uuid 0x4001 0x8000000000000002" by (simp add: uuid4_def)
  have h: "hex_digit 0 = CHR ''0''" "hex_digit (Suc 0) = CHR ''1''" "hex_digit 2 = CHR ''2''" "hex_digit 4 = CHR ''4''" "hex_digit 8 = CHR ''8''" by code_simp+
  have s: "setw 8 0 = ''00000000''" "setw 4 0 = ''0000''" "setw 8 2 = ''00000002''"
    using show_hex.simps [of 0] show_hex.simps [of 2] by (simp_all add: setw_def h) (simp_all add: eval_nat_numeral)
  have t: "show_hex 16385 = ''4001''" "show_hex 32768 = ''8000''"
    by (simp_all add: h show_hex.simps [of 4] show_hex.simps [of 8] show_hex.simps [of 64] show_hex.simps [of 128]
        show_hex.simps [of 1024] show_hex.simps [of 2048] show_hex.simps [of 16385] show_hex.simps [of 32768])
  then have "setw 4 16385 = ''4001''" "setw 4 32768 = ''8000''" by (simp_all add: setw_def)
  with s show ?thesis unfolding gen_id_def u uuid_str_nat by simp
qed

lemma demo_grants: "grants demo_plat (w_proc (demo_world None)) x 7 5 6"
  by (simp add: grants_def demo_plat_def demo_world_def demo_sem_env_def ptyClone_def ptyMasterOpen_def demo_pty_env_def
      MAX_SNAME_def FD_SETSIZE_def Let_def)

definition demo_arg :: container_run_arg_t where
  "demo_arg = \<lparr>ra_detach = True, ra_volumes = [], ra_name = None, ra_cmd = [''bash'']\<rparr>"

lemma demo_first_run:
  "ce_euid demo_cli = 0" "\<not> is_option ''bash''" "''bash'' \<noteq> ''--''"
  "gen_id 1 2 = gen_id (fst (ce_rand demo_cli)) (snd (ce_rand demo_cli))"
  "demo_arg = \<lparr>ra_detach = True, ra_volumes = [], ra_name = None, ra_cmd = ''bash'' # []\<rparr>"
  "array_join (mem_ok (P_kernel demo_plat)) ENOMEM (''bash'' # []) '' '' = Inr (Some ''bash'')"
  "new_container text_jv [] (run_info (gen_id 1 2) demo_arg ''bash'' (now (w_env (demo_world None)))) (gen_id 1 2)"
  "tree_ok (hfs (w_host (demo_world None)))" "host_has mnt_dir_arr (w_host (demo_world None))"
  using demo_host_ok
  by (simp_all add: demo_cli_def is_option_def demo_arg_def array_join_def Let_def strcat_def demo_plat_def demo_kernel_def
      demo_world_def new_container_def run_info_def demo_gen_id storable_def text_jv_def empty_info_def is_set_def
      is_int32_def [of 0] is_int32_def [of 1])

text \<open>The same host with a command that writes nothing.\<close>

definition mute_plat :: "jv plat" where
  "mute_plat = demo_plat\<lparr>P_speaks := False\<rparr>"

theorem run_detached_witness:
  "(\<exists>w'. hoststack_main demo_cli demo_plat [''hoststack'', ''run'', ''-d'', ''bash''] (demo_world None) = (Inr 0, w') \<and>
      proc_alive (w_env w') 7 \<and> w_out w' = ''00000000-0000-4001-8000-000000000002'' @ NL) \<and>
   (\<exists>w'. hoststack_main demo_cli mute_plat [''hoststack'', ''run'', ''-d'', ''bash''] (demo_world None) = (Inl Hangs, w') \<and>
      dao_state (P_json mute_plat) text_jv (w_file w') [])"
proof
  have s: "P_speaks demo_plat" "w_out (demo_world None) = []" by (simp_all add: demo_plat_def demo_world_def)
  from run_detached [OF demo_world_start(4,1,2) demo_first_run(1-7) demo_grants demo_first_run(8)] s
  show "\<exists>w'. hoststack_main demo_cli demo_plat [''hoststack'', ''run'', ''-d'', ''bash''] (demo_world None) = (Inr 0, w') \<and>
      proc_alive (w_env w') 7 \<and> w_out w' = ''00000000-0000-4001-8000-000000000002'' @ NL"
    by (auto simp: demo_gen_id)
  have m: "P_json mute_plat = P_json demo_plat" "P_kernel mute_plat = P_kernel demo_plat" "\<not> P_speaks mute_plat"
    "grants mute_plat p x 7 5 6 = grants demo_plat p x 7 5 6" for p x by (simp_all add: mute_plat_def grants_def)
  have gr: "grants mute_plat (w_proc (demo_world None)) (gen_id 1 2) 7 5 6" using demo_grants by (simp add: m(4))
  from run_detached [of mute_plat, unfolded m(1,2), OF demo_world_start(4,1,2) demo_first_run(1-7) gr demo_first_run(8)]
  show "\<exists>w'. hoststack_main demo_cli mute_plat [''hoststack'', ''run'', ''-d'', ''bash''] (demo_world None) = (Inl Hangs, w') \<and>
      dao_state (P_json mute_plat) text_jv (w_file w') []"
    using m(3) by (auto simp: m(1))
qed

definition fresh_world :: world where
  "fresh_world = (demo_world None)\<lparr>w_env := demo_env\<lparr>proc_alive := \<lambda>_. False\<rparr>\<rparr>"

theorem container_lifecycle_witness:
  "\<exists>w1 w2 w3 w4. hoststack_main demo_cli demo_plat [''hoststack'', ''run'', ''-d'', ''bash''] fresh_world = (Inr 0, w1) \<and>
    hoststack_main demo_cli demo_plat [''hoststack'', ''stop'', gen_id 1 2] w1 = (Inr 0, w2) \<and>
    srv_finish demo_plat (gen_id 1 2) 7 w2 = (Inl UseAfterFree, w3) \<and>
    hoststack_main demo_cli demo_plat [''hoststack'', ''rm'', gen_id 1 2] w3 = (Inr 0, w4) \<and> mounts (w_host w4) = []"
proof -
  have k: "mount_ok (P_kernel demo_plat) x" "\<not> busy (P_kernel demo_plat) y"
    "fst (shell (P_kernel demo_plat) l h) = 0 \<and> mounts (snd (shell (P_kernel demo_plat) l h)) = mounts h" for x y l h
    by (simp_all add: demo_plat_def demo_kernel_def)
  have c: "P_speaks demo_plat" "is_int32 7" "P_wait demo_plat = 7"
    "\<forall>p \<in> insert 7 (P_members demo_plat 7). \<not> proc_alive (w_env fresh_world) p" "mounts (w_host fresh_world) = []"
    by (simp_all add: is_int32_def demo_plat_def fresh_world_def demo_world_def demo_host_def)
  have w: "dao_state (P_json demo_plat) text_jv (w_file fresh_world) []" "writable (w_env fresh_world)"
    "new_container text_jv [] (run_info (gen_id 1 2) demo_arg ''bash'' (now (w_env fresh_world))) (gen_id 1 2)"
    "grants demo_plat (w_proc fresh_world) (gen_id 1 2) 7 5 6" "tree_ok (hfs (w_host fresh_world))"
    "host_has mnt_dir_arr (w_host fresh_world)"
    using demo_world_start demo_first_run demo_grants by (simp_all add: fresh_world_def demo_world_def)
  let ?row = "(norm_info (run_info (gen_id 1 2) demo_arg ''bash'' (now (w_env fresh_world)) 7))\<lparr>status := CONTAINER_STOPED, pid := 0\<rparr>"
  from container_lifecycle [OF demo_world_start(4) w(1,2) demo_first_run(1-6) w(3-6) k c(1-4)] obtain w1 w2 w3 where
    r: "hoststack_main demo_cli demo_plat [''hoststack'', ''run'', ''-d'', ''bash''] fresh_world = (Inr 0, w1)"
      "hoststack_main demo_cli demo_plat [''hoststack'', ''stop'', gen_id 1 2] w1 = (Inr 0, w2)"
      "srv_finish demo_plat (gen_id 1 2) 7 w2 = (Inl UseAfterFree, w3)" "mounts (w_host w3) = []"
      "dao_state (P_json demo_plat) text_jv (w_file w3) ([] @ [?row])"
      "\<forall>w' row. w_env w' = w_env w3 \<and> dao_state (P_json demo_plat) text_jv (w_file w') ([] @ [row]) \<and> cid row = gen_id 1 2 \<and>
          (status row = CONTAINER_RUNNING \<longrightarrow> pid row = 7) \<longrightarrow>
        (\<exists>w4. hoststack_main demo_cli demo_plat [''hoststack'', ''rm'', gen_id 1 2] w' = (Inr 0, w4) \<and>
           dao_state (P_json demo_plat) text_jv (w_file w4) [] \<and> mounts (w_host w4) = mounts (w_host w') \<and>
           proc_alive (w_env w4) = proc_alive (w_env fresh_world))"
    unfolding c(5) append_Cons append_Nil by blast
  have "cid ?row = gen_id 1 2" "status ?row \<noteq> CONTAINER_RUNNING" by (simp_all add: norm_info_def run_info_def)
  with r(5) r(6) [rule_format, of w3 ?row] r(4) obtain w4 where
    "hoststack_main demo_cli demo_plat [''hoststack'', ''rm'', gen_id 1 2] w3 = (Inr 0, w4)" "mounts (w_host w4) = []" by auto
  with r(1-3) show ?thesis by blast
qed

theorem rm_force_breaks_server_witness:
  "\<exists>w'. removeContainer demo_plat True ''web'' (demo_world live_file) = (Inr (), w') \<and>
     fst (srv_finish demo_plat ''a1'' 7 w') = Inl EmptyOptional"
proof -
  have w: "P_json demo_plat = json_impl" "w_file (demo_world live_file) = live_file" "w_env (demo_world live_file) = demo_env"
    "P_wait demo_plat = 7" by (simp_all add: demo_plat_def demo_world_def)
  have "remove_container (P_kernel demo_plat) (cid live_info) (w_host (demo_world live_file)) = Inr (0, demo_host)"
    by (simp add: remove_container_def demo_plat_def demo_world_def demo_kernel_def sprintf_def path_results hoststack_repo_def
        layer_path_def)
  from rm_force_breaks_server [of demo_plat doc_jv text_jv "demo_world live_file" _ "''web''", unfolded w,
      OF jimpl.json_library_axioms live_file_state _ live_find _ _ _ _ this]
  show ?thesis by (auto simp: empty_info_def)
qed





end
